(* ===== verification/AgentqPrelude.thy ===== *)
theory AgentqPrelude
  imports Main "HOL-Library.Word"
begin

text \<open>
  The prelude of the development: names for the machine types the crate uses, the fact
  collections the component theories add to, and generic facts about lists, maps, decimal
  numerals and line splitting that several components share.  The functions here model the parts
  of the Rust standard library the source calls (\<open>str::strip_prefix\<close>, \<open>str::split\<close>,
  \<open>[String]::join\<close>, \<open>ToString\<close> and \<open>FromStr\<close> of unsigned integers).

  A Rust \<open>String\<close> is modelled by its UTF-8 bytes, one \<open>char\<close> each.  The source looks
  only for ASCII characters, which never occur inside a multi-byte sequence, so working on bytes
  and working on Unicode scalar values give the same results.
\<close>

section \<open>Machine types and fact collections\<close>

type_synonym u32 = "32 word"
type_synonym u64 = "64 word"
type_synonym usize = "64 word"

named_theorems queue_simps "equations of the queue operations"
named_theorems store_simps "equations of the store operations"
named_theorems engine_simps "equations of the engine operations"

section \<open>Outcomes of fallible functions\<close>

text \<open>
  What a call of a Rust function that returns \<open>Result\<close> can end in: \<open>Ok\<close>, \<open>Err\<close>, or
  a panic that unwinds.
\<close>

datatype ('a, 'e) result = Ok 'a | Err 'e | Panic

fun result_bind :: "('a, 'e) result \<Rightarrow> ('a \<Rightarrow> ('b, 'e) result) \<Rightarrow> ('b, 'e) result" where
  "result_bind (Ok a) f = f a"
| "result_bind (Err e) f = Err e"
| "result_bind Panic f = Panic"

fun map_err :: "('e \<Rightarrow> 'f) \<Rightarrow> ('a, 'e) result \<Rightarrow> ('a, 'f) result" where
  "map_err f (Ok a) = Ok a"
| "map_err f (Err e) = Err (f e)"
| "map_err f Panic = Panic"

fun is_ok :: "('a, 'e) result \<Rightarrow> bool" where
  "is_ok (Ok a) = True"
| "is_ok (Err e) = False"
| "is_ok Panic = False"

definition ok_or :: "'e \<Rightarrow> 'a option \<Rightarrow> ('a, 'e) result" where
  "ok_or e x = (case x of None \<Rightarrow> Err e | Some a \<Rightarrow> Ok a)"

lemma ok_or_simps [simp]: "ok_or e None = Err e" "ok_or e (Some a) = Ok a"
  by (simp_all add: ok_or_def)

lemma result_bind_eq_Ok_iff: "result_bind r f = Ok b \<longleftrightarrow> (\<exists>a. r = Ok a \<and> f a = Ok b)"
  by (cases r) auto

lemma map_err_eq_Ok_iff [simp]: "map_err f r = Ok a \<longleftrightarrow> r = Ok a"
  by (cases r) auto

lemma is_ok_iff: "is_ok r \<longleftrightarrow> (\<exists>a. r = Ok a)"
  by (cases r) auto

section \<open>Lists\<close>

fun remove_first :: "('a \<Rightarrow> bool) \<Rightarrow> 'a list \<Rightarrow> 'a list" where
  "remove_first P [] = []"
| "remove_first P (x # xs) = (if P x then xs else x # remove_first P xs)"

lemma list_all_append_iff [simp]: "list_all P (xs @ ys) \<longleftrightarrow> list_all P xs \<and> list_all P ys"
  by (induction xs) auto

lemma filter_snoc: "filter P (xs @ [x]) = filter P xs @ (if P x then [x] else [])"
  by simp

lemma set_snoc_iff: "x \<in> set (xs @ [y]) \<longleftrightarrow> x = y \<or> x \<in> set xs"
  by auto

section \<open>Prefixes\<close>

definition strip_prefix :: "string \<Rightarrow> string \<Rightarrow> string option" where
  "strip_prefix p s = (if take (length p) s = p then Some (drop (length p) s) else None)"

lemma strip_prefix_append [simp]: "strip_prefix p (p @ s) = Some s"
  by (simp add: strip_prefix_def)

lemma strip_prefix_eq_Some_iff: "strip_prefix p s = Some r \<longleftrightarrow> s = p @ r"
  by (auto simp: strip_prefix_def) (metis append_take_drop_id)

lemma strip_prefix_eq_None_iff: "strip_prefix p s = None \<longleftrightarrow> (\<forall>r. s \<noteq> p @ r)"
  using strip_prefix_eq_Some_iff [of p s] by (cases "strip_prefix p s") auto

section \<open>Splitting a string into lines and joining lines\<close>

text \<open>\<open>str::split(c)\<close> always yields at least one piece, also for the empty string.\<close>

fun split_on :: "char \<Rightarrow> string \<Rightarrow> string list" where
  "split_on c [] = [[]]"
| "split_on c (x # xs) =
     (if x = c then [] # split_on c xs
      else (case split_on c xs of [] \<Rightarrow> [[x]] | y # ys \<Rightarrow> (x # y) # ys))"

fun join_with :: "char \<Rightarrow> string list \<Rightarrow> string" where
  "join_with c [] = []"
| "join_with c [x] = x"
| "join_with c (x # y # ys) = x @ c # join_with c (y # ys)"

lemma split_on_not_Nil [simp]: "split_on c s \<noteq> []"
  by (induction s) (auto split: list.splits)

lemma split_on_append_sep: "c \<notin> set x \<Longrightarrow> split_on c (x @ c # s) = x # split_on c s"
  by (induction x) auto

lemma split_on_no_sep: "c \<notin> set x \<Longrightarrow> split_on c x = [x]"
  by (induction x) auto

lemma split_on_join_with:
  "ls \<noteq> [] \<Longrightarrow> \<forall>l \<in> set ls. c \<notin> set l \<Longrightarrow> split_on c (join_with c ls) = ls"
  by (induction c ls rule: join_with.induct) (auto simp: split_on_append_sep split_on_no_sep)

section \<open>Decimal numerals\<close>

definition digit_char :: "nat \<Rightarrow> char" where
  "digit_char d = char_of (48 + d)"

definition char_digit :: "char \<Rightarrow> nat option" where
  "char_digit c =
     (let n = (of_char c :: nat) in if 48 \<le> n \<and> n \<le> 57 then Some (n - 48) else None)"

fun show_nat :: "nat \<Rightarrow> string" where
  "show_nat n = (if n < 10 then [digit_char n] else show_nat (n div 10) @ [digit_char (n mod 10)])"

declare show_nat.simps [simp del]

text \<open>
  The digit loop of \<open>from_str_radix(s, 10)\<close>: every character must be a digit, and the checked
  multiplication and addition fail as soon as the value does not fit below the bound.
\<close>

fun parse_digits :: "nat \<Rightarrow> nat \<Rightarrow> string \<Rightarrow> nat option" where
  "parse_digits bound acc [] = Some acc"
| "parse_digits bound acc (c # cs) =
     (case char_digit c of
        None \<Rightarrow> None
      | Some d \<Rightarrow>
          (if acc * 10 < bound \<and> acc * 10 + d < bound then parse_digits bound (acc * 10 + d) cs
           else None))"

text \<open>
  \<open>str::parse\<close> for an unsigned type: the empty string and a lone sign are refused, one leading
  \<open>+\<close> is skipped, and a leading \<open>-\<close> is refused as a digit.
\<close>

definition parse_uint :: "nat \<Rightarrow> string \<Rightarrow> nat option" where
  "parse_uint bound s =
     (if s = [] then None
      else if s = ''+'' \<or> s = ''-'' then None
      else if hd s = CHR ''+'' then parse_digits bound 0 (tl s)
      else parse_digits bound 0 s)"

lemma char_digit_digit_char: "d < 10 \<Longrightarrow> char_digit (digit_char d) = Some d"
  by (simp add: char_digit_def digit_char_def)

lemma digit_char_code: "d < 10 \<Longrightarrow> (of_char (digit_char d) :: nat) = 48 + d"
  by (simp add: digit_char_def)

lemma char_code_neqI: "(of_char c :: nat) \<noteq> of_char d \<Longrightarrow> c \<noteq> d"
  by auto

lemma show_nat_chars: "c \<in> set (show_nat n) \<Longrightarrow> \<exists>d < 10. c = digit_char d"
proof (induction n rule: show_nat.induct)
  case (1 n)
  show ?case
  proof (cases "n < 10")
    case True
    with 1 show ?thesis by (auto simp: show_nat.simps [of n])
  next
    case False
    with 1 show ?thesis by (auto simp: show_nat.simps [of n] intro: exI [of _ "n mod 10"])
  qed
qed

lemma show_nat_code: "c \<in> set (show_nat n) \<Longrightarrow> 48 \<le> (of_char c :: nat) \<and> (of_char c :: nat) \<le> 57"
  using show_nat_chars [of c n] by (auto simp: digit_char_code)

lemma show_nat_not_Nil [simp]: "show_nat n \<noteq> []"
  by (subst show_nat.simps) simp

lemma parse_digits_append:
  "parse_digits b a (xs @ ys) =
     (case parse_digits b a xs of None \<Rightarrow> None | Some v \<Rightarrow> parse_digits b v ys)"
  by (induction xs arbitrary: a) (auto split: option.splits)

lemma parse_digits_show_nat: "n < b \<Longrightarrow> parse_digits b 0 (show_nat n) = Some n"
proof (induction n rule: show_nat.induct)
  case (1 n)
  show ?case
  proof (cases "n < 10")
    case True
    with 1 show ?thesis by (simp add: show_nat.simps [of n] char_digit_digit_char)
  next
    case False
    have lt: "n div 10 < b" using "1.prems" by (meson div_le_dividend le_less_trans)
    have eq: "n div 10 * 10 + n mod 10 = n" by simp
    then have le: "n div 10 * 10 < b" using "1.prems" by linarith
    from False lt "1.IH" have "parse_digits b 0 (show_nat (n div 10)) = Some (n div 10)" by simp
    with False le "1.prems" show ?thesis
      by (simp add: show_nat.simps [of n] parse_digits_append char_digit_digit_char)
  qed
qed

lemma hd_show_nat_not_plus: "hd (show_nat n) \<noteq> CHR ''+''"
proof
  assume "hd (show_nat n) = CHR ''+''"
  moreover have "hd (show_nat n) \<in> set (show_nat n)" by simp
  ultimately show False using show_nat_code [of "hd (show_nat n)" n] by simp
qed

lemma show_nat_avoids:
  "\<not> (48 \<le> (of_char c :: nat) \<and> (of_char c :: nat) \<le> 57) \<Longrightarrow> c \<notin> set (show_nat n)"
  using show_nat_code by blast

lemma parse_uint_show_nat: "n < b \<Longrightarrow> parse_uint b (show_nat n) = Some n"
proof -
  assume "n < b"
  moreover have "CHR ''+'' \<notin> set (show_nat n)" "CHR ''-'' \<notin> set (show_nat n)"
    by (rule show_nat_avoids, simp)+
  then have "show_nat n \<noteq> ''+''" "show_nat n \<noteq> ''-''" by (auto intro: list.set_intros)
  ultimately show ?thesis
    by (simp add: parse_uint_def hd_show_nat_not_plus parse_digits_show_nat)
qed

lemma show_nat_inj:
  assumes eq: "show_nat m = show_nat n"
  shows "m = n"
proof -
  have "parse_digits (Suc (max m n)) 0 (show_nat m) = Some m" by (rule parse_digits_show_nat) simp
  moreover have "parse_digits (Suc (max m n)) 0 (show_nat n) = Some n"
    by (rule parse_digits_show_nat) simp
  ultimately show ?thesis unfolding eq by simp
qed

definition show_u32 :: "u32 \<Rightarrow> string" where
  "show_u32 w = show_nat (unat w)"

definition show_usize :: "usize \<Rightarrow> string" where
  "show_usize w = show_nat (unat w)"

definition parse_u32 :: "string \<Rightarrow> u32 option" where
  "parse_u32 s = map_option of_nat (parse_uint (2 ^ 32) s)"

definition parse_usize :: "string \<Rightarrow> usize option" where
  "parse_usize s = map_option of_nat (parse_uint (2 ^ 64) s)"

lemma unat_u32_less: "unat (w :: u32) < 2 ^ 32"
  using unsigned_less [of w] by simp

lemma unat_u64_less: "unat (w :: u64) < 2 ^ 64"
  using unsigned_less [of w] by simp

lemma parse_show_u32 [simp]: "parse_u32 (show_u32 w) = Some w"
  unfolding parse_u32_def show_u32_def by (subst parse_uint_show_nat [OF unat_u32_less]) simp

lemma parse_show_usize [simp]: "parse_usize (show_usize w) = Some w"
  unfolding parse_usize_def show_usize_def by (subst parse_uint_show_nat [OF unat_u64_less]) simp

lemma show_u32_inj [simp]: "show_u32 a = show_u32 b \<longleftrightarrow> a = b"
  by (metis option.inject parse_show_u32)

lemma show_usize_inj [simp]: "show_usize a = show_usize b \<longleftrightarrow> a = b"
  by (metis option.inject parse_show_usize)

lemma show_word_avoids [simp]:
  "CHR 0x0A \<notin> set (show_u32 w)" "CHR 0x0A \<notin> set (show_usize v)"
  "CHR '':'' \<notin> set (show_u32 w)" "CHR '':'' \<notin> set (show_usize v)"
  unfolding show_u32_def show_usize_def by (rule show_nat_avoids, simp)+

end
