(* ===== verification/JobTypes.thy ===== *)
theory JobTypes
  imports AgentqPrelude
begin

text \<open>
  The plain data of the queue layer: \<open>src/job.rs\<close> (priorities and jobs),
  \<open>src/handle.rs\<close> (outcomes), \<open>src/error.rs\<close> (the error types with their messages and
  sources) and the \<open>State\<close> enum of \<open>src/state.rs\<close>.

  A job's closure is opaque: it is modelled by a number that identifies it, and what a run of it
  returns (an output, an error message or a panic) is chosen by the environment when the task that
  runs it finishes.
\<close>

section \<open>Jobs\<close>

datatype priority = Low | Medium | High

text \<open>\<open>priority as usize\<close>, the index of a lane.\<close>

fun priority_index :: "priority \<Rightarrow> nat" where
  "priority_index Low = 0"
| "priority_index Medium = 1"
| "priority_index High = 2"

definition priority_count :: nat where
  "priority_count = 3"

lemma priority_index_less [simp]: "priority_index p < priority_count"
  by (cases p) (simp_all add: priority_count_def)

type_synonym key = string
type_synonym func = nat

record job =
  job_key :: key
  job_priority :: priority
  job_func :: func

definition new_job :: "key \<Rightarrow> priority \<Rightarrow> func \<Rightarrow> job" where
  "new_job k p f = \<lparr>job_key = k, job_priority = p, job_func = f\<rparr>"

text \<open>
  \<open>JobResult\<close>: the error is kept as the text its \<open>Display\<close> gives, which is all the crate ever
  reads of it; \<open>Panic\<close> is a body that unwinds.
\<close>

type_synonym job_result = "(string, string) result"

section \<open>Outcomes and states\<close>

datatype outcome = OCompleted string | OFailed string

datatype state = SPending | SProcessing | SCompleted string | SFailed string

fun state_of_outcome :: "outcome \<Rightarrow> state" where
  "state_of_outcome (OCompleted output) = SCompleted output"
| "state_of_outcome (OFailed reason) = SFailed reason"

definition claimed :: "state option \<Rightarrow> bool" where
  "claimed st \<longleftrightarrow> st = Some SPending \<or> st = Some SProcessing"

lemma claimed_simps [simp]:
  "claimed (Some SPending)" "claimed (Some SProcessing)" "\<not> claimed None"
  "\<not> claimed (Some (SCompleted out))" "\<not> claimed (Some (SFailed reason))"
  "\<not> claimed (Some (state_of_outcome oc))"
  by (cases oc; simp add: claimed_def)+

section \<open>Errors\<close>

datatype push_error = LaneClosed

datatype job_lost = JobLost

datatype wait_error = WaitPush push_error | WaitLost job_lost | WaitFailed string

definition push_error_display :: "push_error \<Rightarrow> string" where
  "push_error_display e = (case e of LaneClosed \<Rightarrow> ''lane is closed; no worker is running'')"

definition job_lost_display :: "job_lost \<Rightarrow> string" where
  "job_lost_display e = ''job outcome was lost; the worker ended without reporting''"

fun wait_error_display :: "wait_error \<Rightarrow> string" where
  "wait_error_display (WaitPush err) = ''could not queue the job: '' @ push_error_display err"
| "wait_error_display (WaitLost err) = job_lost_display err"
| "wait_error_display (WaitFailed reason) = ''the job failed: '' @ reason"

text \<open>The error a \<open>source()\<close> call points at, as the value of its type.\<close>

datatype wait_source = SourcePush push_error | SourceLost job_lost

fun wait_error_source :: "wait_error \<Rightarrow> wait_source option" where
  "wait_error_source (WaitPush err) = Some (SourcePush err)"
| "wait_error_source (WaitLost err) = Some (SourceLost err)"
| "wait_error_source (WaitFailed reason) = None"

definition wait_error_from_push :: "push_error \<Rightarrow> wait_error" where
  "wait_error_from_push err = WaitPush err"

definition wait_error_from_lost :: "job_lost \<Rightarrow> wait_error" where
  "wait_error_from_lost err = WaitLost err"

end
