(* ===== verification/Transition.thy ===== *)
theory Transition
  imports AgentqPrelude
begin

text \<open>
  Labelled transition systems given by an executable step function, with the reasoning the queue
  and the workflow engine share: invariants of the reachable states, simulation of an abstract step
  relation, and runs that must come to rest because a measure decreases.  Each is a locale that
  states what a component has to show for one step and concludes about whole runs.
\<close>

section \<open>Reachability\<close>

inductive reach :: "('l \<Rightarrow> 's \<Rightarrow> 's option) \<Rightarrow> 's \<Rightarrow> 's \<Rightarrow> bool" for exec s0 where
  reach_start: "reach exec s0 s0"
| reach_step: "reach exec s0 s \<Longrightarrow> exec l s = Some s' \<Longrightarrow> reach exec s0 s'"

lemma reach_trans: "reach exec s1 s2 \<Longrightarrow> reach exec s0 s1 \<Longrightarrow> reach exec s0 s2"
  by (induction rule: reach.induct) (auto intro: reach_step)

text \<open>Runs along a list of labels; a label that is not enabled ends the run.\<close>

fun run_labels :: "('l \<Rightarrow> 's \<Rightarrow> 's option) \<Rightarrow> 'l list \<Rightarrow> 's \<Rightarrow> 's option" where
  "run_labels exec [] s = Some s"
| "run_labels exec (l # ls) s =
     (case exec l s of None \<Rightarrow> None | Some s' \<Rightarrow> run_labels exec ls s')"

lemma run_labels_reach: "run_labels exec ls s = Some s' \<Longrightarrow> reach exec s s'"
proof (induction ls arbitrary: s)
  case Nil
  then show ?case by (simp add: reach_start)
next
  case (Cons l ls)
  then obtain t where "exec l s = Some t" "run_labels exec ls t = Some s'"
    by (auto split: option.splits)
  then have "reach exec s t" "reach exec t s'"
    by (auto intro: reach_step [OF reach_start] Cons.IH)
  then show ?case by (rule reach_trans [rotated])
qed

lemma run_labels_append:
  "run_labels exec (xs @ ys) s =
     (case run_labels exec xs s of None \<Rightarrow> None | Some t \<Rightarrow> run_labels exec ys t)"
  by (induction xs arbitrary: s) (auto split: option.splits)

section \<open>Invariants\<close>

locale invariant_system =
  fixes exec :: "'l \<Rightarrow> 's \<Rightarrow> 's option"
    and init :: "'s \<Rightarrow> bool"
    and inv :: "'s \<Rightarrow> bool"
  assumes init_inv: "init s \<Longrightarrow> inv s"
    and step_inv: "inv s \<Longrightarrow> exec l s = Some s' \<Longrightarrow> inv s'"
begin

lemma reach_from_inv: "reach exec s s' \<Longrightarrow> inv s \<Longrightarrow> inv s'"
  by (induction rule: reach.induct) (auto intro: step_inv)

lemma reach_inv: "init s0 \<Longrightarrow> reach exec s0 s \<Longrightarrow> inv s"
  by (blast intro: reach_from_inv init_inv)

end

section \<open>Simulation of an abstract step relation\<close>

locale simulation_system = invariant_system +
  fixes abs :: "'s \<Rightarrow> 'a"
    and astep :: "'a \<Rightarrow> 'a \<Rightarrow> bool"
  assumes step_simulates: "inv s \<Longrightarrow> exec l s = Some s' \<Longrightarrow> astep\<^sup>*\<^sup>* (abs s) (abs s')"
begin

lemma reach_simulates: "reach exec s s' \<Longrightarrow> inv s \<Longrightarrow> astep\<^sup>*\<^sup>* (abs s) (abs s')"
proof (induction rule: reach.induct)
  case reach_start
  show ?case by simp
next
  case (reach_step t l t')
  then show ?case by (meson reach_from_inv rtranclp_trans step_simulates)
qed

end

section \<open>Runs that come to rest\<close>

locale resting_system = invariant_system +
  fixes internal :: "'l \<Rightarrow> bool"
    and weight :: "'s \<Rightarrow> nat"
    and live :: "'s \<Rightarrow> bool"
  assumes internal_decreases: "inv s \<Longrightarrow> internal l \<Longrightarrow> exec l s = Some s' \<Longrightarrow> weight s' < weight s"
    and internal_live: "inv s \<Longrightarrow> internal l \<Longrightarrow> exec l s = Some s' \<Longrightarrow> live s \<Longrightarrow> live s'"
    and progress: "inv s \<Longrightarrow> live s \<Longrightarrow> weight s \<noteq> 0 \<Longrightarrow> \<exists>l s'. internal l \<and> exec l s = Some s'"
begin

text \<open>Every run of internal steps is at most as long as the weight of its first state.\<close>

lemma internal_run_bounded:
  "inv s \<Longrightarrow> list_all internal ls \<Longrightarrow> run_labels exec ls s = Some s' \<Longrightarrow>
     length ls + weight s' \<le> weight s"
proof (induction ls arbitrary: s)
  case Nil
  then show ?case by simp
next
  case (Cons l ls)
  then obtain t where t: "exec l s = Some t" "run_labels exec ls t = Some s'"
    by (auto split: option.splits)
  with Cons have "length ls + weight s' \<le> weight t" by (auto intro: step_inv)
  moreover have "weight t < weight s" using Cons.prems t by (auto intro: internal_decreases)
  ultimately show ?case by simp
qed

text \<open>And from a live state there is one that reaches weight zero.\<close>

lemma comes_to_rest:
  "inv s \<Longrightarrow> live s \<Longrightarrow>
     \<exists>ls s'. list_all internal ls \<and> run_labels exec ls s = Some s' \<and> weight s' = 0"
proof (induction "weight s" arbitrary: s rule: less_induct)
  case less
  show ?case
  proof (cases "weight s = 0")
    case True
    then show ?thesis by (intro exI [of _ "[]"] exI [of _ s]) simp
  next
    case False
    with less.prems obtain l t where t: "internal l" "exec l s = Some t"
      using progress by blast
    with less.prems have "weight t < weight s" "inv t" "live t"
      by (auto intro: internal_decreases step_inv internal_live)
    with less.hyps [of t] obtain ls s' where
      "list_all internal ls" "run_labels exec ls t = Some s'" "weight s' = 0" by blast
    with t show ?thesis by (intro exI [of _ "l # ls"] exI [of _ s']) simp
  qed
qed

end

end
