(* ===== verification/QueueModel.thy ===== *)
theory QueueModel
  imports JobTypes Transition
begin

text \<open>
  The in-memory queue: \<open>src/queue.rs\<close>, \<open>src/worker.rs\<close> and the guards of \<open>src/state.rs\<close>.

  The state record holds the two mutex-protected maps, the one-shot channels created so far (a
  sender and its receiver are one index), the lanes (channel buffer, the job the lane's worker has
  received but not yet dispatched, the free permits), the \<open>push\<close> futures that wait for room with
  an armed \<open>ClaimGuard\<close>, and the spawned job tasks.  Each operation below is one atomic piece
  of the code: a critical section of a mutex, or one channel or semaphore operation.
  \<open>qexec\<close> performs the piece a label names when it is enabled; the states the queue can be in are
  those reachable by such steps, in any order and on any number of threads.
\<close>

section \<open>Data\<close>

datatype accepted = Queued nat | Cached string | InFlight nat

record lane_config =
  capacity :: usize
  permits :: usize

definition default_lane_config :: lane_config where
  "default_lane_config = \<lparr>capacity = 100, permits = 5\<rparr>"

type_synonym queue_builder = "lane_config list"

definition builder_default :: queue_builder where
  "builder_default = replicate priority_count default_lane_config"

definition builder_lane :: "priority \<Rightarrow> lane_config \<Rightarrow> queue_builder \<Rightarrow> queue_builder" where
  "builder_lane p config b = b[priority_index p := config]"

datatype oneshot = Unresolved | Resolved outcome | SenderDropped

record lane =
  lane_config :: lane_config
  lane_open :: bool
  lane_buf :: "job list"
  lane_held :: "job option"
  lane_free :: nat

text \<open>
  The life of a spawned job task: it holds its permit, then its closure runs under the
  \<open>JobGuard\<close>, then the guard's drop has recorded the outcome, then it has notified the waiters;
  when the task ends the permit is released.
\<close>

datatype phase = Spawned | Running | Recorded outcome | Notified

record task =
  task_id :: nat
  task_lane :: nat
  task_job :: job
  task_phase :: phase

record queue =
  statemap :: "key \<rightharpoonup> state"
  waiters :: "key \<rightharpoonup> nat list"
  oneshots :: "oneshot list"
  lanes :: "lane list"
  pushes :: "(nat \<times> job) list"
  tasks :: "task list"
  next_task :: nat
  send_error_text :: string

text \<open>
  What the crate takes from \<open>tokio\<close>: for which sizes building a channel or a semaphore panics,
  and the message of the error a send into a closed channel returns.
\<close>

record tokio =
  channel_panics :: "usize \<Rightarrow> bool"
  semaphore_panics :: "usize \<Rightarrow> bool"
  send_error_display :: string

definition new_lane :: "lane_config \<Rightarrow> lane" where
  "new_lane config =
     \<lparr>lane_config = config, lane_open = True, lane_buf = [], lane_held = None,
      lane_free = unat (permits config)\<rparr>"

definition start :: "tokio \<Rightarrow> queue_builder \<Rightarrow> (queue, unit) result" where
  "start tk b =
     (if list_ex (\<lambda>c. channel_panics tk (capacity c) \<or> semaphore_panics tk (permits c)) b then Panic
      else Ok \<lparr>statemap = Map.empty, waiters = Map.empty, oneshots = [],
               lanes = map new_lane b, pushes = [], tasks = [], next_task = 0,
               send_error_text = send_error_display tk\<rparr>)"

section \<open>Atomic operations\<close>

fun set_oneshots :: "nat list \<Rightarrow> oneshot \<Rightarrow> oneshot list \<Rightarrow> oneshot list" where
  "set_oneshots [] v os = os"
| "set_oneshots (rx # rxs) v os = set_oneshots rxs v (os[rx := v])"

definition waiters_of :: "key \<Rightarrow> queue \<Rightarrow> nat list" where
  "waiters_of k q = (case waiters q k of None \<Rightarrow> [] | Some ws \<Rightarrow> ws)"

text \<open>
  \<open>oneshot::channel()\<close> and
  \<open>waiters.entry(key).or_default().push(sender)\<close>.
\<close>

definition add_waiter :: "key \<Rightarrow> queue \<Rightarrow> nat \<times> queue" where
  "add_waiter k q =
     (length (oneshots q),
      q\<lparr>oneshots := oneshots q @ [Unresolved],
        waiters := (waiters q)(k \<mapsto> waiters_of k q @ [length (oneshots q)])\<rparr>)"

text \<open>\<open>waiters.remove(key)\<close> where the senders are dropped unused.\<close>

definition drop_waiters :: "key \<Rightarrow> queue \<Rightarrow> queue" where
  "drop_waiters k q =
     q\<lparr>oneshots := set_oneshots (waiters_of k q) SenderDropped (oneshots q),
       waiters := (waiters q)(k := None)\<rparr>"

datatype push_step = PushReturn accepted | PushClaimed nat

text \<open>The critical section of \<open>push\<close>: look the key up, and join it, answer it or claim it.\<close>

definition push_claim :: "job \<Rightarrow> queue \<Rightarrow> push_step \<times> queue" where
  "push_claim j q =
     (case statemap q (job_key j) of
        Some (SCompleted output) \<Rightarrow> (PushReturn (Cached output), q)
      | Some SPending \<Rightarrow>
          (let (rx, q') = add_waiter (job_key j) q in (PushReturn (InFlight rx), q'))
      | Some SProcessing \<Rightarrow>
          (let (rx, q') = add_waiter (job_key j) q in (PushReturn (InFlight rx), q'))
      | _ \<Rightarrow>
          (let (rx, q') = add_waiter (job_key j) (q\<lparr>statemap := (statemap q)(job_key j \<mapsto> SPending)\<rparr>)
           in (PushClaimed rx, q'\<lparr>pushes := pushes q' @ [(rx, j)]\<rparr>)))"

definition remove_push :: "nat \<Rightarrow> queue \<Rightarrow> queue" where
  "remove_push rx q = q\<lparr>pushes := filter (\<lambda>p. fst p \<noteq> rx) (pushes q)\<rparr>"

definition update_lane :: "nat \<Rightarrow> (lane \<Rightarrow> lane) \<Rightarrow> queue \<Rightarrow> queue" where
  "update_lane i f q = q\<lparr>lanes := (lanes q)[i := f (lanes q ! i)]\<rparr>"

text \<open>
  \<open>sender.send(job).await\<close> and what follows it: \<open>None\<close> while the lane is full; the job enters
  the lane and the claim guard is disarmed; or the lane is closed and the key is marked failed.
\<close>

definition push_send :: "nat \<Rightarrow> queue \<Rightarrow> ((accepted, push_error) result \<times> queue) option" where
  "push_send rx q =
     (case map_of (pushes q) rx of
        None \<Rightarrow> None
      | Some j \<Rightarrow>
          (let i = priority_index (job_priority j); l = lanes q ! i in
           if lane_open l then
             (if length (lane_buf l) < unat (capacity (lane_config l)) then
                Some (Ok (Queued rx),
                      remove_push rx (update_lane i (lane_buf_update (\<lambda>b. b @ [j])) q))
              else None)
           else
             (let q' = remove_push rx q in
              Some (Err LaneClosed,
                    drop_waiters (job_key j)
                      (q'\<lparr>statemap := (statemap q')(job_key j \<mapsto> SFailed (send_error_text q'))\<rparr>)))))"

text \<open>
  Dropping a \<open>push\<close> future that still waits: the armed \<open>ClaimGuard\<close> removes the state entry
  and the waiters of the key.
\<close>

definition push_drop :: "nat \<Rightarrow> queue \<Rightarrow> queue option" where
  "push_drop rx q =
     (case map_of (pushes q) rx of
        None \<Rightarrow> None
      | Some j \<Rightarrow>
          (let q' = remove_push rx q in
           Some (drop_waiters (job_key j)
                   (q'\<lparr>statemap := (statemap q')(job_key j := None)\<rparr>))))"

text \<open>The worker loop of a lane: receive a job, then acquire a permit and spawn its task.\<close>

definition worker_recv :: "nat \<Rightarrow> queue \<Rightarrow> queue option" where
  "worker_recv i q =
     (if i < length (lanes q) \<and> lane_open (lanes q ! i) \<and> lane_held (lanes q ! i) = None then
        (case lane_buf (lanes q ! i) of
           [] \<Rightarrow> None
         | j # rest \<Rightarrow> Some (update_lane i (\<lambda>l. l\<lparr>lane_buf := rest, lane_held := Some j\<rparr>) q))
      else None)"

definition worker_spawn :: "nat \<Rightarrow> queue \<Rightarrow> queue option" where
  "worker_spawn i q =
     (if i < length (lanes q) \<and> 0 < lane_free (lanes q ! i) then
        (case lane_held (lanes q ! i) of
           None \<Rightarrow> None
         | Some j \<Rightarrow>
             (let q' = update_lane i (\<lambda>l. l\<lparr>lane_held := None, lane_free := lane_free l - 1\<rparr>) q in
              Some (q'\<lparr>tasks := tasks q' @
                         [\<lparr>task_id = next_task q', task_lane = i, task_job = j, task_phase = Spawned\<rparr>],
                       next_task := Suc (next_task q')\<rparr>)))
      else None)"

definition find_task :: "nat \<Rightarrow> queue \<Rightarrow> task option" where
  "find_task t q = find (\<lambda>u. task_id u = t) (tasks q)"

definition set_phase :: "nat \<Rightarrow> phase \<Rightarrow> queue \<Rightarrow> queue" where
  "set_phase t ph q =
     q\<lparr>tasks := map (\<lambda>u. if task_id u = t then u\<lparr>task_phase := ph\<rparr> else u) (tasks q)\<rparr>"

definition task_start :: "nat \<Rightarrow> queue \<Rightarrow> queue option" where
  "task_start t q =
     (case find_task t q of
        None \<Rightarrow> None
      | Some u \<Rightarrow>
          (if task_phase u = Spawned then
             Some (set_phase t Running
                     (q\<lparr>statemap := (statemap q)(job_key (task_job u) \<mapsto> SProcessing)\<rparr>))
           else None))"

text \<open>
  What the guard finds in its \<open>outcome\<close> field: a returned result was stored there, an unwinding
  body left it empty, and the guard then reports \<open>job panicked\<close>.
\<close>

fun guard_outcome :: "job_result \<Rightarrow> outcome" where
  "guard_outcome (Ok output) = OCompleted output"
| "guard_outcome (Err e) = OFailed e"
| "guard_outcome Panic = OFailed ''job panicked''"

text \<open>The first half of \<open>JobGuard::drop\<close>: the outcome is written under the state lock.\<close>

definition task_finish :: "nat \<Rightarrow> job_result \<Rightarrow> queue \<Rightarrow> queue option" where
  "task_finish t r q =
     (case find_task t q of
        None \<Rightarrow> None
      | Some u \<Rightarrow>
          (if task_phase u = Running then
             Some (set_phase t (Recorded (guard_outcome r))
                     (q\<lparr>statemap :=
                          (statemap q)(job_key (task_job u) \<mapsto> state_of_outcome (guard_outcome r))\<rparr>))
           else None))"

text \<open>
  The second half, after the state lock was released: the waiters of the key are taken under the
  waiter lock and each is sent the outcome.
\<close>

definition task_notify :: "nat \<Rightarrow> queue \<Rightarrow> queue option" where
  "task_notify t q =
     (case find_task t q of
        None \<Rightarrow> None
      | Some u \<Rightarrow>
          (case task_phase u of
             Recorded oc \<Rightarrow>
               (let k = job_key (task_job u) in
                Some (set_phase t Notified
                        (q\<lparr>oneshots := set_oneshots (waiters_of k q) (Resolved oc) (oneshots q),
                           waiters := (waiters q)(k := None)\<rparr>)))
           | _ \<Rightarrow> None))"

definition task_exit :: "nat \<Rightarrow> queue \<Rightarrow> queue option" where
  "task_exit t q =
     (case find_task t q of
        None \<Rightarrow> None
      | Some u \<Rightarrow>
          (if task_phase u = Notified then
             (let q' = update_lane (task_lane u) (\<lambda>l. l\<lparr>lane_free := Suc (lane_free l)\<rparr>) q in
              Some (q'\<lparr>tasks := filter (\<lambda>v. task_id v \<noteq> t) (tasks q')\<rparr>))
           else None))"

text \<open>
  The worker task of a lane is torn down with its runtime: the receiver and every job it still
  holds are dropped, and later sends into the lane fail.
\<close>

definition lane_close :: "nat \<Rightarrow> queue \<Rightarrow> queue option" where
  "lane_close i q =
     (if i < length (lanes q) \<and> lane_open (lanes q ! i) then
        Some (update_lane i (\<lambda>l. l\<lparr>lane_open := False, lane_buf := [], lane_held := None\<rparr>) q)
      else None)"

definition queue_state :: "key \<Rightarrow> queue \<Rightarrow> state option" where
  "queue_state k q = statemap q k"

section \<open>Steps\<close>

datatype qlabel =
    LPush job
  | LSend nat
  | LCancel nat
  | LRecv nat
  | LSpawn nat
  | LStart nat
  | LFinish nat job_result
  | LNotify nat
  | LExit nat
  | is_LClose: LClose nat

fun qexec :: "qlabel \<Rightarrow> queue \<Rightarrow> queue option" where
  "qexec (LPush j) q = Some (snd (push_claim j q))"
| "qexec (LSend rx) q = map_option snd (push_send rx q)"
| "qexec (LCancel rx) q = push_drop rx q"
| "qexec (LRecv i) q = worker_recv i q"
| "qexec (LSpawn i) q = worker_spawn i q"
| "qexec (LStart t) q = task_start t q"
| "qexec (LFinish t r) q = task_finish t r q"
| "qexec (LNotify t) q = task_notify t q"
| "qexec (LExit t) q = task_exit t q"
| "qexec (LClose i) q = lane_close i q"

text \<open>A label that is not enabled changes nothing: its task is not at that point.\<close>

definition qstep :: "qlabel \<Rightarrow> queue \<Rightarrow> queue" where
  "qstep l q = (case qexec l q of None \<Rightarrow> q | Some q' \<Rightarrow> q')"

fun qrun :: "qlabel list \<Rightarrow> queue \<Rightarrow> queue" where
  "qrun [] q = q"
| "qrun (l # ls) q = qrun ls (qstep l q)"

section \<open>Futures over a schedule\<close>

text \<open>
  An \<open>async\<close> call is run against a schedule, the list of things that happen elsewhere while it
  waits.  Each await point is polled first; while it is not ready the next entry of the schedule is
  performed and it is polled again.  \<open>Blocked\<close> means it was still waiting when the schedule
  ended.  \<open>g\<close> and \<open>p\<close> read and write the queue inside the caller's world.
\<close>

datatype 'a async = Blocked | Ready 'a

fun await_send ::
    "('w \<Rightarrow> queue) \<Rightarrow> (queue \<Rightarrow> 'w \<Rightarrow> 'w) \<Rightarrow> ('act \<Rightarrow> 'w \<Rightarrow> 'w) \<Rightarrow> nat \<Rightarrow> 'act list \<Rightarrow> 'w
     \<Rightarrow> (accepted, push_error) result async \<times> 'act list \<times> 'w" where
  "await_send g p env rx [] w =
     (case push_send rx (g w) of
        Some (r, q') \<Rightarrow> (Ready r, [], p q' w)
      | None \<Rightarrow> (Blocked, [], w))"
| "await_send g p env rx (a # as) w =
     (case push_send rx (g w) of
        Some (r, q') \<Rightarrow> (Ready r, a # as, p q' w)
      | None \<Rightarrow> await_send g p env rx as (env a w))"

definition push ::
    "('w \<Rightarrow> queue) \<Rightarrow> (queue \<Rightarrow> 'w \<Rightarrow> 'w) \<Rightarrow> ('act \<Rightarrow> 'w \<Rightarrow> 'w) \<Rightarrow> job \<Rightarrow> 'act list \<Rightarrow> 'w
     \<Rightarrow> (accepted, push_error) result async \<times> 'act list \<times> 'w" where
  "push g p env j sched w =
     (case push_claim j (g w) of
        (PushReturn acc, q') \<Rightarrow> (Ready (Ok acc), sched, p q' w)
      | (PushClaimed rx, q') \<Rightarrow> await_send g p env rx sched (p q' w))"

text \<open>One poll of a \<open>JobHandle\<close>; a dropped sender is \<open>JobLost\<close>.\<close>

definition poll_handle :: "nat \<Rightarrow> queue \<Rightarrow> (outcome, job_lost) result async" where
  "poll_handle rx q =
     (case oneshots q ! rx of
        Unresolved \<Rightarrow> Blocked
      | Resolved oc \<Rightarrow> Ready (Ok oc)
      | SenderDropped \<Rightarrow> Ready (Err JobLost))"

fun await_handle ::
    "nat \<Rightarrow> qlabel list \<Rightarrow> queue \<Rightarrow> (outcome, job_lost) result async \<times> qlabel list \<times> queue" where
  "await_handle rx [] q = (poll_handle rx q, [], q)"
| "await_handle rx (a # as) q =
     (case poll_handle rx q of
        Ready r \<Rightarrow> (Ready r, a # as, q)
      | Blocked \<Rightarrow> await_handle rx as (qstep a q))"

fun wait_result :: "(outcome, job_lost) result \<Rightarrow> (string, wait_error) result" where
  "wait_result (Ok (OCompleted output)) = Ok output"
| "wait_result (Ok (OFailed reason)) = Err (WaitFailed reason)"
| "wait_result (Err lost) = Err (wait_error_from_lost lost)"
| "wait_result Panic = Panic"

definition queue_push :: "job \<Rightarrow> qlabel list \<Rightarrow> queue
    \<Rightarrow> (accepted, push_error) result async \<times> qlabel list \<times> queue" where
  "queue_push = push (\<lambda>q. q) (\<lambda>q _. q) qstep"

definition push_and_wait :: "job \<Rightarrow> qlabel list \<Rightarrow> queue
    \<Rightarrow> (string, wait_error) result async \<times> qlabel list \<times> queue" where
  "push_and_wait j sched q =
     (case queue_push j sched q of
        (Blocked, s, q') \<Rightarrow> (Blocked, s, q')
      | (Ready (Err e), s, q') \<Rightarrow> (Ready (Err (wait_error_from_push e)), s, q')
      | (Ready Panic, s, q') \<Rightarrow> (Ready Panic, s, q')
      | (Ready (Ok (Cached output)), s, q') \<Rightarrow> (Ready (Ok output), s, q')
      | (Ready (Ok (Queued rx)), s, q') \<Rightarrow>
          (case await_handle rx s q' of
             (Blocked, s', q'') \<Rightarrow> (Blocked, s', q'')
           | (Ready r, s', q'') \<Rightarrow> (Ready (wait_result r), s', q''))
      | (Ready (Ok (InFlight rx)), s, q') \<Rightarrow>
          (case await_handle rx s q' of
             (Blocked, s', q'') \<Rightarrow> (Blocked, s', q'')
           | (Ready r, s', q'') \<Rightarrow> (Ready (wait_result r), s', q'')))"

end
