(* ===== verification/TimeModel.thy ===== *)
theory TimeModel
  imports AgentqPrelude
begin

text \<open>
  The parts of \<open>std::time\<close> the crate computes with: \<open>Duration\<close> at its real width (64-bit
  seconds, 32-bit nanoseconds below one second), with the saturating multiplication, division and
  order the engine uses, and \<open>SystemTime\<close> as a signed number of nanoseconds since the Unix epoch
  whose seconds fit 64 bits, with the two conversion functions of \<open>src/store/sqlite.rs\<close> that write
  it into two integer columns and read it back.
\<close>

section \<open>Duration\<close>

datatype duration = Duration (as_secs: u64) (subsec_nanos: u32)

instantiation duration :: linorder
begin

definition less_eq_duration :: "duration \<Rightarrow> duration \<Rightarrow> bool" where
  "less_eq_duration a b \<longleftrightarrow>
     as_secs a < as_secs b \<or> as_secs a = as_secs b \<and> subsec_nanos a \<le> subsec_nanos b"

definition less_duration :: "duration \<Rightarrow> duration \<Rightarrow> bool" where
  "less_duration a b \<longleftrightarrow>
     as_secs a < as_secs b \<or> as_secs a = as_secs b \<and> subsec_nanos a < subsec_nanos b"

instance
  by standard (auto simp: less_eq_duration_def less_duration_def duration.expand)

end

definition wf_duration :: "duration \<Rightarrow> bool" where
  "wf_duration d \<longleftrightarrow> unat (subsec_nanos d) < 1000000000"

text \<open>The length of a duration in nanoseconds: the number its two fields stand for.\<close>

definition nanos_of :: "duration \<Rightarrow> nat" where
  "nanos_of d = unat (as_secs d) * 1000000000 + unat (subsec_nanos d)"

definition duration_max :: duration where
  "duration_max = Duration 18446744073709551615 999999999"

definition duration_zero :: duration where
  "duration_zero = Duration 0 0"

definition duration_is_zero :: "duration \<Rightarrow> bool" where
  "duration_is_zero d \<longleftrightarrow> as_secs d = 0 \<and> subsec_nanos d = 0"

definition duration_from_millis :: "u64 \<Rightarrow> duration" where
  "duration_from_millis ms = Duration (ms div 1000) (ucast (ms mod 1000) * 1000000)"

text \<open>\<open>Duration::checked_mul\<close>: the nanoseconds carry into the seconds, both steps checked.\<close>

definition duration_checked_mul :: "duration \<Rightarrow> u32 \<Rightarrow> duration option" where
  "duration_checked_mul d k =
     (let total = unat (subsec_nanos d) * unat k;
          extra = total div 1000000000;
          nanos = total mod 1000000000;
          s = unat (as_secs d) * unat k
      in if s < 2 ^ 64 \<and> s + extra < 2 ^ 64 then Some (Duration (of_nat (s + extra)) (of_nat nanos))
         else None)"

definition duration_saturating_mul :: "duration \<Rightarrow> u32 \<Rightarrow> duration" where
  "duration_saturating_mul d k =
     (case duration_checked_mul d k of Some r \<Rightarrow> r | None \<Rightarrow> duration_max)"

text \<open>
  \<open>Duration / u32\<close>: the remainder of the seconds is carried into the nanoseconds.  The source
  divides by the constant 3 only.
\<close>

definition duration_div :: "duration \<Rightarrow> u32 \<Rightarrow> duration" where
  "duration_div d k =
     (let s = unat (as_secs d) div unat k;
          extra = unat (as_secs d) mod unat k;
          n = unat (subsec_nanos d) div unat k;
          extra_n = unat (subsec_nanos d) mod unat k
      in Duration (of_nat s) (of_nat (n + (extra * 1000000000 + extra_n) div unat k)))"

definition duration_of_nanos :: "nat \<Rightarrow> duration" where
  "duration_of_nanos n = Duration (of_nat (n div 1000000000)) (of_nat (n mod 1000000000))"

lemma nanos_of_max: "nanos_of duration_max = 18446744073709551615999999999"
  by (simp add: nanos_of_def duration_max_def)

lemma wf_duration_max [simp]: "wf_duration duration_max"
  by (simp add: wf_duration_def duration_max_def)

lemma nanos_of_le_max: "wf_duration d \<Longrightarrow> nanos_of d \<le> nanos_of duration_max"
  using unat_u64_less [of "as_secs d"] unfolding nanos_of_max by (simp add: nanos_of_def wf_duration_def)

lemma unat_of_nat_u64: "n < 18446744073709551616 \<Longrightarrow> unat (of_nat n :: u64) = n"
  by (simp add: unat_of_nat take_bit_nat_eq_self)

lemma unat_of_nat_u32: "n < 4294967296 \<Longrightarrow> unat (of_nat n :: u32) = n"
  by (simp add: unat_of_nat take_bit_nat_eq_self)

lemma wf_duration_of_nanos [simp]: "wf_duration (duration_of_nanos n)"
  by (simp add: wf_duration_def duration_of_nanos_def unat_of_nat_u32)

lemma nanos_of_duration_of_nanos:
  assumes "n \<le> nanos_of duration_max"
  shows "nanos_of (duration_of_nanos n) = n"
proof -
  have "n div 1000000000 < 18446744073709551616"
    using assms unfolding nanos_of_max by simp
  then show ?thesis
    by (simp add: nanos_of_def duration_of_nanos_def unat_of_nat_u64 unat_of_nat_u32)
qed

lemma duration_of_nanos_of: "wf_duration d \<Longrightarrow> duration_of_nanos (nanos_of d) = d"
  by (cases d) (simp add: nanos_of_def duration_of_nanos_def wf_duration_def)

lemma nanos_of_inject:
  "wf_duration a \<Longrightarrow> wf_duration b \<Longrightarrow> nanos_of a = nanos_of b \<longleftrightarrow> a = b"
  by (metis duration_of_nanos_of)

text \<open>The derived lexicographic order is the order of the lengths.\<close>

lemma lexicographic_nanos:
  fixes s s' n n' :: nat
  assumes "n < 1000000000" and "n' < 1000000000"
  shows "(s < s' \<or> s = s' \<and> n \<le> n') \<longleftrightarrow> s * 1000000000 + n \<le> s' * 1000000000 + n'"
  using assms by linarith

lemma duration_le_iff:
  assumes "wf_duration a" and "wf_duration b"
  shows "a \<le> b \<longleftrightarrow> nanos_of a \<le> nanos_of b"
  using lexicographic_nanos [of "unat (subsec_nanos a)" "unat (subsec_nanos b)"
      "unat (as_secs a)" "unat (as_secs b)"] assms
  unfolding less_eq_duration_def nanos_of_def wf_duration_def
    word_less_nat_alt word_le_nat_alt word_unat_eq_iff
  by blast

lemma duration_less_iff:
  "wf_duration a \<Longrightarrow> wf_duration b \<Longrightarrow> a < b \<longleftrightarrow> nanos_of a < nanos_of b"
  using duration_le_iff [of b a] by (simp add: not_le [symmetric])

lemma carry_bound:
  fixes x y :: nat
  assumes "y < 1000000000"
  shows "x < 18446744073709551616 \<longleftrightarrow> x * 1000000000 + y \<le> 18446744073709551615999999999"
  using assms by linarith

lemma duration_checked_mul_eq:
  "duration_checked_mul d k =
     (if nanos_of d * unat k \<le> nanos_of duration_max
      then Some (duration_of_nanos (nanos_of d * unat k)) else None)"
proof -
  define x where "x = unat (as_secs d) * unat k + unat (subsec_nanos d) * unat k div 1000000000"
  define y where "y = unat (subsec_nanos d) * unat k mod 1000000000"
  have y: "y < 1000000000" by (simp add: y_def)
  have eq: "nanos_of d * unat k = x * 1000000000 + y"
    unfolding x_def y_def nanos_of_def by (simp add: algebra_simps)
  have "duration_checked_mul d k =
      (if x < 18446744073709551616 then Some (Duration (of_nat x) (of_nat y)) else None)"
    by (simp add: duration_checked_mul_def Let_def x_def y_def)
  then show ?thesis
    unfolding eq nanos_of_max duration_of_nanos_def carry_bound [OF y] using y by simp
qed

lemma wf_duration_saturating_mul [simp]: "wf_duration (duration_saturating_mul d k)"
  by (simp add: duration_saturating_mul_def duration_checked_mul_eq)

lemma nanos_of_saturating_mul:
  "nanos_of (duration_saturating_mul d k) = min (nanos_of d * unat k) (nanos_of duration_max)"
  by (simp add: duration_saturating_mul_def duration_checked_mul_eq nanos_of_duration_of_nanos)

text \<open>Division by a positive number is the division of the lengths.\<close>

lemma carried_division:
  fixes s n k B :: nat
  assumes k: "0 < k" and n: "n < B"
  shows "(s * B + n) div k = s div k * B + (n div k + (s mod k * B + n mod k) div k)"
    and "n div k + (s mod k * B + n mod k) div k < B"
proof -
  define q r p m where "q = s div k" and "r = s mod k" and "p = n div k" and "m = n mod k"
  have s: "s = q * k + r" and nk: "n = p * k + m" and r: "r < k"
    using k by (simp_all add: q_def r_def p_def m_def)
  have "s * B + n = (q * B + p) * k + (r * B + m)"
    unfolding s nk by (simp add: algebra_simps)
  then show "(s * B + n) div k = s div k * B + (n div k + (s mod k * B + n mod k) div k)"
    using k unfolding q_def [symmetric] r_def [symmetric] p_def [symmetric] m_def [symmetric] by simp
  have "r * B + n < r * B + B" using n by simp
  also have "\<dots> = Suc r * B" by simp
  also have "\<dots> \<le> k * B" using r by (intro mult_le_mono1) (simp add: Suc_leI)
  finally have "(r * B + n) div k < B" using k by (simp add: less_mult_imp_div_less mult.commute)
  moreover have "(r * B + n) div k = p + (r * B + m) div k"
  proof -
    have eq: "r * B + n = p * k + (r * B + m)" unfolding nk by simp
    show ?thesis unfolding eq using k by simp
  qed
  ultimately show "n div k + (s mod k * B + n mod k) div k < B"
    unfolding r_def p_def m_def by simp
qed

lemma duration_div_eq:
  assumes wf: "wf_duration d" and k: "0 < unat k"
  shows "duration_div d k = duration_of_nanos (nanos_of d div unat k)"
proof -
  note cd = carried_division [OF k, of "unat (subsec_nanos d)" 1000000000 "unat (as_secs d)"]
  have n: "unat (subsec_nanos d) < 1000000000" using wf by (simp add: wf_duration_def)
  show ?thesis
    unfolding duration_div_def Let_def duration_of_nanos_def nanos_of_def cd(1) [OF n]
    using cd(2) [OF n] by simp
qed

text \<open>
  \<open>{:?}\<close> of a duration: the integer part in the largest unit that is not zero, then the
  fractional digits without trailing zeros.  The micro sign is the two bytes of its UTF-8 form.
\<close>

fun fraction_digits :: "nat \<Rightarrow> nat \<Rightarrow> string" where
  "fraction_digits frac 0 = []"
| "fraction_digits frac (Suc k) =
     (if frac = 0 then []
      else digit_char (frac div 10 ^ k) # fraction_digits (frac mod 10 ^ k) k)"

definition fmt_decimal :: "nat \<Rightarrow> nat \<Rightarrow> nat \<Rightarrow> string \<Rightarrow> string" where
  "fmt_decimal i frac width unit_name =
     show_nat i @ (if frac = 0 then [] else ''.'' @ fraction_digits frac width) @ unit_name"

definition duration_debug :: "duration \<Rightarrow> string" where
  "duration_debug d =
     (let s = unat (as_secs d); n = unat (subsec_nanos d) in
      if 0 < s then fmt_decimal s n 9 ''s''
      else if 1000000 \<le> n then fmt_decimal (n div 1000000) (n mod 1000000) 6 ''ms''
      else if 1000 \<le> n then fmt_decimal (n div 1000) (n mod 1000) 3 [CHR 0xC2, CHR 0xB5, CHR ''s'']
      else fmt_decimal n 0 1 ''ns'')"

section \<open>SystemTime\<close>

text \<open>
  A point in time is a number of nanoseconds since \<open>UNIX_EPOCH\<close>, negative before it; on the
  platforms of the standard library's Unix implementation its seconds are an \<open>i64\<close>.
\<close>

type_synonym system_time = int

definition system_time_ok :: "system_time \<Rightarrow> bool" where
  "system_time_ok t \<longleftrightarrow> - (2 ^ 63) \<le> t div 1000000000 \<and> t div 1000000000 < 2 ^ 63"

definition system_time_checked_add :: "system_time \<Rightarrow> duration \<Rightarrow> system_time option" where
  "system_time_checked_add t d =
     (let r = t + int (nanos_of d) in if system_time_ok r then Some r else None)"

text \<open>
  \<open>now.checked_add(ttl).unwrap_or(now)\<close>, the expiry every lease is given.
\<close>

definition lease_expiry :: "system_time \<Rightarrow> duration \<Rightarrow> system_time" where
  "lease_expiry now ttl = (case system_time_checked_add now ttl of Some t \<Rightarrow> t | None \<Rightarrow> now)"

text \<open>\<open>x as i64\<close> of a 64-bit unsigned value: the same bits read with a sign.\<close>

definition u64_as_i64 :: "u64 \<Rightarrow> int" where
  "u64_as_i64 w = sint w"

definition i64_as_u64 :: "int \<Rightarrow> u64" where
  "i64_as_u64 i = word_of_int i"

definition u32_as_i64 :: "u32 \<Rightarrow> int" where
  "u32_as_i64 w = uint w"

definition i64_as_u32 :: "int \<Rightarrow> u32" where
  "i64_as_u32 i = word_of_int i"

lemma i64_as_u64_u64_as_i64 [simp]: "i64_as_u64 (u64_as_i64 w) = w"
  by (simp add: i64_as_u64_def u64_as_i64_def)

lemma i64_as_u32_u32_as_i64 [simp]: "i64_as_u32 (u32_as_i64 w) = w"
  by (simp add: i64_as_u32_def u32_as_i64_def)

lemma u64_as_i64_inject [simp]: "u64_as_i64 a = u64_as_i64 b \<longleftrightarrow> a = b"
  by (metis i64_as_u64_u64_as_i64)

lemma u32_as_i64_inject [simp]: "u32_as_i64 a = u32_as_i64 b \<longleftrightarrow> a = b"
  by (metis i64_as_u32_u32_as_i64)

text \<open>\<open>duration_since(UNIX_EPOCH)\<close>; \<open>None\<close> stands for the error before the epoch.\<close>

definition since_epoch :: "system_time \<Rightarrow> duration option" where
  "since_epoch t = (if t < 0 then None else Some (duration_of_nanos (nat t)))"

definition system_time_parts :: "system_time \<Rightarrow> int \<times> int" where
  "system_time_parts t =
     (let dur = (case since_epoch t of Some d \<Rightarrow> d | None \<Rightarrow> duration_zero)
      in (u64_as_i64 (as_secs dur), u32_as_i64 (subsec_nanos dur)))"

text \<open>\<open>Duration::new\<close>: whole seconds of the nanoseconds are carried, and overflow panics.\<close>

definition duration_new :: "u64 \<Rightarrow> u32 \<Rightarrow> duration option" where
  "duration_new s n =
     (let total = unat s * 1000000000 + unat n
      in if total \<le> nanos_of duration_max then Some (duration_of_nanos total) else None)"

text \<open>
  \<open>system_time_from_parts\<close> and its \<open>rusqlite\<close> twin: a missing column counts as 0, and both the
  construction of the duration and its addition to the epoch panic when they overflow.
\<close>

definition system_time_from_parts ::
    "int option \<Rightarrow> int option \<Rightarrow> (system_time, 'e) result" where
  "system_time_from_parts secs nanos =
     (let s = (case secs of Some i \<Rightarrow> i | None \<Rightarrow> 0);
          n = (case nanos of Some i \<Rightarrow> i | None \<Rightarrow> 0)
      in case duration_new (i64_as_u64 s) (i64_as_u32 n) of
           None \<Rightarrow> Panic
         | Some d \<Rightarrow>
             (case system_time_checked_add 0 d of None \<Rightarrow> Panic | Some t \<Rightarrow> Ok t))"

lemma system_time_ok_bound:
  "0 \<le> t \<Longrightarrow> system_time_ok t \<Longrightarrow> nat t \<le> nanos_of duration_max"
proof -
  assume "0 \<le> t" "system_time_ok t"
  then have "t div 1000000000 < 9223372036854775808" by (simp add: system_time_ok_def)
  then have "t \<le> 18446744073709551615999999999"
    using div_mult_mod_eq [of t 1000000000] pos_mod_bound [of 1000000000 t] by linarith
  then show ?thesis unfolding nanos_of_max by simp
qed

lemma since_epoch_nanos:
  "0 \<le> t \<Longrightarrow> system_time_ok t \<Longrightarrow> \<exists>d. since_epoch t = Some d \<and> wf_duration d \<and> nanos_of d = nat t"
  by (simp add: since_epoch_def nanos_of_duration_of_nanos system_time_ok_bound)

lemma duration_new_fields:
  "wf_duration d \<Longrightarrow> duration_new (as_secs d) (subsec_nanos d) = Some d"
  using nanos_of_le_max [of d] duration_of_nanos_of [of d]
  by (simp add: duration_new_def nanos_of_def)

text \<open>Writing a time after the epoch into its two columns and reading it back is lossless.\<close>

lemma system_time_parts_roundtrip:
  assumes "0 \<le> t" and "system_time_ok t" and "system_time_parts t = (s, n)"
  shows "system_time_from_parts (Some s) (Some n) = Ok t"
proof -
  obtain d where d: "since_epoch t = Some d" "wf_duration d" "nanos_of d = nat t"
    using since_epoch_nanos [OF assms(1,2)] by blast
  with assms show ?thesis
    by (auto simp: system_time_parts_def system_time_from_parts_def Let_def duration_new_fields
        system_time_checked_add_def)
qed

lemma lease_expiry_ok: "system_time_ok now \<Longrightarrow> system_time_ok (lease_expiry now ttl)"
  by (simp add: lease_expiry_def system_time_checked_add_def Let_def)

lemma lease_expiry_ge: "now \<le> lease_expiry now ttl"
  by (simp add: lease_expiry_def system_time_checked_add_def Let_def)

lemma lease_expiry_eq:
  "system_time_ok (now + int (nanos_of ttl)) \<Longrightarrow> lease_expiry now ttl = now + int (nanos_of ttl)"
  by (simp add: lease_expiry_def system_time_checked_add_def Let_def)

text \<open>
  The order the SQL comparison of \<open>expired_leases\<close> uses on the two columns is the order of the
  times they were written from.
\<close>

lemma unat_secs_below:
  assumes "wf_duration d" and "int (nanos_of d) = t" and "system_time_ok t"
  shows "u64_as_i64 (as_secs d) = t div 1000000000 \<and> u32_as_i64 (subsec_nanos d) = t mod 1000000000"
proof -
  have t: "t = int (unat (as_secs d)) * 1000000000 + int (unat (subsec_nanos d))"
    using assms(2) by (simp add: nanos_of_def)
  have n: "int (unat (subsec_nanos d)) < 1000000000"
    using assms(1) unfolding wf_duration_def by linarith
  have q: "t div 1000000000 = int (unat (as_secs d))" and r: "t mod 1000000000 = int (unat (subsec_nanos d))"
    using n by (simp_all add: t)
  have "uint (as_secs d) < 2 ^ 63" using assms(3) q unfolding system_time_ok_def by simp
  moreover have "- (2 ^ 63) \<le> uint (as_secs d)"
    by (rule order_trans [of _ 0]) simp_all
  ultimately have "sint (as_secs d) = uint (as_secs d)"
    unfolding sint_uint by (simp add: signed_take_bit_int_eq_self)
  with q r show ?thesis by (simp add: u64_as_i64_def u32_as_i64_def)
qed

lemma system_time_parts_eq:
  assumes "0 \<le> t" and "system_time_ok t"
  shows "system_time_parts t = (t div 1000000000, t mod 1000000000)"
proof -
  obtain d where d: "since_epoch t = Some d" "wf_duration d" "nanos_of d = nat t"
    using since_epoch_nanos [OF assms] by blast
  then show ?thesis
    using unat_secs_below [of d t] assms by (simp add: system_time_parts_def)
qed

lemma div_mod_le_iff:
  fixes t u :: int
  shows "(t div 1000000000 < u div 1000000000
      \<or> t div 1000000000 = u div 1000000000 \<and> t mod 1000000000 \<le> u mod 1000000000) \<longleftrightarrow> t \<le> u"
proof -
  define a b c d where "a = t div 1000000000" and "b = u div 1000000000"
    and "c = t mod 1000000000" and "d = u mod 1000000000"
  have "t = a * 1000000000 + c" "u = b * 1000000000 + d" "0 \<le> c" "c < 1000000000" "0 \<le> d"
    "d < 1000000000"
    by (simp_all add: a_def b_def c_def d_def)
  then have "(a < b \<or> a = b \<and> c \<le> d) \<longleftrightarrow> t \<le> u" by linarith
  then show ?thesis by (simp only: a_def b_def c_def d_def)
qed

lemma system_time_parts_le_iff:
  assumes "0 \<le> t" "system_time_ok t" "0 \<le> u" "system_time_ok u"
    and "system_time_parts t = (s, n)" and "system_time_parts u = (s', n')"
  shows "(s < s' \<or> s = s' \<and> n \<le> n') \<longleftrightarrow> t \<le> u"
  using assms(5,6) div_mod_le_iff [of t u]
  unfolding system_time_parts_eq [OF assms(1,2)] system_time_parts_eq [OF assms(3,4)] by simp

end
