(* ===== verification/WorkflowTypes.thy ===== *)
theory WorkflowTypes
  imports JobTypes TimeModel
begin

text \<open>
  The data of the durable layer: \<open>src/workflow.rs\<close>, \<open>src/event.rs\<close>, the error and trait of
  \<open>src/store.rs\<close>, the engine's error type, and the pure functions of \<open>src/engine.rs\<close> on them:
  the two marker errors a step body can return, the retry backoff, and the reading of a step's
  status and attempt off the event log.
\<close>

section \<open>Workflows and events\<close>

datatype backoff = Fixed duration | Exponential duration duration

record retry_policy =
  max_attempts :: u32
  policy_backoff :: backoff

record step_def =
  step_name :: string
  step_retry_policy :: retry_policy
  step_timeout :: "duration option"

datatype step_status =
    StPending
  | StLeased string system_time
  | StCompleted string
  | StFailed string u32
  | StWaiting string

record workflow =
  workflow_id :: string
  workflow_steps :: "step_def list"

record execution =
  exec_workflow_id :: string
  exec_step_index :: usize
  exec_attempt :: u32
  exec_worker_id :: string
  exec_lease_expires_at :: system_time

datatype event =
    WorkflowStarted string
  | StepStarted string usize u32
  | StepCompleted string usize string
  | StepFailed string usize string
  | RetryScheduled string usize u32
  | StepWaiting string usize string
  | StepResumed string usize string
  | WorkflowCompleted string
  | WorkflowFailed string string
  | WorkflowCancelled string string
  | WorkerRecovered string usize

datatype claim_result = Claimed | AlreadyCompleted string | HeldByOther | AlreadyWaiting

fun event_workflow_id :: "event \<Rightarrow> string" where
  "event_workflow_id (WorkflowStarted w) = w"
| "event_workflow_id (StepStarted w i a) = w"
| "event_workflow_id (StepCompleted w i out) = w"
| "event_workflow_id (StepFailed w i r) = w"
| "event_workflow_id (RetryScheduled w i a) = w"
| "event_workflow_id (StepWaiting w i r) = w"
| "event_workflow_id (StepResumed w i inp) = w"
| "event_workflow_id (WorkflowCompleted w) = w"
| "event_workflow_id (WorkflowFailed w r) = w"
| "event_workflow_id (WorkflowCancelled w r) = w"
| "event_workflow_id (WorkerRecovered w i) = w"

section \<open>Errors\<close>

datatype store_error = NotFound | Backend string

fun store_error_display :: "store_error \<Rightarrow> string" where
  "store_error_display NotFound = ''workflow or step not found''"
| "store_error_display (Backend msg) = ''store backend error: '' @ msg"

datatype engine_error =
    EngineStore store_error
  | EnginePush push_error
  | EngineJobLost job_lost
  | EngineWorkflowFailed string

fun engine_error_display :: "engine_error \<Rightarrow> string" where
  "engine_error_display (EngineStore e) = store_error_display e"
| "engine_error_display (EnginePush e) = push_error_display e"
| "engine_error_display (EngineJobLost e) = job_lost_display e"
| "engine_error_display (EngineWorkflowFailed reason) = ''workflow failed: '' @ reason"

datatype engine_source = SrcStore store_error | SrcPush push_error | SrcJobLost job_lost

fun engine_error_source :: "engine_error \<Rightarrow> engine_source option" where
  "engine_error_source (EngineStore e) = Some (SrcStore e)"
| "engine_error_source (EnginePush e) = Some (SrcPush e)"
| "engine_error_source (EngineJobLost e) = Some (SrcJobLost e)"
| "engine_error_source (EngineWorkflowFailed reason) = None"

definition engine_error_from_store :: "store_error \<Rightarrow> engine_error" where
  "engine_error_from_store e = EngineStore e"

section \<open>Marker errors\<close>

definition wait_prefix :: string where
  "wait_prefix = ''agentq:wait:''"

definition non_retryable_prefix :: string where
  "non_retryable_prefix = ''agentq:non-retryable:''"

text \<open>The messages of the marker errors \<open>WaitForInput\<close> and \<open>NonRetryable\<close>.\<close>

definition wait_for_input_display :: "string \<Rightarrow> string" where
  "wait_for_input_display r = wait_prefix @ r"

definition non_retryable_display :: "string \<Rightarrow> string" where
  "non_retryable_display r = non_retryable_prefix @ r"

definition parse_waiting_reason :: "string \<Rightarrow> string option" where
  "parse_waiting_reason reason = strip_prefix wait_prefix reason"

definition parse_non_retryable_reason :: "string \<Rightarrow> string option" where
  "parse_non_retryable_reason reason = strip_prefix non_retryable_prefix reason"

definition timeout_reason :: "duration \<Rightarrow> string" where
  "timeout_reason t = ''step timed out after '' @ duration_debug t"

lemma parse_wait_for_input [simp]: "parse_waiting_reason (wait_for_input_display r) = Some r"
  by (simp add: parse_waiting_reason_def wait_for_input_display_def)

lemma parse_non_retryable [simp]: "parse_non_retryable_reason (non_retryable_display r) = Some r"
  by (simp add: parse_non_retryable_reason_def non_retryable_display_def)

lemma non_retryable_not_waiting [simp]: "parse_waiting_reason (non_retryable_display r) = None"
  by (simp add: parse_waiting_reason_def non_retryable_display_def strip_prefix_def wait_prefix_def
      non_retryable_prefix_def)

lemma waiting_not_non_retryable [simp]: "parse_non_retryable_reason (wait_for_input_display r) = None"
  by (simp add: parse_non_retryable_reason_def wait_for_input_display_def strip_prefix_def
      wait_prefix_def non_retryable_prefix_def)

lemma timeout_reason_plain [simp]:
  "parse_waiting_reason (timeout_reason t) = None"
  "parse_non_retryable_reason (timeout_reason t) = None"
  by (simp_all add: parse_waiting_reason_def parse_non_retryable_reason_def timeout_reason_def
      strip_prefix_def wait_prefix_def non_retryable_prefix_def)

section \<open>Backoff\<close>

text \<open>The doubling loop of \<open>Backoff::Exponential\<close>; \<open>None\<close> is its early return of \<open>max\<close>.\<close>

fun backoff_loop :: "nat \<Rightarrow> duration \<Rightarrow> duration \<Rightarrow> duration option" where
  "backoff_loop 0 d mx = Some d"
| "backoff_loop (Suc n) d mx =
     (let d' = duration_saturating_mul d 2 in if mx \<le> d' then None else backoff_loop n d' mx)"

definition backoff_duration :: "retry_policy \<Rightarrow> u32 \<Rightarrow> duration" where
  "backoff_duration policy failed_attempt =
     (case policy_backoff policy of
        Fixed d \<Rightarrow> d
      | Exponential base mx \<Rightarrow>
          (case backoff_loop (unat failed_attempt) base mx of
             None \<Rightarrow> mx
           | Some d \<Rightarrow> min d mx))"

lemma backoff_loop_value:
  assumes "wf_duration d" and "wf_duration mx"
  shows "nanos_of (case backoff_loop n d mx of None \<Rightarrow> mx | Some r \<Rightarrow> min r mx) =
    min (nanos_of d * 2 ^ n) (nanos_of mx)"
  using assms(1)
proof (induction n arbitrary: d)
  case 0
  then show ?case using assms(2) by (simp add: min_def duration_le_iff)
next
  case (Suc n)
  let ?d = "duration_saturating_mul d 2"
  have d2: "nanos_of ?d = min (nanos_of d * 2) (nanos_of duration_max)"
    by (simp add: nanos_of_saturating_mul)
  have mx: "nanos_of mx \<le> nanos_of duration_max" using assms(2) by (rule nanos_of_le_max)
  show ?case
  proof (cases "mx \<le> ?d")
    case True
    then have "nanos_of mx \<le> nanos_of d * 2"
      using d2 assms(2) by (simp add: duration_le_iff)
    also have "\<dots> \<le> nanos_of d * 2 ^ Suc n" by simp
    finally show ?thesis using True by (simp add: Let_def)
  next
    case False
    then have "nanos_of ?d < nanos_of mx" using assms(2) by (simp add: duration_le_iff not_le)
    with d2 mx have "nanos_of ?d = nanos_of d * 2" by linarith
    then show ?thesis using Suc.IH [of ?d] False by (simp add: Let_def mult.assoc)
  qed
qed

lemma wf_backoff_loop: "wf_duration d \<Longrightarrow> backoff_loop n d mx = Some r \<Longrightarrow> wf_duration r"
  by (induction n d mx rule: backoff_loop.induct) (auto simp: Let_def split: if_splits)

section \<open>Reading the event log\<close>

definition is_terminal :: "event \<Rightarrow> bool" where
  "is_terminal e =
     (case e of WorkflowCompleted w \<Rightarrow> True | WorkflowFailed w r \<Rightarrow> True
      | WorkflowCancelled w r \<Rightarrow> True | _ \<Rightarrow> False)"

definition is_cancelled :: "event \<Rightarrow> bool" where
  "is_cancelled e = (case e of WorkflowCancelled w r \<Rightarrow> True | _ \<Rightarrow> False)"

definition workflow_has_terminal_event :: "event list \<Rightarrow> bool" where
  "workflow_has_terminal_event events = list_ex is_terminal events"

definition workflow_is_cancelled :: "event list \<Rightarrow> bool" where
  "workflow_is_cancelled events = list_ex is_cancelled events"

text \<open>One turn of the loop of \<open>current_attempt_from_events\<close> for the step \<open>si\<close>.\<close>

fun attempt_after :: "usize \<Rightarrow> event \<Rightarrow> u32 \<Rightarrow> u32" where
  "attempt_after si (StepStarted w i a) attempt = (if i = si then a else attempt)"
| "attempt_after si (RetryScheduled w i a) attempt = (if i = si then a else attempt)"
| "attempt_after si e attempt = attempt"

definition current_attempt_from_events :: "event list \<Rightarrow> usize \<Rightarrow> u32" where
  "current_attempt_from_events events si = fold (attempt_after si) events 0"

text \<open>One turn of the loop of \<open>step_status_from_events\<close>: the status and attempt so far.\<close>

fun status_after :: "usize \<Rightarrow> event \<Rightarrow> step_status \<times> u32 \<Rightarrow> step_status \<times> u32" where
  "status_after si (StepStarted w i a) (st, attempt) =
     (if i = si then (StPending, a) else (st, attempt))"
| "status_after si (StepCompleted w i out) (st, attempt) =
     (if i = si then (StCompleted out, attempt) else (st, attempt))"
| "status_after si (StepFailed w i r) (st, attempt) =
     (if i = si then (StFailed r attempt, attempt) else (st, attempt))"
| "status_after si (StepWaiting w i r) (st, attempt) =
     (if i = si then (StWaiting r, attempt) else (st, attempt))"
| "status_after si (RetryScheduled w i a) (st, attempt) =
     (if i = si then (StPending, a) else (st, attempt))"
| "status_after si (StepResumed w i inp) (st, attempt) =
     (if i = si then (StPending, attempt) else (st, attempt))"
| "status_after si (WorkerRecovered w i) (st, attempt) =
     (if i = si then (StPending, attempt) else (st, attempt))"
| "status_after si e (st, attempt) = (st, attempt)"

definition step_status_from_events :: "event list \<Rightarrow> usize \<Rightarrow> step_status" where
  "step_status_from_events events si = fst (fold (status_after si) events (StPending, 0))"

fun resume_input_after :: "usize \<Rightarrow> event \<Rightarrow> string option \<Rightarrow> string option" where
  "resume_input_after si (StepResumed w i inp) prev = (if i = si then Some inp else prev)"
| "resume_input_after si e prev = prev"

definition last_resume_input :: "event list \<Rightarrow> usize \<Rightarrow> string option" where
  "last_resume_input events si = fold (resume_input_after si) events None"

lemma workflow_has_terminal_event_append [simp]:
  "workflow_has_terminal_event (xs @ ys) \<longleftrightarrow>
     workflow_has_terminal_event xs \<or> workflow_has_terminal_event ys"
  by (simp add: workflow_has_terminal_event_def)

lemma workflow_is_cancelled_append [simp]:
  "workflow_is_cancelled (xs @ ys) \<longleftrightarrow> workflow_is_cancelled xs \<or> workflow_is_cancelled ys"
  by (simp add: workflow_is_cancelled_def)

lemma cancelled_is_terminal: "workflow_is_cancelled es \<Longrightarrow> workflow_has_terminal_event es"
  by (induction es)
    (auto simp: workflow_is_cancelled_def workflow_has_terminal_event_def is_cancelled_def
      is_terminal_def split: event.splits)

lemma snd_status_after: "snd (status_after si e p) = attempt_after si e (snd p)"
  by (cases p; cases e) auto

lemma status_attempt: "snd (fold (status_after si) es p) = fold (attempt_after si) es (snd p)"
  by (induction es arbitrary: p) (simp_all add: snd_status_after)

lemma step_status_snoc:
  "step_status_from_events (es @ [e]) si =
     fst (status_after si e (step_status_from_events es si, current_attempt_from_events es si))"
proof -
  have "fold (status_after si) es (StPending, 0) =
      (step_status_from_events es si, current_attempt_from_events es si)"
    using status_attempt [of si es "(StPending, 0)"]
    by (simp add: step_status_from_events_def current_attempt_from_events_def prod_eq_iff)
  then show ?thesis by (simp add: step_status_from_events_def)
qed

lemma current_attempt_snoc:
  "current_attempt_from_events (es @ [e]) si = attempt_after si e (current_attempt_from_events es si)"
  by (simp add: current_attempt_from_events_def)

lemma last_resume_input_snoc:
  "last_resume_input (es @ [e]) si = resume_input_after si e (last_resume_input es si)"
  by (simp add: last_resume_input_def)

section \<open>The store trait\<close>

text \<open>
  The operations of \<open>DurableStore\<close> as a record over the store's state.  A call of
  \<open>SystemTime::now()\<close> inside an operation is its \<open>now\<close> argument.
\<close>

record 's durable_ops =
  append_event :: "event \<Rightarrow> system_time \<Rightarrow> 's \<Rightarrow> (unit, store_error) result \<times> 's"
  load_events :: "string \<Rightarrow> 's \<Rightarrow> (event list, store_error) result \<times> 's"
  claim_step :: "string \<Rightarrow> usize \<Rightarrow> string \<Rightarrow> duration \<Rightarrow> system_time \<Rightarrow> 's
                   \<Rightarrow> (claim_result, store_error) result \<times> 's"
  renew_lease :: "string \<Rightarrow> usize \<Rightarrow> string \<Rightarrow> duration \<Rightarrow> system_time \<Rightarrow> 's
                   \<Rightarrow> (unit, store_error) result \<times> 's"
  expired_leases :: "system_time \<Rightarrow> 's \<Rightarrow> (execution list, store_error) result \<times> 's"

end
