(* ===== verification/StoreContract.thy ===== *)
theory StoreContract
  imports WorkflowTypes
begin

text \<open>
  What the engine relies on of a \<open>DurableStore\<close>, as two contracts: an append-only event log per
  workflow whose appends are all or nothing, and on top of it leases on steps.  Every store of the
  crate is shown to meet them in its own theory; the engine's lemmas are proved from the contract.
\<close>

definition clock_ok :: "system_time \<Rightarrow> bool" where
  "clock_ok t \<longleftrightarrow> 0 \<le> t \<and> system_time_ok t"

definition own_event :: "string \<Rightarrow> event \<Rightarrow> event list" where
  "own_event w e = (if event_workflow_id e = w then [e] else [])"

lemma own_event_simps [simp]:
  "event_workflow_id e = w \<Longrightarrow> own_event w e = [e]"
  "event_workflow_id e \<noteq> w \<Longrightarrow> own_event w e = []"
  by (simp_all add: own_event_def)

lemma clock_ok_lease_expiry: "clock_ok now \<Longrightarrow> clock_ok (lease_expiry now ttl)"
  using lease_expiry_ok [of now ttl] lease_expiry_ge [of now ttl] by (simp add: clock_ok_def)

text \<open>
  A claim that is refused because the step is finished or waiting is backed by the log.
\<close>

fun claim_backed :: "string \<Rightarrow> usize \<Rightarrow> event list \<Rightarrow> claim_result \<Rightarrow> bool" where
  "claim_backed w i l (AlreadyCompleted out) = (\<exists>out'. StepCompleted w i out' \<in> set l)"
| "claim_backed w i l AlreadyWaiting = (\<exists>r. StepWaiting w i r \<in> set l)"
| "claim_backed w i l c = True"

text \<open>The result of an operation may be a value or an error of the store, never a panic.\<close>

fun returns :: "('a \<Rightarrow> bool) \<Rightarrow> bool \<Rightarrow> ('a, 'e) result \<Rightarrow> bool" where
  "returns ok err (Ok a) = ok a"
| "returns ok err (Err e) = err"
| "returns ok err Panic = False"

lemma returnsD:
  "returns ok err r \<Longrightarrow> r = Ok a \<Longrightarrow> ok a"
  "returns ok err r \<Longrightarrow> r = Err e \<Longrightarrow> err"
  "returns ok err r \<Longrightarrow> r \<noteq> Panic"
  by auto

lemma returns_mono:
  "returns ok err r \<Longrightarrow> (\<And>a. r = Ok a \<Longrightarrow> ok a \<Longrightarrow> ok' a) \<Longrightarrow>
     (\<And>e. r = Err e \<Longrightarrow> err \<Longrightarrow> err') \<Longrightarrow> returns ok' err' r"
  by (cases r) auto

section \<open>The event log\<close>

locale durable_store =
  fixes ops :: "'s durable_ops"
    and invar :: "'s \<Rightarrow> bool"
    and log :: "string \<Rightarrow> 's \<Rightarrow> event list"
  assumes append_law:
      "invar s \<Longrightarrow> append_event ops e now s = (r, s') \<Longrightarrow>
         invar s' \<and>
         returns (\<lambda>_. \<forall>w. log w s' = log w s @ own_event w e) (\<forall>w. log w s' = log w s) r"
    and load_law:
      "invar s \<Longrightarrow> load_events ops w s = (rl, s') \<Longrightarrow>
         invar s' \<and> (\<forall>w'. log w' s' = log w' s) \<and> returns (\<lambda>es. es = log w s) True rl"
    and claim_law:
      "invar s \<Longrightarrow> clock_ok now \<Longrightarrow> claim_step ops w i v ttl now s = (rc, s') \<Longrightarrow>
         invar s' \<and> (\<forall>w'. log w' s' = log w' s) \<and> returns (claim_backed w i (log w s)) True rc"
    and renew_law:
      "invar s \<Longrightarrow> clock_ok now \<Longrightarrow> renew_lease ops w i v ttl now s = (ru, s') \<Longrightarrow>
         invar s' \<and> (\<forall>w'. log w' s' = log w' s) \<and> ru \<noteq> Panic"
    and expired_law:
      "invar s \<Longrightarrow> clock_ok now \<Longrightarrow> expired_leases ops now s = (rx, s') \<Longrightarrow>
         invar s' \<and> (\<forall>w'. log w' s' = log w' s) \<and> rx \<noteq> Panic"
begin

text \<open>A successful append is read back as the last event of its workflow.\<close>

lemma append_then_load:
  assumes "invar s" and "append_event ops e now s = (Ok u, s1)"
    and "load_events ops (event_workflow_id e) s1 = (Ok es, s2)"
  shows "es = log (event_workflow_id e) s @ [e]"
  using append_law [OF assms(1,2)] load_law [of s1, OF _ assms(3)] by simp

text \<open>A failed append leaves no trace, not even in what is read next.\<close>

lemma failed_append_then_load:
  assumes "invar s" and "append_event ops e now s = (Err x, s1)"
    and "load_events ops w s1 = (Ok es, s2)"
  shows "es = log w s"
  using append_law [OF assms(1,2)] load_law [of s1, OF _ assms(3)] by simp

end

section \<open>Leases\<close>

text \<open>What a store knows of a step, as far as claiming it is concerned.\<close>

datatype lease_view = Unclaimed | Held string system_time | Done | Suspended

fun expected_claim :: "string \<Rightarrow> system_time \<Rightarrow> lease_view \<Rightarrow> claim_result \<Rightarrow> bool" where
  "expected_claim v now Unclaimed r = (r = Claimed)"
| "expected_claim v now (Held h t) r =
     (r = (if h \<noteq> v \<and> now < t then HeldByOther else Claimed))"
| "expected_claim v now Done r = (\<exists>out. r = AlreadyCompleted out)"
| "expected_claim v now Suspended r = (r = AlreadyWaiting)"

locale lease_store = durable_store +
  fixes lease :: "string \<Rightarrow> usize \<Rightarrow> 'a \<Rightarrow> lease_view"
  assumes claim_lease:
      "invar s \<Longrightarrow> clock_ok now \<Longrightarrow> claim_step ops w i v ttl now s = (Ok c, s') \<Longrightarrow>
         expected_claim v now (lease w i s) c \<and>
         (\<forall>w' i'. lease w' i' s' =
            (if c = Claimed \<and> w' = w \<and> i' = i then Held v (lease_expiry now ttl) else lease w' i' s))"
    and started_lease:
      "invar s \<Longrightarrow> append_event ops (StepStarted w i a) now s = (r, s') \<Longrightarrow>
         lease w' i' s' = lease w' i' s"
    and completed_lease:
      "invar s \<Longrightarrow> append_event ops (StepCompleted w i out) now s = (Ok u, s') \<Longrightarrow>
         lease w' i' s' = (if w' = w \<and> i' = i then Done else lease w' i' s)"
    and recovered_lease:
      "invar s \<Longrightarrow> append_event ops (WorkerRecovered w i) now s = (Ok u, s') \<Longrightarrow>
         lease w' i' s' = (if w' = w \<and> i' = i then Unclaimed else lease w' i' s)"
    and expired_lease:
      "invar s \<Longrightarrow> clock_ok now \<Longrightarrow> expired_leases ops now s = (Ok xs, s') \<Longrightarrow>
         (\<exists>x \<in> set xs. exec_workflow_id x = w \<and> exec_step_index x = i) \<longleftrightarrow>
         (\<exists>h t. lease w i s = Held h t \<and> t \<le> now)"
begin

text \<open>While a lease is not over, no other worker gets the step.\<close>

lemma claim_exclusive:
  assumes "invar s" and "clock_ok now" and "claim_step ops w i v ttl now s = (Ok Claimed, s1)"
    and "clock_ok now'" and "now' < lease_expiry now ttl" and "v' \<noteq> v"
    and "claim_step ops w i v' ttl' now' s1 = (Ok c, s2)"
  shows "c = HeldByOther"
proof -
  have "invar s1" using claim_law [OF assms(1-3)] by simp
  moreover have "lease w i s1 = Held v (lease_expiry now ttl)" using claim_lease [OF assms(1-3)] by simp
  ultimately show ?thesis using claim_lease [of s1 now', OF _ assms(4,7)] assms(5,6) by simp
qed

text \<open>Starting the step does not give the lease away.\<close>

lemma claim_exclusive_started:
  assumes "invar s" and "clock_ok now" and "claim_step ops w i v ttl now s = (Ok Claimed, s1)"
    and "append_event ops (StepStarted w i a) now1 s1 = (r, s2)"
    and "clock_ok now'" and "now' < lease_expiry now ttl" and "v' \<noteq> v"
    and "claim_step ops w i v' ttl' now' s2 = (Ok c, s3)"
  shows "c = HeldByOther"
proof -
  have s1: "invar s1" using claim_law [OF assms(1-3)] by simp
  then have s2: "invar s2" using append_law [OF _ assms(4)] by simp
  have "lease w i s2 = Held v (lease_expiry now ttl)"
    using claim_lease [OF assms(1-3)] started_lease [OF s1 assms(4)] by simp
  then show ?thesis using claim_lease [OF s2 assms(5,8)] assms(6,7) by simp
qed

text \<open>A completed step is never claimed again.\<close>

lemma completed_not_claimed:
  assumes "invar s" and "append_event ops (StepCompleted w i out) now s = (Ok u, s1)"
    and "clock_ok now'" and "claim_step ops w i v ttl now' s1 = (Ok c, s2)"
  shows "\<exists>out'. c = AlreadyCompleted out'"
proof -
  have "invar s1" using append_law [OF assms(1,2)] by simp
  then show ?thesis using claim_lease [of s1 now', OF _ assms(3,4)] completed_lease [OF assms(1,2)] by simp
qed

text \<open>A lease that ran out is listed for recovery, and recovering it makes the step claimable.\<close>

lemma expired_is_recoverable:
  assumes "invar s" and "clock_ok now" and "claim_step ops w i v ttl now s = (Ok Claimed, s1)"
    and "clock_ok now'" and "lease_expiry now ttl \<le> now'"
    and "expired_leases ops now' s1 = (Ok xs, s2)"
  shows "\<exists>x \<in> set xs. exec_workflow_id x = w \<and> exec_step_index x = i"
proof -
  have "invar s1" using claim_law [OF assms(1-3)] by simp
  moreover have "lease w i s1 = Held v (lease_expiry now ttl)" using claim_lease [OF assms(1-3)] by simp
  ultimately show ?thesis using expired_lease [of s1 now', OF _ assms(4,6)] assms(5) by blast
qed

lemma recovered_is_claimable:
  assumes "invar s" and "append_event ops (WorkerRecovered w i) now s = (Ok u, s1)"
    and "clock_ok now'" and "claim_step ops w i v ttl now' s1 = (Ok c, s2)"
  shows "c = Claimed"
proof -
  have "invar s1" using append_law [OF assms(1,2)] by simp
  then show ?thesis using claim_lease [of s1 now', OF _ assms(3,4)] recovered_lease [OF assms(1,2)] by simp
qed

end

end
