(* ===== verification/EngineModel.thy ===== *)
theory EngineModel
  imports QueueModel StoreContract
begin

text \<open>
  The workflow engine: \<open>src/engine.rs\<close> and \<open>src/recovery.rs\<close>, over any store and the queue of
  \<open>QueueModel\<close>.

  A call of the engine runs against a schedule: a list of chunks, each the things other tasks do
  between two atomic actions of the call.  An atomic action is one operation of the store, one
  access of \<open>in_flight\<close>, taking the terminal lock, or one poll of a future.  Before each of them the
  next chunk of the schedule happens; a schedule that has ended means that nothing else happens, and
  a future that is not ready then leaves the call \<open>Blocked\<close>.  Every interleaving of the call with
  the rest of the system at the level of atomic actions is a schedule.
\<close>

section \<open>The engine and its world\<close>

record running_workflow =
  running_steps :: "step_def list"
  running_bodies :: "func list"

text \<open>
  The renewal task of the job being awaited: its period, the time of its next tick, and the
  messages it has sent that were not received yet.
\<close>

record renewal =
  ren_period :: nat
  ren_next :: nat
  ren_pending :: nat

record 's world =
  store :: 's
  wqueue :: queue
  in_flight :: "string \<rightharpoonup> running_workflow"
  terminal_locked :: bool
  wall :: system_time
  clock :: nat
  renewal_task :: "renewal option"

record 's engine =
  eng_ops :: "'s durable_ops"
  eng_worker_id :: string
  eng_lease_ttl :: duration
  eng_priority :: priority

datatype step_outcome = OutcomeCompleted | OutcomeWaiting

definition engine_new :: "queue \<Rightarrow> 's \<Rightarrow> system_time \<Rightarrow> 's world" where
  "engine_new q s now =
     \<lparr>store = s, wqueue = q, in_flight = Map.empty, terminal_locked = False, wall = now, clock = 0,
      renewal_task = None\<rparr>"

section \<open>What happens elsewhere\<close>

text \<open>
  The events that are only recorded under the terminal lock, by \<open>cancel\<close> and at the end of
  \<open>drive_from\<close>.
\<close>

definition locked_event :: "event \<Rightarrow> bool" where
  "locked_event e =
     (case e of WorkflowCompleted w \<Rightarrow> True | WorkflowCancelled w r \<Rightarrow> True | _ \<Rightarrow> False)"

datatype env_action =
    EQueue qlabel
  | EAppend event
  | ETerminal event
  | EClaim string usize string duration
  | ERenew string usize string duration
  | EExpired
  | EMount string running_workflow
  | EUnmount string
  | EWall system_time
  | ETick nat
  | ERenewTick

text \<open>
  Other calls of the same engine append the events that need no lock one by one; a critical section
  of the terminal lock (\<open>cancel\<close>, completing a workflow) happens as a whole, and not while this
  call holds the lock.  Time passes: the wall clock is set to any representable time, the clock of
  the timers advances, and the renewal task sends a message when its tick is due.
\<close>

definition terminal_section :: "'s engine \<Rightarrow> event \<Rightarrow> 's world \<Rightarrow> 's world" where
  "terminal_section E e w =
     (case load_events (eng_ops E) (event_workflow_id e) (store w) of
        (Ok events, s1) \<Rightarrow>
          (if workflow_has_terminal_event events then w\<lparr>store := s1\<rparr>
           else w\<lparr>store := snd (append_event (eng_ops E) e (wall w) s1)\<rparr>)
      | (_, s1) \<Rightarrow> w\<lparr>store := s1\<rparr>)"

definition renewal_tick :: "nat \<Rightarrow> renewal \<Rightarrow> renewal" where
  "renewal_tick now r =
     (if ren_next r \<le> now then
        r\<lparr>ren_next := ren_next r + ((now - ren_next r) div ren_period r + 1) * ren_period r,
          ren_pending := Suc (ren_pending r)\<rparr>
      else r)"

fun env_act :: "'s engine \<Rightarrow> env_action \<Rightarrow> 's world \<Rightarrow> 's world" where
  "env_act E (EQueue l) w = w\<lparr>wqueue := qstep l (wqueue w)\<rparr>"
| "env_act E (EAppend e) w =
     (if locked_event e then w
      else w\<lparr>store := snd (append_event (eng_ops E) e (wall w) (store w))\<rparr>)"
| "env_act E (ETerminal e) w =
     (if locked_event e \<and> \<not> terminal_locked w then terminal_section E e w else w)"
| "env_act E (EClaim wid i v ttl) w =
     w\<lparr>store := snd (claim_step (eng_ops E) wid i v ttl (wall w) (store w))\<rparr>"
| "env_act E (ERenew wid i v ttl) w =
     w\<lparr>store := snd (renew_lease (eng_ops E) wid i v ttl (wall w) (store w))\<rparr>"
| "env_act E EExpired w = w\<lparr>store := snd (expired_leases (eng_ops E) (wall w) (store w))\<rparr>"
| "env_act E (EMount wid r) w =
     (if length (running_bodies r) = length (running_steps r)
      then w\<lparr>in_flight := (in_flight w)(wid \<mapsto> r)\<rparr> else w)"
| "env_act E (EUnmount wid) w = w\<lparr>in_flight := (in_flight w)(wid := None)\<rparr>"
| "env_act E (EWall t) w = (if clock_ok t then w\<lparr>wall := t\<rparr> else w)"
| "env_act E (ETick n) w = w\<lparr>clock := clock w + n\<rparr>"
| "env_act E ERenewTick w =
     w\<lparr>renewal_task := map_option (renewal_tick (clock w)) (renewal_task w)\<rparr>"

definition env_run :: "'s engine \<Rightarrow> env_action list \<Rightarrow> 's world \<Rightarrow> 's world" where
  "env_run E acts w = fold (env_act E) acts w"

section \<open>Programs\<close>

type_synonym sched = "env_action list list"

type_synonym ('a, 's) prog =
  "sched \<Rightarrow> 's world \<Rightarrow> ('a, engine_error) result async \<times> sched \<times> 's world"

definition eret :: "'a \<Rightarrow> ('a, 's) prog" where
  "eret a sc w = (Ready (Ok a), sc, w)"

definition eerr :: "engine_error \<Rightarrow> ('a, 's) prog" where
  "eerr e sc w = (Ready (Err e), sc, w)"

definition epanic :: "('a, 's) prog" where
  "epanic sc w = (Ready Panic, sc, w)"

text \<open>\<open>m?\<close> and \<open>m.await?\<close>, then the rest of the function.\<close>

definition ebind :: "('a, 's) prog \<Rightarrow> ('a \<Rightarrow> ('b, 's) prog) \<Rightarrow> ('b, 's) prog" where
  "ebind m f sc w =
     (case m sc w of
        (Ready (Ok a), sc', w') \<Rightarrow> f a sc' w'
      | (Ready (Err e), sc', w') \<Rightarrow> (Ready (Err e), sc', w')
      | (Ready Panic, sc', w') \<Rightarrow> (Ready Panic, sc', w')
      | (Blocked, sc', w') \<Rightarrow> (Blocked, sc', w'))"

definition eyield :: "'s engine \<Rightarrow> (unit, 's) prog" where
  "eyield E sc w =
     (case sc of
        [] \<Rightarrow> (Ready (Ok ()), [], w)
      | c # cs \<Rightarrow> (Ready (Ok ()), cs, env_run E c w))"

definition eatom :: "'s engine \<Rightarrow> ('s world \<Rightarrow> ('a, engine_error) result \<times> 's world) \<Rightarrow> ('a, 's) prog" where
  "eatom E f = ebind (eyield E) (\<lambda>_ sc w. case f w of (r, w') \<Rightarrow> (Ready r, sc, w'))"

definition store_call ::
    "'s engine \<Rightarrow> (system_time \<Rightarrow> 's \<Rightarrow> ('a, store_error) result \<times> 's) \<Rightarrow> ('a, 's) prog" where
  "store_call E f =
     eatom E (\<lambda>w. case f (wall w) (store w) of
                    (r, s) \<Rightarrow> (map_err engine_error_from_store r, w\<lparr>store := s\<rparr>))"

definition store_append :: "'s engine \<Rightarrow> event \<Rightarrow> (unit, 's) prog" where
  "store_append E e = store_call E (append_event (eng_ops E) e)"

definition store_load :: "'s engine \<Rightarrow> string \<Rightarrow> (event list, 's) prog" where
  "store_load E wid = store_call E (\<lambda>_. load_events (eng_ops E) wid)"

definition store_claim :: "'s engine \<Rightarrow> string \<Rightarrow> usize \<Rightarrow> (claim_result, 's) prog" where
  "store_claim E wid i =
     store_call E (claim_step (eng_ops E) wid i (eng_worker_id E) (eng_lease_ttl E))"

text \<open>A block that holds \<open>terminal_write\<close>; the guard is dropped on every way out.\<close>

definition with_terminal_lock :: "'s engine \<Rightarrow> ('a, 's) prog \<Rightarrow> ('a, 's) prog" where
  "with_terminal_lock E m =
     ebind (eatom E (\<lambda>w. (Ok (), w\<lparr>terminal_locked := True\<rparr>))) (\<lambda>_ sc w.
       case m sc w of (r, sc', w') \<Rightarrow> (r, sc', w'\<lparr>terminal_locked := False\<rparr>))"

section \<open>Mounting workflows\<close>

definition register_workflow :: "'s engine \<Rightarrow> workflow \<Rightarrow> func list \<Rightarrow> (unit, 's) prog" where
  "register_workflow E wflow bodies =
     (if length bodies \<noteq> length (workflow_steps wflow) then
        eerr (EngineStore (Backend ''step body count does not match workflow definition''))
      else
        eatom E (\<lambda>w. (Ok (), w\<lparr>in_flight := (in_flight w)(workflow_id wflow \<mapsto>
          \<lparr>running_steps = workflow_steps wflow, running_bodies = bodies\<rparr>)\<rparr>)))"

definition mounted_steps_and_bodies ::
    "'s engine \<Rightarrow> string \<Rightarrow> (step_def list \<times> func list, 's) prog" where
  "mounted_steps_and_bodies E wid =
     eatom E (\<lambda>w. (case in_flight w wid of
                     None \<Rightarrow> Err (EngineStore NotFound)
                   | Some r \<Rightarrow> Ok (running_steps r, running_bodies r), w))"

definition drop_from_in_flight :: "'s engine \<Rightarrow> string \<Rightarrow> (unit, 's) prog" where
  "drop_from_in_flight E wid = eatom E (\<lambda>w. (Ok (), w\<lparr>in_flight := (in_flight w)(wid := None)\<rparr>))"

text \<open>\<open>Err(err) => { self.drop_from_in_flight(workflow_id); return Err(err); }\<close>\<close>

definition or_drop :: "'s engine \<Rightarrow> string \<Rightarrow> ('a, 's) prog \<Rightarrow> ('a, 's) prog" where
  "or_drop E wid m sc w =
     (case m sc w of
        (Ready (Err e), sc', w') \<Rightarrow> ebind (drop_from_in_flight E wid) (\<lambda>_. eerr e) sc' w'
      | x \<Rightarrow> x)"

section \<open>Awaiting a job\<close>

definition renewal_interval :: "duration \<Rightarrow> duration" where
  "renewal_interval ttl =
     (let every = duration_div ttl 3 in
      if duration_is_zero every then duration_from_millis 1 else every)"

text \<open>
  One turn of the \<open>select!\<close> loop of \<open>await_job_renewing_lease\<close>, polled in the order of its
  arms: the handle, the deadline, a renewal message.  A renewal that fails is only logged.
\<close>

definition job_poll ::
    "'s engine \<Rightarrow> string \<Rightarrow> usize \<Rightarrow> nat \<Rightarrow> (nat \<times> duration) option \<Rightarrow> 's world
     \<Rightarrow> (outcome, engine_error) result async \<times> 's world" where
  "job_poll E wid i rx deadline w =
     (case poll_handle rx (wqueue w) of
        Ready (Ok oc) \<Rightarrow> (Ready (Ok oc), w\<lparr>renewal_task := None\<rparr>)
      | Ready (Err lost) \<Rightarrow> (Ready (Err (EngineJobLost lost)), w\<lparr>renewal_task := None\<rparr>)
      | Ready Panic \<Rightarrow> (Ready Panic, w)
      | Blocked \<Rightarrow>
          (if (case deadline of Some (at, _) \<Rightarrow> at \<le> clock w | None \<Rightarrow> False) then
             (Ready (Ok (OFailed (timeout_reason (snd (the deadline))))), w\<lparr>renewal_task := None\<rparr>)
           else
             (case renewal_task w of
                None \<Rightarrow> (Blocked, w)
              | Some r \<Rightarrow>
                  (if ren_pending r = 0 then (Blocked, w)
                   else
                     (let w1 = w\<lparr>renewal_task := Some (r\<lparr>ren_pending := ren_pending r - 1\<rparr>)\<rparr> in
                      (case renew_lease (eng_ops E) wid i (eng_worker_id E) (eng_lease_ttl E)
                              (wall w1) (store w1) of
                         (Panic, s) \<Rightarrow> (Ready Panic, w1\<lparr>store := s\<rparr>)
                       | (_, s) \<Rightarrow> (Blocked, w1\<lparr>store := s\<rparr>)))))))"

fun job_loop ::
    "'s engine \<Rightarrow> string \<Rightarrow> usize \<Rightarrow> nat \<Rightarrow> (nat \<times> duration) option \<Rightarrow> (outcome, 's) prog" where
  "job_loop E wid i rx deadline [] w =
     (case job_poll E wid i rx deadline w of (r, w') \<Rightarrow> (r, [], w'))"
| "job_loop E wid i rx deadline (c # cs) w =
     (case job_poll E wid i rx deadline w of
        (Ready r, w') \<Rightarrow> (Ready r, c # cs, w')
      | (Blocked, w') \<Rightarrow> job_loop E wid i rx deadline cs (env_run E c w'))"

definition await_job_renewing_lease ::
    "'s engine \<Rightarrow> string \<Rightarrow> usize \<Rightarrow> nat \<Rightarrow> duration option \<Rightarrow> (outcome, 's) prog" where
  "await_job_renewing_lease E wid i rx timeout sc w =
     (let period = nanos_of (renewal_interval (eng_lease_ttl E));
          deadline = map_option (\<lambda>t. (clock w + nanos_of t, t)) timeout in
      job_loop E wid i rx deadline sc
        (w\<lparr>renewal_task := Some \<lparr>ren_period = period, ren_next = clock w, ren_pending = 0\<rparr>\<rparr>))"

section \<open>Running a step\<close>

definition job_key_of :: "string \<Rightarrow> usize \<Rightarrow> u32 \<Rightarrow> key" where
  "job_key_of wid i attempt = wid @ '':'' @ show_usize i @ '':'' @ show_u32 attempt"

lemma last_separator:
  assumes "c \<notin> set y" and "c \<notin> set y'" and "p @ c # y = p' @ c # y'"
  shows "p = p' \<and> y = y'"
  using assms by (auto simp: append_eq_append_conv2 append_eq_Cons_conv Cons_eq_append_conv)

lemma job_key_of_inject:
  "job_key_of wid i a = job_key_of wid' i' a' \<longleftrightarrow> wid = wid' \<and> i = i' \<and> a = a'"
proof
  assume "job_key_of wid i a = job_key_of wid' i' a'"
  then have eq: "(wid @ '':'' @ show_usize i) @ CHR '':'' # show_u32 a =
      (wid' @ '':'' @ show_usize i') @ CHR '':'' # show_u32 a'"
    by (simp add: job_key_of_def)
  from last_separator [OF _ _ this] have a: "a = a'"
    and "wid @ CHR '':'' # show_usize i = wid' @ CHR '':'' # show_usize i'" by simp_all
  from last_separator [OF _ _ this(2)] a show "wid = wid' \<and> i = i' \<and> a = a'" by simp
qed simp

definition epush :: "'s engine \<Rightarrow> job \<Rightarrow> (accepted, 's) prog" where
  "epush E j =
     ebind (eyield E) (\<lambda>_ sc w.
       case push wqueue (\<lambda>q w. w\<lparr>wqueue := q\<rparr>) (env_run E) j sc w of
         (Blocked, sc', w') \<Rightarrow> (Blocked, sc', w')
       | (Ready r, sc', w') \<Rightarrow> (Ready (map_err EnginePush r), sc', w'))"

text \<open>
  How one turn of the loop of \<open>run_step\<close> ends when it does not return an error: with the return
  of the function, or with a failure that was recorded and may be retried.
\<close>

datatype attempt_end = AttemptReturn step_outcome | AttemptFailed string

definition record_outcome ::
    "'s engine \<Rightarrow> string \<Rightarrow> usize \<Rightarrow> outcome \<Rightarrow> (attempt_end, 's) prog" where
  "record_outcome E wid i oc =
     (case oc of
        OCompleted output \<Rightarrow>
          ebind (store_append E (StepCompleted wid i output)) (\<lambda>_. eret (AttemptReturn OutcomeCompleted))
      | OFailed reason \<Rightarrow>
          (case parse_waiting_reason reason of
             Some wait_reason \<Rightarrow>
               ebind (store_append E (StepWaiting wid i wait_reason)) (\<lambda>_.
                 eret (AttemptReturn OutcomeWaiting))
           | None \<Rightarrow>
               (case parse_non_retryable_reason reason of
                  Some stripped \<Rightarrow>
                    ebind (store_append E (StepFailed wid i stripped)) (\<lambda>_.
                    ebind (store_append E (WorkflowFailed wid stripped)) (\<lambda>_.
                      eerr (EngineWorkflowFailed stripped)))
                | None \<Rightarrow>
                    ebind (store_append E (StepFailed wid i reason)) (\<lambda>_. eret (AttemptFailed reason)))))"

definition run_attempt ::
    "'s engine \<Rightarrow> string \<Rightarrow> usize \<Rightarrow> step_def \<Rightarrow> func \<Rightarrow> u32 \<Rightarrow> (attempt_end, 's) prog" where
  "run_attempt E wid i step body attempt =
     ebind (store_claim E wid i) (\<lambda>c.
       case c of
         AlreadyCompleted out \<Rightarrow> eret (AttemptReturn OutcomeCompleted)
       | HeldByOther \<Rightarrow> eerr (EngineStore (Backend ''step is held by another worker''))
       | AlreadyWaiting \<Rightarrow> eret (AttemptReturn OutcomeWaiting)
       | Claimed \<Rightarrow>
           ebind (store_append E (StepStarted wid i attempt)) (\<lambda>_.
           ebind (epush E (new_job (job_key_of wid i attempt) (eng_priority E) body)) (\<lambda>accepted.
             case accepted of
               Cached output \<Rightarrow>
                 ebind (store_append E (StepCompleted wid i output)) (\<lambda>_.
                   eret (AttemptReturn OutcomeCompleted))
             | Queued rx \<Rightarrow>
                 ebind (await_job_renewing_lease E wid i rx (step_timeout step))
                   (record_outcome E wid i)
             | InFlight rx \<Rightarrow>
                 ebind (await_job_renewing_lease E wid i rx (step_timeout step))
                   (record_outcome E wid i))))"

fun sleep_until :: "'s engine \<Rightarrow> nat \<Rightarrow> (unit, 's) prog" where
  "sleep_until E at [] w = (if at \<le> clock w then (Ready (Ok ()), [], w) else (Blocked, [], w))"
| "sleep_until E at (c # cs) w =
     (if at \<le> clock w then (Ready (Ok ()), c # cs, w) else sleep_until E at cs (env_run E c w))"

definition sleep :: "'s engine \<Rightarrow> duration \<Rightarrow> (unit, 's) prog" where
  "sleep E d sc w = sleep_until E (clock w + nanos_of d) sc w"

text \<open>The part between a recorded failure and the next attempt; the value is whether to stop.\<close>

definition retry_pause ::
    "'s engine \<Rightarrow> string \<Rightarrow> usize \<Rightarrow> step_def \<Rightarrow> u32 \<Rightarrow> u32 \<Rightarrow> (bool, 's) prog" where
  "retry_pause E wid i step attempt next_attempt =
     ebind (store_append E (RetryScheduled wid i next_attempt)) (\<lambda>_.
     ebind (sleep E (backoff_duration (step_retry_policy step) attempt)) (\<lambda>_.
     ebind (store_load E wid) (\<lambda>events. eret (workflow_is_cancelled events))))"

function run_step ::
    "'s engine \<Rightarrow> string \<Rightarrow> usize \<Rightarrow> step_def \<Rightarrow> func \<Rightarrow> u32 \<Rightarrow> (step_outcome, 's) prog" where
  "run_step E wid i step body attempt =
     ebind (run_attempt E wid i step body attempt) (\<lambda>r.
       case r of
         AttemptReturn outcome \<Rightarrow> eret outcome
       | AttemptFailed reason \<Rightarrow>
           (if attempt + 1 < max_attempts (step_retry_policy step) then
              ebind (retry_pause E wid i step attempt (attempt + 1)) (\<lambda>cancelled.
                if cancelled then eret OutcomeWaiting
                else run_step E wid i step body (attempt + 1))
            else
              ebind (store_append E (WorkflowFailed wid reason)) (\<lambda>_. eerr (EngineWorkflowFailed reason))))"
  by pat_completeness auto

text \<open>
  The attempt is a \<open>u32\<close> that wraps; from the largest value the next attempt is 0, and from there
  it only grows towards \<open>max_attempts\<close>.
\<close>

definition attempts_left :: "u32 \<Rightarrow> u32 \<Rightarrow> nat" where
  "attempts_left mx attempt =
     (if attempt = - 1 then Suc (unat mx) else unat mx - unat attempt)"

lemma attempts_left_decreases:
  "attempt + 1 < mx \<Longrightarrow> attempts_left mx (attempt + 1) < attempts_left mx attempt"
proof (cases "attempt = - 1")
  case True
  then show ?thesis by (simp add: attempts_left_def)
next
  case False
  assume lt: "attempt + 1 < mx"
  have "unat (attempt + 1) = Suc (unat attempt)"
    using False by (metis Suc_eq_plus1 add.commute add_eq_0_iff unatSuc)
  moreover have "unat (attempt + 1) < unat mx" using lt by (simp add: word_less_nat_alt)
  moreover have "attempt + 1 \<noteq> - 1" using lt word_n1_ge [of mx] by (metis leD)
  ultimately show ?thesis using False unfolding attempts_left_def by presburger
qed

termination run_step
  by (relation "measure (\<lambda>(E, wid, i, step, body, attempt).
        attempts_left (max_attempts (step_retry_policy step)) attempt)")
    (auto intro: attempts_left_decreases)

declare run_step.simps [simp del]

section \<open>Driving a workflow\<close>

definition complete_workflow :: "'s engine \<Rightarrow> string \<Rightarrow> (unit, 's) prog" where
  "complete_workflow E wid =
     ebind (with_terminal_lock E
              (ebind (store_load E wid) (\<lambda>events.
                 if workflow_has_terminal_event events then eret ()
                 else store_append E (WorkflowCompleted wid)))) (\<lambda>_.
       drop_from_in_flight E wid)"

text \<open>The loop of \<open>drive_from\<close> over the step indices that are left, and what follows it.\<close>

fun drive_steps ::
    "'s engine \<Rightarrow> string \<Rightarrow> step_def list \<Rightarrow> func list \<Rightarrow> nat list \<Rightarrow> (unit, 's) prog" where
  "drive_steps E wid steps bodies [] = complete_workflow E wid"
| "drive_steps E wid steps bodies (k # ks) =
     ebind (store_load E wid) (\<lambda>events.
       if workflow_is_cancelled events then eret ()
       else if length bodies \<le> k then epanic
       else
         ebind (or_drop E wid (run_step E wid (of_nat k) (steps ! k) (bodies ! k) 0)) (\<lambda>outcome.
           case outcome of
             OutcomeCompleted \<Rightarrow> drive_steps E wid steps bodies ks
           | OutcomeWaiting \<Rightarrow> eret ()))"

definition drive_from ::
    "'s engine \<Rightarrow> string \<Rightarrow> step_def list \<Rightarrow> func list \<Rightarrow> nat \<Rightarrow> (unit, 's) prog" where
  "drive_from E wid steps bodies start_index =
     drive_steps E wid steps bodies [start_index..<length steps]"

definition run :: "'s engine \<Rightarrow> workflow \<Rightarrow> func list \<Rightarrow> (unit, 's) prog" where
  "run E wflow bodies =
     ebind (register_workflow E wflow bodies) (\<lambda>_.
     ebind (store_append E (WorkflowStarted (workflow_id wflow))) (\<lambda>_.
     ebind (mounted_steps_and_bodies E (workflow_id wflow)) (\<lambda>(steps, shared_bodies).
       drive_from E (workflow_id wflow) steps shared_bodies 0)))"

definition cancel :: "'s engine \<Rightarrow> string \<Rightarrow> string \<Rightarrow> (unit, 's) prog" where
  "cancel E wid reason =
     with_terminal_lock E
       (ebind (store_load E wid) (\<lambda>events.
          if workflow_has_terminal_event events then eret ()
          else
            ebind (store_append E (WorkflowCancelled wid reason)) (\<lambda>_. drop_from_in_flight E wid)))"

text \<open>
  The tail that \<open>resume\<close> and \<open>readmit_after_worker_recovery\<close> have in common: run one step and
  go on with the ones after it.
\<close>

definition run_and_continue ::
    "'s engine \<Rightarrow> string \<Rightarrow> usize \<Rightarrow> step_def \<Rightarrow> func \<Rightarrow> u32 \<Rightarrow> (unit, 's) prog" where
  "run_and_continue E wid i step body attempt =
     ebind (or_drop E wid (run_step E wid i step body attempt)) (\<lambda>outcome.
       case outcome of
         OutcomeWaiting \<Rightarrow> eret ()
       | OutcomeCompleted \<Rightarrow>
           ebind (mounted_steps_and_bodies E wid) (\<lambda>(steps, bodies).
             drive_from E wid steps bodies (Suc (unat i))))"

definition resume :: "'s engine \<Rightarrow> string \<Rightarrow> usize \<Rightarrow> string \<Rightarrow> (unit, 's) prog" where
  "resume E wid i inp =
     ebind (store_load E wid) (\<lambda>events.
       if workflow_is_cancelled events then
         eerr (EngineStore (Backend ''workflow is cancelled''))
       else
         (case step_status_from_events events i of
            StWaiting r \<Rightarrow>
              ebind (mounted_steps_and_bodies E wid) (\<lambda>(steps, bodies).
                if length steps \<le> unat i then eerr (EngineStore NotFound)
                else if length bodies \<le> unat i then epanic
                else
                  ebind (store_append E (StepResumed wid i inp)) (\<lambda>_.
                    run_and_continue E wid i (steps ! unat i) (bodies ! unat i)
                      (current_attempt_from_events events i)))
          | _ \<Rightarrow> eerr (EngineStore (Backend ''step is not waiting''))))"

definition resume_input :: "'s engine \<Rightarrow> string \<Rightarrow> usize \<Rightarrow> (string option, 's) prog" where
  "resume_input E wid i sc w =
     (case store_load E wid sc w of
        (Ready (Ok events), sc', w') \<Rightarrow> (Ready (Ok (last_resume_input events i)), sc', w')
      | (Ready (Err e), sc', w') \<Rightarrow> (Ready (Ok None), sc', w')
      | (Ready Panic, sc', w') \<Rightarrow> (Ready Panic, sc', w')
      | (Blocked, sc', w') \<Rightarrow> (Blocked, sc', w'))"

section \<open>Recovery\<close>

definition readmit_after_worker_recovery ::
    "'s engine \<Rightarrow> string \<Rightarrow> usize \<Rightarrow> u32 \<Rightarrow> (unit, 's) prog" where
  "readmit_after_worker_recovery E wid i attempt =
     ebind (store_append E (WorkerRecovered wid i)) (\<lambda>_.
     ebind (eatom E (\<lambda>w. (Ok (in_flight w wid), w))) (\<lambda>running.
       case running of
         None \<Rightarrow> eret ()
       | Some r \<Rightarrow>
           (if length (running_steps r) \<le> unat i then eret ()
            else if length (running_bodies r) \<le> unat i then epanic
            else
              run_and_continue E wid i (running_steps r ! unat i) (running_bodies r ! unat i) attempt)))"

fun recover_each :: "'s engine \<Rightarrow> execution list \<Rightarrow> usize \<Rightarrow> (usize, 's) prog" where
  "recover_each E [] recovered = eret recovered"
| "recover_each E (x # xs) recovered =
     ebind (readmit_after_worker_recovery E (exec_workflow_id x) (exec_step_index x) (exec_attempt x))
       (\<lambda>_. recover_each E xs (recovered + 1))"

definition recover :: "'s engine \<Rightarrow> (usize, 's) prog" where
  "recover E = ebind (store_call E (expired_leases (eng_ops E))) (\<lambda>expired. recover_each E expired 0)"

end
