(* ===== verification/EngineLogic.thy ===== *)
theory EngineLogic
  imports EngineModel
begin

text \<open>
  How the engine's programs are reasoned about: triples with a normal postcondition and one for the
  other ways a call can end, for every schedule whose actions satisfy a rely condition.  The rules
  for the operations that involve the store are proved from the store contract alone.
\<close>

section \<open>Triples\<close>

datatype halt = HErr engine_error | HPanic | HBlocked

fun ends :: "('a \<Rightarrow> bool) \<Rightarrow> (halt \<Rightarrow> bool) \<Rightarrow> ('a, engine_error) result async \<Rightarrow> bool" where
  "ends N X (Ready (Ok a)) = N a"
| "ends N X (Ready (Err e)) = X (HErr e)"
| "ends N X (Ready Panic) = X HPanic"
| "ends N X Blocked = X HBlocked"

fun ends_atom :: "('a \<Rightarrow> bool) \<Rightarrow> (halt \<Rightarrow> bool) \<Rightarrow> ('a, engine_error) result \<Rightarrow> bool" where
  "ends_atom N X (Ok a) = N a"
| "ends_atom N X (Err e) = X (HErr e)"
| "ends_atom N X Panic = X HPanic"

lemma call_cases [case_names Ok Err Panic Blocked]:
  obtains a where "r = Ready (Ok a)" | e where "r = Ready (Err e)" | "r = Ready Panic" | "r = Blocked"
  by (metis async.exhaust result.exhaust)

lemma ends_mono:
  "ends N X r \<Longrightarrow> (\<And>a. N a \<Longrightarrow> N' a) \<Longrightarrow> (\<And>h. X h \<Longrightarrow> X' h) \<Longrightarrow> ends N' X' r"
  by (cases r rule: call_cases) simp_all

definition sched_ok :: "(env_action \<Rightarrow> bool) \<Rightarrow> sched \<Rightarrow> bool" where
  "sched_ok ok sc = list_all (list_all ok) sc"

lemma sched_ok_simps [simp]:
  "sched_ok ok []" "sched_ok ok (c # cs) \<longleftrightarrow> list_all ok c \<and> sched_ok ok cs"
  by (simp_all add: sched_ok_def)

definition etriple ::
    "(env_action \<Rightarrow> bool) \<Rightarrow> ('s world \<Rightarrow> bool) \<Rightarrow> ('a, 's) prog \<Rightarrow> ('a \<Rightarrow> 's world \<Rightarrow> bool)
     \<Rightarrow> (halt \<Rightarrow> 's world \<Rightarrow> bool) \<Rightarrow> bool" where
  "etriple ok P m N X \<longleftrightarrow>
     (\<forall>sc w r sc' w'. sched_ok ok sc \<longrightarrow> P w \<longrightarrow> m sc w = (r, sc', w') \<longrightarrow>
        sched_ok ok sc' \<and> ends (\<lambda>a. N a w') (\<lambda>h. X h w') r)"

lemma etripleI:
  "(\<And>sc w r sc' w'. sched_ok ok sc \<Longrightarrow> P w \<Longrightarrow> m sc w = (r, sc', w') \<Longrightarrow>
      sched_ok ok sc' \<and> ends (\<lambda>a. N a w') (\<lambda>h. X h w') r) \<Longrightarrow> etriple ok P m N X"
  by (simp add: etriple_def)

lemma etripleD:
  "etriple ok P m N X \<Longrightarrow> sched_ok ok sc \<Longrightarrow> P w \<Longrightarrow> m sc w = (r, sc', w') \<Longrightarrow>
     sched_ok ok sc' \<and> ends (\<lambda>a. N a w') (\<lambda>h. X h w') r"
  by (simp add: etriple_def)

text \<open>The rely condition: what the other tasks do keeps an assertion.\<close>

definition estable :: "'s engine \<Rightarrow> (env_action \<Rightarrow> bool) \<Rightarrow> ('s world \<Rightarrow> bool) \<Rightarrow> bool" where
  "estable E ok P \<longleftrightarrow> (\<forall>a w. ok a \<longrightarrow> P w \<longrightarrow> P (env_act E a w))"

lemma estable_run: "estable E ok P \<Longrightarrow> list_all ok c \<Longrightarrow> P w \<Longrightarrow> P (env_run E c w)"
  unfolding env_run_def estable_def by (induction c arbitrary: w) auto

section \<open>Rules of the combinators\<close>

lemma et_weaken:
  assumes "etriple ok P m N X" and "\<And>w. P' w \<Longrightarrow> P w" and "\<And>a w. N a w \<Longrightarrow> N' a w"
    and "\<And>h w. X h w \<Longrightarrow> X' h w"
  shows "etriple ok P' m N' X'"
proof (rule etripleI)
  fix sc w r sc' w'
  assume "sched_ok ok sc" "P' w" "m sc w = (r, sc', w')"
  from etripleD [OF assms(1) this(1) assms(2) [OF this(2)] this(3)]
  show "sched_ok ok sc' \<and> ends (\<lambda>a. N' a w') (\<lambda>h. X' h w') r"
    by (auto elim!: ends_mono intro: assms(3,4))
qed

lemma et_pre: "etriple ok P m N X \<Longrightarrow> (\<And>w. P' w \<Longrightarrow> P w) \<Longrightarrow> etriple ok P' m N X"
  by (rule et_weaken)

lemma et_ret: "(\<And>w. P w \<Longrightarrow> N a w) \<Longrightarrow> etriple ok P (eret a) N X"
  by (rule etripleI) (auto simp: eret_def)

lemma et_err: "(\<And>w. P w \<Longrightarrow> X (HErr e) w) \<Longrightarrow> etriple ok P (eerr e) N X"
  by (rule etripleI) (auto simp: eerr_def)

lemma et_panic: "(\<And>w. P w \<Longrightarrow> X HPanic w) \<Longrightarrow> etriple ok P epanic N X"
  by (rule etripleI) (auto simp: epanic_def)

lemma et_bind:
  assumes m: "etriple ok P m R X" and f: "\<And>a. etriple ok (R a) (f a) N X"
  shows "etriple ok P (ebind m f) N X"
proof (rule etripleI)
  fix sc w r sc' w'
  assume sc: "sched_ok ok sc" and P: "P w" and run: "ebind m f sc w = (r, sc', w')"
  obtain r1 sc1 w1 where 1: "m sc w = (r1, sc1, w1)" by (metis prod.exhaust)
  note m1 = etripleD [OF m sc P 1]
  show "sched_ok ok sc' \<and> ends (\<lambda>a. N a w') (\<lambda>h. X h w') r"
  proof (cases r1)
    case Blocked
    with m1 run 1 show ?thesis by (auto simp: ebind_def)
  next
    case (Ready rr)
    with m1 run 1 show ?thesis by (cases rr) (auto simp: ebind_def dest: etripleD [OF f])
  qed
qed

lemma et_yield: "estable E ok P \<Longrightarrow> etriple ok P (eyield E) (\<lambda>_. P) X"
  by (rule etripleI) (auto simp: eyield_def estable_run split: list.splits)

lemma et_atom:
  assumes P: "estable E ok P"
    and f: "\<And>w r w'. P w \<Longrightarrow> f w = (r, w') \<Longrightarrow> ends_atom (\<lambda>a. N a w') (\<lambda>h. X h w') r"
  shows "etriple ok P (eatom E f) N X"
  unfolding eatom_def
proof (rule et_bind [OF et_yield [OF P]], rule etripleI)
  fix sc w r sc' w'
  assume "sched_ok ok sc" "P w" "(case f w of (r, w') \<Rightarrow> (Ready r, sc, w')) = (r, sc', w')"
  moreover from this obtain r1 where "f w = (r1, w')" "r = Ready r1" "sc' = sc"
    by (auto split: prod.splits)
  ultimately show "sched_ok ok sc' \<and> ends (\<lambda>a. N a w') (\<lambda>h. X h w') r"
    using f [of w r1 w'] by (cases r1) auto
qed

lemma et_lock:
  assumes P: "estable E ok P" and Q: "\<And>w. P w \<Longrightarrow> Q (w\<lparr>terminal_locked := True\<rparr>)"
    and m: "etriple ok Q m (\<lambda>a w. N a (w\<lparr>terminal_locked := False\<rparr>))
      (\<lambda>h w. X h (w\<lparr>terminal_locked := False\<rparr>))"
  shows "etriple ok P (with_terminal_lock E m) N X"
  unfolding with_terminal_lock_def
proof (rule et_bind [OF et_atom [OF P, where N = "\<lambda>_. Q"]])
  show "ends_atom (\<lambda>a. Q w') (\<lambda>h. X h w') r"
    if "P w" "(Ok (), w\<lparr>terminal_locked := True\<rparr>) = (r, w')" for w r w'
    using that Q by auto
next
  show "etriple ok Q (\<lambda>sc w. case m sc w of (r, sc', w') \<Rightarrow> (r, sc', w'\<lparr>terminal_locked := False\<rparr>)) N X"
  proof (rule etripleI)
    fix sc w r sc' w'
    assume sc: "sched_ok ok sc" and w: "Q w"
      and run: "(case m sc w of (r, sc', w') \<Rightarrow> (r, sc', w'\<lparr>terminal_locked := False\<rparr>)) = (r, sc', w')"
    obtain r1 sc1 w1 where 1: "m sc w = (r1, sc1, w1)" by (metis prod.exhaust)
    from etripleD [OF m sc w 1] run 1
    show "sched_ok ok sc' \<and> ends (\<lambda>a. N a w') (\<lambda>h. X h w') r" by auto
  qed
qed

lemma et_or_drop:
  assumes m: "etriple ok P m N (\<lambda>h w. case h of HErr e \<Rightarrow> R e w | _ \<Rightarrow> X h w)"
    and R: "\<And>e. estable E ok (R e)"
    and drop: "\<And>e w. R e w \<Longrightarrow> X (HErr e) (w\<lparr>in_flight := (in_flight w)(wid := None)\<rparr>)"
  shows "etriple ok P (or_drop E wid m) N X"
proof (rule etripleI)
  fix sc w r sc' w'
  assume sc: "sched_ok ok sc" and P: "P w" and run: "or_drop E wid m sc w = (r, sc', w')"
  obtain r1 sc1 w1 where 1: "m sc w = (r1, sc1, w1)" by (metis prod.exhaust)
  note m1 = etripleD [OF m sc P 1]
  have d: "etriple ok (R e) (ebind (drop_from_in_flight E wid) (\<lambda>_. eerr e)) N X" for e
    unfolding drop_from_in_flight_def
    by (rule et_bind [OF et_atom [OF R, where N = "\<lambda>_. X (HErr e)"]])
      (auto intro: et_err drop)
  show "sched_ok ok sc' \<and> ends (\<lambda>a. N a w') (\<lambda>h. X h w') r"
  proof (cases r1)
    case Blocked
    with m1 run 1 show ?thesis by (auto simp: or_drop_def)
  next
    case (Ready rr)
    with m1 run 1 show ?thesis by (cases rr) (auto simp: or_drop_def dest: etripleD [OF d])
  qed
qed

lemma et_sleep_until:
  assumes P: "estable E ok P" and X: "\<And>w. P w \<Longrightarrow> X HBlocked w"
  shows "etriple ok P (sleep_until E at) (\<lambda>_ w. P w \<and> at \<le> clock w) X"
proof (rule etripleI)
  fix sc w r sc' w'
  assume "sched_ok ok sc" "P w" "sleep_until E at sc w = (r, sc', w')"
  then show "sched_ok ok sc' \<and> ends (\<lambda>a. P w' \<and> at \<le> clock w') (\<lambda>h. X h w') r"
  proof (induction sc arbitrary: w)
    case (Cons c cs)
    then show ?case using estable_run [OF P, of c w] by (auto split: if_splits)
  qed (auto simp: X split: if_splits)
qed

lemma et_sleep:
  assumes P: "estable E ok P" and X: "\<And>w. P w \<Longrightarrow> X HBlocked w"
  shows "etriple ok P (sleep E d) (\<lambda>_. P) X"
proof (rule etripleI)
  fix sc w r sc' w'
  assume "sched_ok ok sc" "P w" "sleep E d sc w = (r, sc', w')"
  with etripleD [OF et_sleep_until [where X = X, OF P X]]
  have "sched_ok ok sc' \<and> ends (\<lambda>a. P w' \<and> clock w + nanos_of d \<le> clock w') (\<lambda>h. X h w') r"
    unfolding sleep_def by blast
  then show "sched_ok ok sc' \<and> ends (\<lambda>a. P w') (\<lambda>h. X h w') r" by (auto elim!: ends_mono)
qed

text \<open>Assertions that survive the queue moving on, and the renewal task.\<close>

definition queue_closed :: "('s world \<Rightarrow> bool) \<Rightarrow> bool" where
  "queue_closed P \<longleftrightarrow>
     (\<forall>w l q'. P w \<longrightarrow> qexec l (wqueue w) = Some q' \<longrightarrow> P (w\<lparr>wqueue := q'\<rparr>))"

definition renewal_closed :: "('s world \<Rightarrow> bool) \<Rightarrow> bool" where
  "renewal_closed P \<longleftrightarrow> (\<forall>w t. P w \<longrightarrow> P (w\<lparr>renewal_task := t\<rparr>))"

lemma push_send_step:
  assumes "queue_closed P" and "P w" and "push_send rx (wqueue w) = Some (r, q')"
  shows "P (w\<lparr>wqueue := q'\<rparr>) \<and> r \<noteq> Panic"
proof
  have "qexec (LSend rx) (wqueue w) = Some q'" using assms(3) by simp
  with assms show "P (w\<lparr>wqueue := q'\<rparr>)" unfolding queue_closed_def by blast
  show "r \<noteq> Panic"
    using assms(3) by (auto simp: push_send_def Let_def split: option.splits if_splits)
qed

lemma await_send_keeps:
  assumes P: "estable E ok P" "queue_closed P"
  shows "sched_ok ok sc \<Longrightarrow> P w \<Longrightarrow>
    await_send wqueue (\<lambda>q w. w\<lparr>wqueue := q\<rparr>) (env_run E) rx sc w = (r, sc', w') \<Longrightarrow>
    sched_ok ok sc' \<and> P w' \<and> r \<noteq> Ready Panic"
proof (induction sc arbitrary: w)
  case Nil
  then show ?case using push_send_step [OF P(2) Nil(2), of rx]
    by (auto split: option.splits)
next
  case (Cons c cs)
  then show ?case using push_send_step [OF P(2) Cons(3), of rx] estable_run [OF P(1), of c w]
    by (auto split: option.splits)
qed

lemma et_push:
  assumes P: "estable E ok P" "queue_closed P"
    and X: "\<And>w. P w \<Longrightarrow> X HBlocked w" "\<And>e w. P w \<Longrightarrow> X (HErr (EnginePush e)) w"
  shows "etriple ok P (epush E j) (\<lambda>_. P) X"
  unfolding epush_def
proof (rule et_bind [OF et_yield [OF P(1)]], rule etripleI)
  fix sc w r sc' w'
  assume sc: "sched_ok ok sc" and w: "P w"
    and run: "(case push wqueue (\<lambda>q w. w\<lparr>wqueue := q\<rparr>) (env_run E) j sc w of
         (Blocked, sc', w') \<Rightarrow> (Blocked, sc', w')
       | (Ready r, sc', w') \<Rightarrow> (Ready (map_err EnginePush r), sc', w')) = (r, sc', w')"
  obtain r1 sc1 w1 where 1:
    "push wqueue (\<lambda>q w. w\<lparr>wqueue := q\<rparr>) (env_run E) j sc w = (r1, sc1, w1)" by (metis prod.exhaust)
  obtain s q' where c: "push_claim j (wqueue w) = (s, q')" by (metis prod.exhaust)
  then have "qexec (LPush j) (wqueue w) = Some q'" by simp
  then have q': "P (w\<lparr>wqueue := q'\<rparr>)" using w P(2) unfolding queue_closed_def by blast
  have "sched_ok ok sc1 \<and> P w1 \<and> r1 \<noteq> Ready Panic"
    using 1 c q' sc await_send_keeps [OF P sc q'] by (auto simp: push_def split: push_step.splits)
  then show "sched_ok ok sc' \<and> ends (\<lambda>a. P w') (\<lambda>h. X h w') r"
  proof (cases r1)
    case (Ready rr)
    with \<open>sched_ok ok sc1 \<and> P w1 \<and> r1 \<noteq> Ready Panic\<close> run 1 X show ?thesis
      by (cases rr) auto
  qed (use \<open>sched_ok ok sc1 \<and> P w1 \<and> r1 \<noteq> Ready Panic\<close> run 1 X in auto)
qed

lemma job_poll_keeps:
  assumes P: "renewal_closed P" and w: "P w"
    and renew: "\<And>w r s. P w \<Longrightarrow>
      renew_lease (eng_ops E) wid i (eng_worker_id E) (eng_lease_ttl E) (wall w) (store w) = (r, s) \<Longrightarrow>
      r \<noteq> Panic \<and> P (w\<lparr>store := s\<rparr>)"
    and poll: "job_poll E wid i rx deadline w = (r, w')"
  shows "P w' \<and> r \<noteq> Ready Panic \<and> (\<forall>e. r = Ready (Err e) \<longrightarrow> e = EngineJobLost JobLost)"
proof -
  have P': "P (w\<lparr>renewal_task := t\<rparr>)" for t using P w unfolding renewal_closed_def by blast
  have handle: "poll_handle rx (wqueue w) \<noteq> Ready Panic"
    by (auto simp: poll_handle_def split: oneshot.splits)
  show ?thesis
  proof (cases "poll_handle rx (wqueue w)")
    case (Ready h)
    with poll P' handle show ?thesis
      by (cases h) (auto simp: job_poll_def poll_handle_def split: oneshot.splits)
  next
    case Blocked
    show ?thesis
    proof (cases "case deadline of Some (at, _) \<Rightarrow> at \<le> clock w | None \<Rightarrow> False")
      case True
      with poll P' Blocked show ?thesis by (auto simp: job_poll_def)
    next
      case late: False
      show ?thesis
      proof (cases "renewal_task w")
        case None
        with poll w Blocked late show ?thesis by (auto simp: job_poll_def)
      next
        case (Some t)
        let ?w = "w\<lparr>renewal_task := Some (t\<lparr>ren_pending := ren_pending t - 1\<rparr>)\<rparr>"
        obtain r1 s where rs: "renew_lease (eng_ops E) wid i (eng_worker_id E) (eng_lease_ttl E)
            (wall ?w) (store ?w) = (r1, s)" by (metis prod.exhaust)
        from renew [OF P' this] poll w Blocked late Some rs show ?thesis
          by (cases r1) (auto simp: job_poll_def Let_def split: if_splits)
      qed
    qed
  qed
qed

lemma et_await:
  assumes P: "estable E ok P" "renewal_closed P"
    and renew: "\<And>w r s. P w \<Longrightarrow>
      renew_lease (eng_ops E) wid i (eng_worker_id E) (eng_lease_ttl E) (wall w) (store w) = (r, s) \<Longrightarrow>
      r \<noteq> Panic \<and> P (w\<lparr>store := s\<rparr>)"
    and X: "\<And>w. P w \<Longrightarrow> X HBlocked w" "\<And>w. P w \<Longrightarrow> X (HErr (EngineJobLost JobLost)) w"
  shows "etriple ok P (await_job_renewing_lease E wid i rx timeout) (\<lambda>_. P) X"
proof (rule etripleI)
  fix sc w r sc' w'
  assume sc: "sched_ok ok sc" and w: "P w"
    and run: "await_job_renewing_lease E wid i rx timeout sc w = (r, sc', w')"
  have loop: "sched_ok ok sc \<Longrightarrow> P w \<Longrightarrow> job_loop E wid i rx d sc w = (r, sc', w') \<Longrightarrow>
      sched_ok ok sc' \<and> ends (\<lambda>a. P w') (\<lambda>h. X h w') r" for d w
  proof (induction sc arbitrary: w)
    case Nil
    obtain r1 w1 where 1: "job_poll E wid i rx d w = (r1, w1)" by (metis prod.exhaust)
    from job_poll_keeps [OF P(2) Nil(2) renew 1] Nil 1 X show ?case
      by (cases r1 rule: call_cases) auto
  next
    case (Cons c cs)
    obtain r1 w1 where 1: "job_poll E wid i rx d w = (r1, w1)" by (metis prod.exhaust)
    note keep = job_poll_keeps [OF P(2) Cons(3) renew 1]
    show ?case
    proof (cases r1)
      case Blocked
      with Cons 1 keep show ?thesis by (auto intro: estable_run [OF P(1)])
    next
      case (Ready rr)
      with Cons 1 keep X show ?thesis by (cases rr) auto
    qed
  qed
  have "P (w\<lparr>renewal_task := t\<rparr>)" for t using P(2) w unfolding renewal_closed_def by blast
  with loop [OF sc] run show "sched_ok ok sc' \<and> ends (\<lambda>a. P w') (\<lambda>h. X h w') r"
    by (auto simp: await_job_renewing_lease_def Let_def)
qed

end
