(* ===== verification/KeySpec.thy ===== *)
theory KeySpec
  imports JobTypes "HOL-Library.Multiset"
begin

text \<open>
  The abstract contract of the queue's idempotency keys, with no lanes, permits or tasks: the
  recorded state of every key, the multiset of jobs that were accepted and have not begun, and the
  multiset of jobs whose closure is running.  A lossy system may also forget accepted jobs, which
  the queue does only when the worker of a lane is torn down.
\<close>

section \<open>Specification\<close>

record key_spec =
  ks_state :: "key \<rightharpoonup> state"
  ks_waiting :: "job multiset"
  ks_running :: "job multiset"

inductive key_step :: "bool \<Rightarrow> key_spec \<Rightarrow> key_spec \<Rightarrow> bool" for lossy where
  claim: "\<not> claimed (ks_state s (job_key j)) \<Longrightarrow> \<forall>out. ks_state s (job_key j) \<noteq> Some (SCompleted out) \<Longrightarrow>
    key_step lossy s (s\<lparr>ks_state := (ks_state s)(job_key j \<mapsto> SPending),
                  ks_waiting := add_mset j (ks_waiting s)\<rparr>)"
| release: "j \<in># ks_waiting s \<Longrightarrow>
    key_step lossy s (s\<lparr>ks_state := (ks_state s)(job_key j := None),
                  ks_waiting := ks_waiting s - {#j#}\<rparr>)"
| refuse: "j \<in># ks_waiting s \<Longrightarrow>
    key_step lossy s (s\<lparr>ks_state := (ks_state s)(job_key j \<mapsto> SFailed m),
                  ks_waiting := ks_waiting s - {#j#}\<rparr>)"
| begin_body: "j \<in># ks_waiting s \<Longrightarrow>
    key_step lossy s (s\<lparr>ks_state := (ks_state s)(job_key j \<mapsto> SProcessing),
                  ks_waiting := ks_waiting s - {#j#},
                  ks_running := add_mset j (ks_running s)\<rparr>)"
| finish_body: "j \<in># ks_running s \<Longrightarrow>
    key_step lossy s (s\<lparr>ks_state := (ks_state s)(job_key j \<mapsto> state_of_outcome oc),
                  ks_running := ks_running s - {#j#}\<rparr>)"
| abandon: "lossy \<Longrightarrow> W \<subseteq># ks_waiting s \<Longrightarrow> key_step lossy s (s\<lparr>ks_waiting := W\<rparr>)"

inductive_cases key_stepE: "key_step lossy s t"

definition occurrences :: "key \<Rightarrow> job multiset \<Rightarrow> nat" where
  "occurrences k M = size (filter_mset (\<lambda>j. job_key j = k) M)"

definition key_inv :: "key_spec \<Rightarrow> bool" where
  "key_inv s \<longleftrightarrow>
     (\<forall>j \<in># ks_waiting s. ks_state s (job_key j) = Some SPending) \<and>
     (\<forall>j \<in># ks_running s. ks_state s (job_key j) = Some SProcessing) \<and>
     (\<forall>k. occurrences k (ks_waiting s) \<le> 1) \<and>
     (\<forall>k. occurrences k (ks_running s) \<le> 1) \<and>
     (\<forall>k. ks_state s k = Some SProcessing \<longrightarrow> occurrences k (ks_running s) = 1)"

section \<open>Counting the jobs of a key\<close>

lemma occurrences_simps [simp]:
  "occurrences k {#} = 0"
  "occurrences k (add_mset j M) = (if job_key j = k then Suc (occurrences k M) else occurrences k M)"
  "occurrences k (M + N) = occurrences k M + occurrences k N"
  by (simp_all add: occurrences_def)

lemma occurrences_eq_0_iff: "occurrences k M = 0 \<longleftrightarrow> (\<forall>j \<in># M. job_key j \<noteq> k)"
  by (auto simp: occurrences_def filter_mset_eq_conv)

lemma occurrences_mono: "N \<subseteq># M \<Longrightarrow> occurrences k N \<le> occurrences k M"
  unfolding occurrences_def by (intro size_mset_mono multiset_filter_mono)

lemma occurrences_unique:
  "occurrences (job_key j) (add_mset j M) \<le> 1 \<Longrightarrow> i \<in># M \<Longrightarrow> job_key i \<noteq> job_key j"
  using occurrences_eq_0_iff [of "job_key j" M] by auto

section \<open>The invariant of the specification\<close>

lemma key_invD:
  assumes "key_inv s"
  shows "j \<in># ks_waiting s \<Longrightarrow> ks_state s (job_key j) = Some SPending"
    and "j \<in># ks_running s \<Longrightarrow> ks_state s (job_key j) = Some SProcessing"
    and "occurrences k (ks_waiting s) \<le> 1"
    and "occurrences k (ks_running s) \<le> 1"
    and "ks_state s k = Some SProcessing \<Longrightarrow> occurrences k (ks_running s) = 1"
  using assms unfolding key_inv_def by blast+

lemma key_inv_idle:
  assumes "key_inv s" and "\<not> claimed (ks_state s k)"
  shows "occurrences k (ks_waiting s) = 0" and "occurrences k (ks_running s) = 0"
  using assms by (auto simp: occurrences_eq_0_iff dest: key_invD(1,2))

lemma key_inv_pending:
  assumes "key_inv s" and "ks_state s k = Some SPending"
  shows "occurrences k (ks_running s) = 0"
  using assms by (auto simp: occurrences_eq_0_iff dest: key_invD(2))

lemma key_inv_processing:
  assumes "key_inv s" and "ks_state s k = Some SProcessing"
  shows "occurrences k (ks_waiting s) = 0"
  using assms by (auto simp: occurrences_eq_0_iff dest: key_invD(1))

text \<open>Over both multisets together a key occurs at most once.\<close>

lemma key_inv_at_most_one:
  assumes inv: "key_inv s"
  shows "occurrences k (ks_waiting s + ks_running s) \<le> 1"
proof (cases "ks_state s k = Some SProcessing")
  case True
  then show ?thesis using key_inv_processing [OF inv True] key_invD(4) [OF inv, of k] by simp
next
  case False
  then have "occurrences k (ks_running s) = 0"
    using key_inv_idle [OF inv] key_inv_pending [OF inv] by (auto simp: claimed_def)
  then show ?thesis using key_invD(3) [OF inv, of k] by simp
qed

text \<open>Taking a job out of the waiting ones, whatever its key's new state.\<close>

lemma key_inv_take_waiting:
  assumes inv: "key_inv (s\<lparr>ks_waiting := add_mset j W\<rparr>)" and v: "v \<noteq> Some SProcessing"
  shows "key_inv (s\<lparr>ks_state := (ks_state s)(job_key j := v), ks_waiting := W\<rparr>)"
proof -
  have st: "ks_state s (job_key j) = Some SPending" using key_invD(1) [OF inv, of j] by simp
  have "\<forall>i \<in># W. job_key i \<noteq> job_key j"
    using key_invD(3) [OF inv, of "job_key j"] occurrences_unique by auto
  moreover have "\<forall>i \<in># ks_running s. job_key i \<noteq> job_key j"
    using key_inv_pending [OF inv, of "job_key j"] st by (simp add: occurrences_eq_0_iff)
  moreover have "\<forall>k. occurrences k W \<le> 1"
  proof
    fix k
    show "occurrences k W \<le> 1" using key_invD(3) [OF inv, of k] by (simp split: if_splits)
  qed
  ultimately show ?thesis using inv v unfolding key_inv_def by auto
qed

lemma key_inv_add_waiting:
  assumes inv: "key_inv s" and idle: "\<not> claimed (ks_state s (job_key j))"
  shows "key_inv (s\<lparr>ks_state := (ks_state s)(job_key j \<mapsto> SPending),
                    ks_waiting := add_mset j (ks_waiting s)\<rparr>)"
  using inv key_inv_idle [OF inv idle] unfolding key_inv_def by (auto simp: occurrences_eq_0_iff)

lemma key_inv_begin:
  assumes inv: "key_inv (s\<lparr>ks_waiting := add_mset j W\<rparr>)"
  shows "key_inv (s\<lparr>ks_state := (ks_state s)(job_key j \<mapsto> SProcessing), ks_waiting := W,
                    ks_running := add_mset j (ks_running s)\<rparr>)"
proof -
  have "key_inv (s\<lparr>ks_state := (ks_state s)(job_key j := None), ks_waiting := W\<rparr>)"
    (is "key_inv ?t") by (rule key_inv_take_waiting [OF inv]) simp
  moreover have "occurrences (job_key j) W = 0" "occurrences (job_key j) (ks_running s) = 0"
    using key_inv_idle [OF calculation, of "job_key j"] by simp_all
  ultimately show ?thesis unfolding key_inv_def by (auto simp: occurrences_eq_0_iff)
qed

lemma key_inv_finish:
  assumes inv: "key_inv (s\<lparr>ks_running := add_mset j R\<rparr>)" and v: "\<not> claimed v"
  shows "key_inv (s\<lparr>ks_state := (ks_state s)(job_key j := v), ks_running := R\<rparr>)"
proof -
  have st: "ks_state s (job_key j) = Some SProcessing" using key_invD(2) [OF inv, of j] by simp
  have R: "\<forall>i \<in># R. job_key i \<noteq> job_key j"
    using key_invD(4) [OF inv, of "job_key j"] occurrences_unique by auto
  have W: "\<forall>i \<in># ks_waiting s. job_key i \<noteq> job_key j"
    using key_inv_processing [OF inv, of "job_key j"] st by (simp add: occurrences_eq_0_iff)
  have occ: "occurrences k R \<le> 1" for k
    using key_invD(4) [OF inv, of k] by (simp split: if_splits)
  have one: "ks_state s k = Some SProcessing \<Longrightarrow> job_key j \<noteq> k \<Longrightarrow> occurrences k R = 1" for k
    using key_invD(5) [OF inv, of k] by simp
  show ?thesis using inv R W occ one v unfolding key_inv_def by (auto simp: claimed_def)
qed

lemma key_inv_abandon:
  assumes inv: "key_inv s" and sub: "W \<subseteq># ks_waiting s"
  shows "key_inv (s\<lparr>ks_waiting := W\<rparr>)"
proof -
  have "occurrences k W \<le> 1" for k
    using occurrences_mono [OF sub, of k] key_invD(3) [OF inv, of k] by linarith
  moreover have "ks_state s (job_key j) = Some SPending" if "j \<in># W" for j
    using key_invD(1) [OF inv] mset_subset_eqD [OF sub that] by blast
  ultimately show ?thesis using inv unfolding key_inv_def by simp
qed

lemma key_step_inv: "key_step lossy s t \<Longrightarrow> key_inv s \<Longrightarrow> key_inv t"
proof (induction rule: key_step.induct)
  case (claim s j)
  then show ?case by (intro key_inv_add_waiting)
next
  case (release j s)
  then show ?case using key_inv_take_waiting [where s = s and j = j and W = "ks_waiting s - {#j#}" and v = None] by simp
next
  case (refuse j s m)
  then show ?case using key_inv_take_waiting
      [where s = s and j = j and W = "ks_waiting s - {#j#}" and v = "Some (SFailed m)"] by simp
next
  case (begin_body j s)
  then show ?case using key_inv_begin [where s = s and j = j and W = "ks_waiting s - {#j#}"] by simp
next
  case (finish_body j s oc)
  then show ?case
    using key_inv_finish
      [where s = s and j = j and R = "ks_running s - {#j#}" and v = "Some (state_of_outcome oc)"] by simp
next
  case (abandon W s)
  then show ?case by (intro key_inv_abandon)
qed

lemma key_steps_inv: "(key_step lossy)\<^sup>*\<^sup>* s t \<Longrightarrow> key_inv s \<Longrightarrow> key_inv t"
  by (induction rule: rtranclp_induct) (auto intro: key_step_inv)

section \<open>What the specification promises\<close>

text \<open>A completed key keeps its output for good.\<close>

lemma key_step_completed:
  "key_step lossy s t \<Longrightarrow> key_inv s \<Longrightarrow> ks_state s k = Some (SCompleted out) \<Longrightarrow>
     ks_state t k = Some (SCompleted out)"
  by (induction rule: key_step.induct) (auto dest: key_invD(1,2))

lemma key_steps_completed:
  "(key_step lossy)\<^sup>*\<^sup>* s t \<Longrightarrow> key_inv s \<Longrightarrow> ks_state s k = Some (SCompleted out) \<Longrightarrow>
     ks_state t k = Some (SCompleted out)"
  by (induction rule: rtranclp_induct) (auto intro: key_step_completed key_steps_inv)

lemma key_step_mono: "key_step False s t \<Longrightarrow> key_step lossy s t"
  by (induction rule: key_step.induct) (auto intro: key_step.intros)

text \<open>Unless jobs are forgotten, every pending key has its job waiting.\<close>

definition key_backed :: "key_spec \<Rightarrow> bool" where
  "key_backed s \<longleftrightarrow> (\<forall>k. ks_state s k = Some SPending \<longrightarrow> occurrences k (ks_waiting s) = 1)"

lemma occurrences_diff_other:
  "job_key j \<noteq> k \<Longrightarrow> occurrences k (M - {#j#}) = occurrences k M"
  by (cases "j \<in># M") (auto dest!: multi_member_split simp: diff_single_trivial)

lemma key_step_backed: "key_step False s t \<Longrightarrow> key_inv s \<Longrightarrow> key_backed s \<Longrightarrow> key_backed t"
proof (induction rule: key_step.induct)
  case (claim s j)
  then show ?case using key_inv_idle(1) [of s "job_key j"] by (auto simp: key_backed_def)
next
  case (finish_body j s oc)
  then show ?case by (cases oc) (auto simp: key_backed_def)
qed (auto simp: key_backed_def occurrences_diff_other)

lemma key_steps_backed:
  "(key_step False)\<^sup>*\<^sup>* s t \<Longrightarrow> key_inv s \<Longrightarrow> key_backed s \<Longrightarrow> key_backed t"
  by (induction rule: rtranclp_induct) (auto intro: key_step_backed key_steps_inv)

end
