(* ===== verification/QueueRefinement.thy ===== *)
theory QueueRefinement
  imports QueueModel KeySpec
begin

text \<open>
  The queue implements the key contract: its structural invariant (identities of futures, tasks and
  permits), the abstraction to \<open>key_spec\<close>, the effect of every atomic operation on that
  abstraction, and the simulation.
\<close>

section \<open>Abstraction\<close>

definition lane_jobs :: "lane \<Rightarrow> job list" where
  "lane_jobs l = lane_buf l @ (case lane_held l of None \<Rightarrow> [] | Some j \<Rightarrow> [j])"

definition jobs_in_phase :: "(phase \<Rightarrow> bool) \<Rightarrow> task list \<Rightarrow> job multiset" where
  "jobs_in_phase P ts = mset (map task_job (filter (\<lambda>u. P (task_phase u)) ts))"

definition lanes_jobs :: "lane list \<Rightarrow> job multiset" where
  "lanes_jobs ls = mset (concat (map lane_jobs ls))"

definition waiting_jobs :: "queue \<Rightarrow> job multiset" where
  "waiting_jobs q =
     mset (map snd (pushes q)) + lanes_jobs (lanes q) + jobs_in_phase (\<lambda>ph. ph = Spawned) (tasks q)"

definition running_jobs :: "queue \<Rightarrow> job multiset" where
  "running_jobs q = jobs_in_phase (\<lambda>ph. ph = Running) (tasks q)"

definition abs_queue :: "queue \<Rightarrow> key_spec" where
  "abs_queue q =
     \<lparr>ks_state = statemap q, ks_waiting = waiting_jobs q, ks_running = running_jobs q\<rparr>"

lemma jobs_in_phase_simps [simp]:
  "jobs_in_phase P [] = {#}"
  "jobs_in_phase P (u # ts) =
     (if P (task_phase u) then add_mset (task_job u) (jobs_in_phase P ts) else jobs_in_phase P ts)"
  "jobs_in_phase P (ts @ ts') = jobs_in_phase P ts + jobs_in_phase P ts'"
  by (simp_all add: jobs_in_phase_def)

lemma lanes_jobs_simps [simp]:
  "lanes_jobs [] = {#}"
  "lanes_jobs (l # ls) = mset (lane_jobs l) + lanes_jobs ls"
  "lanes_jobs (ls @ ls') = lanes_jobs ls + lanes_jobs ls'"
  by (simp_all add: lanes_jobs_def)

section \<open>Structural invariant\<close>

definition lane_ok :: "task list \<Rightarrow> nat \<Rightarrow> lane \<Rightarrow> bool" where
  "lane_ok ts i l \<longleftrightarrow>
     length (lane_buf l) \<le> unat (capacity (lane_config l)) \<and>
     lane_free l + length (filter (\<lambda>u. task_lane u = i) ts) = unat (permits (lane_config l))"

definition queue_wf :: "queue \<Rightarrow> bool" where
  "queue_wf q \<longleftrightarrow>
     length (lanes q) = priority_count \<and>
     distinct (map fst (pushes q)) \<and>
     (\<forall>p \<in> set (pushes q). fst p < length (oneshots q)) \<and>
     distinct (map task_id (tasks q)) \<and>
     (\<forall>u \<in> set (tasks q). task_id u < next_task q \<and> task_lane u < priority_count) \<and>
     (\<forall>i < length (lanes q). lane_ok (tasks q) i (lanes q ! i))"

lemma queue_wfD:
  assumes "queue_wf q"
  shows "length (lanes q) = priority_count" "distinct (map fst (pushes q))"
    and "(rx, j) \<in> set (pushes q) \<Longrightarrow> rx < length (oneshots q)"
    and "distinct (map task_id (tasks q))"
    and "u \<in> set (tasks q) \<Longrightarrow> task_id u < next_task q"
    and "u \<in> set (tasks q) \<Longrightarrow> task_lane u < priority_count"
    and "i < priority_count \<Longrightarrow> lane_ok (tasks q) i (lanes q ! i)"
  using assms unfolding queue_wf_def by auto

section \<open>Splitting the lists an operation touches\<close>

lemma list_update_split:
  "i < length xs \<Longrightarrow> \<exists>as bs. xs = as @ xs ! i # bs \<and> length as = i \<and> (\<forall>y. xs[i := y] = as @ y # bs)"
  by (intro exI [of _ "take i xs"] exI [of _ "drop (Suc i) xs"])
    (simp add: id_take_nth_drop [symmetric] upd_conv_take_nth_drop)

lemma find_task_split:
  assumes "distinct (map task_id (tasks q))" and "find_task t q = Some u"
  obtains as bs where "tasks q = as @ u # bs" "task_id u = t"
    "\<forall>v \<in> set as \<union> set bs. task_id v \<noteq> t"
proof -
  from assms(2) have u: "u \<in> set (tasks q)" "task_id u = t"
    by (auto simp: find_task_def find_Some_iff)
  then obtain as bs where ab: "tasks q = as @ u # bs" by (auto simp: in_set_conv_decomp)
  with assms(1) u(2) have "t \<notin> task_id ` set as" "t \<notin> task_id ` set bs" by auto
  then have "\<forall>v \<in> set as \<union> set bs. task_id v \<noteq> t" by blast
  with ab u(2) that show ?thesis by blast
qed

lemma map_of_push_split:
  assumes "distinct (map fst ps)" and "map_of ps rx = Some j"
  obtains as bs where "ps = as @ (rx, j) # bs" "filter (\<lambda>p. fst p \<noteq> rx) ps = as @ bs"
proof -
  from assms(2) have "(rx, j) \<in> set ps" by (rule map_of_SomeD)
  then obtain as bs where ab: "ps = as @ (rx, j) # bs" by (auto simp: in_set_conv_decomp)
  with assms(1) have "filter (\<lambda>p. fst p \<noteq> rx) as = as" "filter (\<lambda>p. fst p \<noteq> rx) bs = bs"
    by (auto simp: filter_id_conv rev_image_eqI)
  with ab that show ?thesis by simp
qed

lemma set_phase_tasks:
  "tasks q = as @ u # bs \<Longrightarrow> task_id u = t \<Longrightarrow> \<forall>v \<in> set as \<union> set bs. task_id v \<noteq> t \<Longrightarrow>
     tasks (set_phase t ph q) = as @ u\<lparr>task_phase := ph\<rparr> # bs"
  by (auto simp: set_phase_def map_idI)

lemma set_phase_simps [simp]:
  "statemap (set_phase t ph q) = statemap q" "waiters (set_phase t ph q) = waiters q"
  "oneshots (set_phase t ph q) = oneshots q" "lanes (set_phase t ph q) = lanes q"
  "pushes (set_phase t ph q) = pushes q" "next_task (set_phase t ph q) = next_task q"
  "send_error_text (set_phase t ph q) = send_error_text q"
  by (simp_all add: set_phase_def)

lemma update_lane_simps [simp]:
  "statemap (update_lane i f q) = statemap q" "waiters (update_lane i f q) = waiters q"
  "oneshots (update_lane i f q) = oneshots q" "pushes (update_lane i f q) = pushes q"
  "tasks (update_lane i f q) = tasks q" "next_task (update_lane i f q) = next_task q"
  "send_error_text (update_lane i f q) = send_error_text q"
  "lanes (update_lane i f q) = (lanes q)[i := f (lanes q ! i)]"
  by (simp_all add: update_lane_def)

lemma remove_push_simps [simp]:
  "statemap (remove_push rx q) = statemap q" "waiters (remove_push rx q) = waiters q"
  "oneshots (remove_push rx q) = oneshots q" "lanes (remove_push rx q) = lanes q"
  "tasks (remove_push rx q) = tasks q" "next_task (remove_push rx q) = next_task q"
  "send_error_text (remove_push rx q) = send_error_text q"
  "pushes (remove_push rx q) = filter (\<lambda>p. fst p \<noteq> rx) (pushes q)"
  by (simp_all add: remove_push_def)

lemma drop_waiters_simps [simp]:
  "statemap (drop_waiters k q) = statemap q" "lanes (drop_waiters k q) = lanes q"
  "tasks (drop_waiters k q) = tasks q" "next_task (drop_waiters k q) = next_task q"
  "pushes (drop_waiters k q) = pushes q" "send_error_text (drop_waiters k q) = send_error_text q"
  "waiters (drop_waiters k q) = (waiters q)(k := None)"
  "oneshots (drop_waiters k q) = set_oneshots (waiters_of k q) SenderDropped (oneshots q)"
  by (simp_all add: drop_waiters_def)

lemma length_set_oneshots [simp]: "length (set_oneshots rxs v os) = length os"
  by (induction rxs v os rule: set_oneshots.induct) auto

lemma nth_set_oneshots:
  "i < length os \<Longrightarrow> set_oneshots rxs v os ! i = (if i \<in> set rxs then v else os ! i)"
  by (induction rxs v os rule: set_oneshots.induct) (auto simp: nth_list_update)

section \<open>The effect of each operation\<close>

text \<open>
  What an operation did, as equations: a claim, a join and a cached answer for \<open>push\<close>, and one
  rule for each of the other operations.  The proofs about single steps start from these.
\<close>

lemma push_claim_cases:
  obtains (cached) out where "statemap q (job_key j) = Some (SCompleted out)"
      "push_claim j q = (PushReturn (Cached out), q)"
    | (join) "claimed (statemap q (job_key j))"
      "push_claim j q = (PushReturn (InFlight (length (oneshots q))), snd (add_waiter (job_key j) q))"
    | (fresh) q' where "\<not> claimed (statemap q (job_key j))"
      "\<forall>out. statemap q (job_key j) \<noteq> Some (SCompleted out)"
      "q' = snd (add_waiter (job_key j) (q\<lparr>statemap := (statemap q)(job_key j \<mapsto> SPending)\<rparr>))"
      "push_claim j q = (PushClaimed (length (oneshots q)),
         q'\<lparr>pushes := pushes q' @ [(length (oneshots q), j)]\<rparr>)"
proof (cases "statemap q (job_key j)")
  case None
  then show ?thesis using fresh by (simp add: push_claim_def add_waiter_def)
next
  case (Some st)
  then show ?thesis
    using cached join fresh by (cases st) (simp_all add: push_claim_def add_waiter_def)
qed

lemma add_waiter_simps [simp]:
  "fst (add_waiter k q) = length (oneshots q)"
  "statemap (snd (add_waiter k q)) = statemap q" "lanes (snd (add_waiter k q)) = lanes q"
  "tasks (snd (add_waiter k q)) = tasks q" "next_task (snd (add_waiter k q)) = next_task q"
  "pushes (snd (add_waiter k q)) = pushes q"
  "send_error_text (snd (add_waiter k q)) = send_error_text q"
  "oneshots (snd (add_waiter k q)) = oneshots q @ [Unresolved]"
  "waiters (snd (add_waiter k q)) = (waiters q)(k \<mapsto> waiters_of k q @ [length (oneshots q)])"
  by (simp_all add: add_waiter_def)

lemma abs_push_claim:
  "(key_step False)\<^sup>*\<^sup>* (abs_queue q) (abs_queue (snd (push_claim j q)))"
proof (cases rule: push_claim_cases [of q j])
  case (cached out)
  then show ?thesis by simp
next
  case join
  then show ?thesis by (simp add: abs_queue_def waiting_jobs_def running_jobs_def)
next
  case (fresh q')
  have "key_step False (abs_queue q) ((abs_queue q)\<lparr>
      ks_state := (ks_state (abs_queue q))(job_key j \<mapsto> SPending),
      ks_waiting := add_mset j (ks_waiting (abs_queue q))\<rparr>)"
    using fresh(1,2) by (intro key_step.claim) (simp_all add: abs_queue_def)
  also have "(abs_queue q)\<lparr>ks_state := (ks_state (abs_queue q))(job_key j \<mapsto> SPending),
      ks_waiting := add_mset j (ks_waiting (abs_queue q))\<rparr> = abs_queue (snd (push_claim j q))"
    using fresh(3,4) by (simp add: abs_queue_def waiting_jobs_def running_jobs_def)
  finally show ?thesis by (rule r_into_rtranclp)
qed

text \<open>The lanes seen through their jobs and through the tasks they are accounted with.\<close>

lemma lanes_jobs_update:
  assumes "i < length ls"
  shows "lanes_jobs (ls[i := l]) + mset (lane_jobs (ls ! i)) = lanes_jobs ls + mset (lane_jobs l)"
proof -
  obtain as bs where s: "ls = as @ ls ! i # bs" "\<forall>y. ls[i := y] = as @ y # bs"
    using list_update_split [OF assms] by blast
  have "lanes_jobs ls = lanes_jobs as + mset (lane_jobs (ls ! i)) + lanes_jobs bs"
    by (subst s(1)) (simp add: ac_simps)
  then show ?thesis by (simp add: s(2) ac_simps)
qed

lemma push_send_cases:
  assumes wf: "queue_wf q" and step: "push_send rx q = Some (r, q')"
  obtains (sent) j as bs where "pushes q = as @ (rx, j) # bs" "r = Ok (Queued rx)"
      "lane_open (lanes q ! priority_index (job_priority j))"
      "length (lane_buf (lanes q ! priority_index (job_priority j)))
         < unat (capacity (lane_config (lanes q ! priority_index (job_priority j))))"
      "q' = remove_push rx (update_lane (priority_index (job_priority j)) (lane_buf_update (\<lambda>b. b @ [j])) q)"
      "pushes q' = as @ bs"
    | (refused) j as bs where "pushes q = as @ (rx, j) # bs" "r = Err LaneClosed"
      "\<not> lane_open (lanes q ! priority_index (job_priority j))"
      "q' = drop_waiters (job_key j) ((remove_push rx q)
         \<lparr>statemap := (statemap q)(job_key j \<mapsto> SFailed (send_error_text q))\<rparr>)"
      "pushes q' = as @ bs"
proof -
  obtain j where j: "map_of (pushes q) rx = Some j"
    using step by (auto simp: push_send_def split: option.splits)
  then obtain as bs where ab: "pushes q = as @ (rx, j) # bs"
      "filter (\<lambda>p. fst p \<noteq> rx) (pushes q) = as @ bs"
    using map_of_push_split queue_wfD(2) [OF wf] by metis
  show ?thesis
    using step j ab sent [of as j bs] refused [of as j bs]
    by (simp add: push_send_def Let_def split: if_splits)
qed

lemma abs_push_send:
  assumes wf: "queue_wf q" and step: "push_send rx q = Some (r, q')"
  shows "(key_step False)\<^sup>*\<^sup>* (abs_queue q) (abs_queue q')"
  using wf step
proof (cases rule: push_send_cases)
  case (sent j as bs)
  let ?i = "priority_index (job_priority j)"
  have "lanes_jobs ((lanes q)[?i := lane_buf_update (\<lambda>b. b @ [j]) (lanes q ! ?i)]) =
      add_mset j (lanes_jobs (lanes q))"
    using lanes_jobs_update [of ?i "lanes q" "lane_buf_update (\<lambda>b. b @ [j]) (lanes q ! ?i)"]
      queue_wfD(1) [OF wf]
    by (simp add: lane_jobs_def)
  moreover have "pushes q' = as @ bs" by (rule sent(6))
  ultimately have "abs_queue q' = abs_queue q"
    using sent(1) unfolding sent(5) by (simp add: abs_queue_def waiting_jobs_def running_jobs_def)
  then show ?thesis by simp
next
  case (refused j as bs)
  have w: "waiting_jobs q = add_mset j (waiting_jobs q')"
    using refused(1,5) unfolding refused(4) by (simp add: waiting_jobs_def)
  then have "j \<in># ks_waiting (abs_queue q)" by (simp add: abs_queue_def)
  note key_step.refuse [OF this, where m = "send_error_text q"]
  then have "key_step False (abs_queue q) (abs_queue q')"
    using w unfolding refused(4) by (simp add: abs_queue_def running_jobs_def)
  then show ?thesis by simp
qed

lemma push_drop_cases:
  assumes wf: "queue_wf q" and step: "push_drop rx q = Some q'"
  obtains j as bs where "pushes q = as @ (rx, j) # bs"
    "q' = drop_waiters (job_key j) ((remove_push rx q)\<lparr>statemap := (statemap q)(job_key j := None)\<rparr>)"
    "pushes q' = as @ bs"
proof -
  obtain j where j: "map_of (pushes q) rx = Some j"
    using step by (auto simp: push_drop_def split: option.splits)
  then obtain as bs where ab: "pushes q = as @ (rx, j) # bs"
      "filter (\<lambda>p. fst p \<noteq> rx) (pushes q) = as @ bs"
    using map_of_push_split queue_wfD(2) [OF wf] by metis
  show ?thesis using step j ab that [of as j bs] by (simp add: push_drop_def Let_def)
qed

lemma abs_push_drop:
  assumes wf: "queue_wf q" and step: "push_drop rx q = Some q'"
  shows "(key_step False)\<^sup>*\<^sup>* (abs_queue q) (abs_queue q')"
  using wf step
proof (cases rule: push_drop_cases)
  case (1 j as bs)
  have w: "waiting_jobs q = add_mset j (waiting_jobs q')"
    using 1(1,3) unfolding 1(2) by (simp add: waiting_jobs_def)
  then have "j \<in># ks_waiting (abs_queue q)" by (simp add: abs_queue_def)
  note key_step.release [OF this]
  then have "key_step False (abs_queue q) (abs_queue q')"
    using w unfolding 1(2) by (simp add: abs_queue_def running_jobs_def)
  then show ?thesis by simp
qed

lemma worker_recv_cases:
  assumes "worker_recv i q = Some q'"
  obtains j rest where "i < length (lanes q)" "lane_open (lanes q ! i)" "lane_held (lanes q ! i) = None"
    "lane_buf (lanes q ! i) = j # rest"
    "q' = update_lane i (\<lambda>l. l\<lparr>lane_buf := rest, lane_held := Some j\<rparr>) q"
  using assms by (auto simp: worker_recv_def split: if_splits list.splits)

lemma abs_worker_recv:
  assumes step: "worker_recv i q = Some q'"
  shows "abs_queue q' = abs_queue q"
  using step
proof (cases rule: worker_recv_cases)
  case (1 j rest)
  have "lanes_jobs (lanes q') = lanes_jobs (lanes q)"
    using lanes_jobs_update [OF 1(1), of "(lanes q ! i)\<lparr>lane_buf := rest, lane_held := Some j\<rparr>"] 1
    by (simp add: lane_jobs_def)
  with 1(5) show ?thesis by (simp add: abs_queue_def waiting_jobs_def running_jobs_def)
qed

lemma worker_spawn_cases:
  assumes "worker_spawn i q = Some q'"
  obtains j where "i < length (lanes q)" "0 < lane_free (lanes q ! i)" "lane_held (lanes q ! i) = Some j"
    "q' = (update_lane i (\<lambda>l. l\<lparr>lane_held := None, lane_free := lane_free l - 1\<rparr>) q)
       \<lparr>tasks := tasks q @ [\<lparr>task_id = next_task q, task_lane = i, task_job = j, task_phase = Spawned\<rparr>],
        next_task := Suc (next_task q)\<rparr>"
  using assms by (auto simp: worker_spawn_def Let_def split: if_splits option.splits)

lemma abs_worker_spawn:
  assumes step: "worker_spawn i q = Some q'"
  shows "abs_queue q' = abs_queue q"
  using step
proof (cases rule: worker_spawn_cases)
  case (1 j)
  have "add_mset j (lanes_jobs (lanes q')) = lanes_jobs (lanes q)"
    using lanes_jobs_update [OF 1(1), of "(lanes q ! i)\<lparr>lane_held := None, lane_free := lane_free (lanes q ! i) - 1\<rparr>"] 1
    by (simp add: lane_jobs_def)
  with 1(4) show ?thesis by (simp add: abs_queue_def waiting_jobs_def running_jobs_def)
qed

lemma task_start_cases:
  assumes wf: "queue_wf q" and step: "task_start t q = Some q'"
  obtains u as bs where "tasks q = as @ u # bs" "task_phase u = Spawned" "task_id u = t"
    "tasks q' = as @ u\<lparr>task_phase := Running\<rparr> # bs"
    "q' = set_phase t Running (q\<lparr>statemap := (statemap q)(job_key (task_job u) \<mapsto> SProcessing)\<rparr>)"
proof -
  obtain u where u: "find_task t q = Some u" "task_phase u = Spawned"
      "q' = set_phase t Running (q\<lparr>statemap := (statemap q)(job_key (task_job u) \<mapsto> SProcessing)\<rparr>)"
    using step by (auto simp: task_start_def split: option.splits if_splits)
  from find_task_split [OF queue_wfD(4) [OF wf] u(1)] obtain as bs where
    s: "tasks q = as @ u # bs" "task_id u = t" "\<forall>v \<in> set as \<union> set bs. task_id v \<noteq> t" .
  then show ?thesis using that [OF s(1) u(2) s(2) _ u(3)] u(3) by (simp add: set_phase_tasks)
qed

lemma abs_task_start:
  assumes wf: "queue_wf q" and step: "task_start t q = Some q'"
  shows "(key_step False)\<^sup>*\<^sup>* (abs_queue q) (abs_queue q')"
  using wf step
proof (cases rule: task_start_cases)
  case (1 u as bs)
  have w: "waiting_jobs q = add_mset (task_job u) (waiting_jobs q')"
    "running_jobs q' = add_mset (task_job u) (running_jobs q)"
    using 1 by (simp_all add: waiting_jobs_def running_jobs_def)
  then have "task_job u \<in># ks_waiting (abs_queue q)" by (simp add: abs_queue_def)
  note key_step.begin_body [OF this]
  then have "key_step False (abs_queue q) (abs_queue q')"
    using w 1(5) by (simp add: abs_queue_def)
  then show ?thesis by simp
qed

lemma task_finish_cases:
  assumes wf: "queue_wf q" and step: "task_finish t r q = Some q'"
  obtains u as bs where "tasks q = as @ u # bs" "task_phase u = Running" "task_id u = t"
    "tasks q' = as @ u\<lparr>task_phase := Recorded (guard_outcome r)\<rparr> # bs"
    "q' = set_phase t (Recorded (guard_outcome r))
       (q\<lparr>statemap := (statemap q)(job_key (task_job u) \<mapsto> state_of_outcome (guard_outcome r))\<rparr>)"
proof -
  obtain u where u: "find_task t q = Some u" "task_phase u = Running"
      "q' = set_phase t (Recorded (guard_outcome r))
         (q\<lparr>statemap := (statemap q)(job_key (task_job u) \<mapsto> state_of_outcome (guard_outcome r))\<rparr>)"
    using step by (auto simp: task_finish_def split: option.splits if_splits)
  from find_task_split [OF queue_wfD(4) [OF wf] u(1)] obtain as bs where
    s: "tasks q = as @ u # bs" "task_id u = t" "\<forall>v \<in> set as \<union> set bs. task_id v \<noteq> t" .
  then show ?thesis using that [OF s(1) u(2) s(2) _ u(3)] u(3) by (simp add: set_phase_tasks)
qed

lemma abs_task_finish:
  assumes wf: "queue_wf q" and step: "task_finish t r q = Some q'"
  shows "(key_step False)\<^sup>*\<^sup>* (abs_queue q) (abs_queue q')"
  using wf step
proof (cases rule: task_finish_cases)
  case (1 u as bs)
  have w: "running_jobs q = add_mset (task_job u) (running_jobs q')" "waiting_jobs q' = waiting_jobs q"
    using 1 by (simp_all add: waiting_jobs_def running_jobs_def)
  then have "task_job u \<in># ks_running (abs_queue q)" by (simp add: abs_queue_def)
  note key_step.finish_body [OF this, where oc = "guard_outcome r"]
  then have "key_step False (abs_queue q) (abs_queue q')"
    using w 1(5) by (simp add: abs_queue_def)
  then show ?thesis by simp
qed

lemma task_notify_cases:
  assumes wf: "queue_wf q" and step: "task_notify t q = Some q'"
  obtains u oc as bs where "tasks q = as @ u # bs" "task_phase u = Recorded oc" "task_id u = t"
    "tasks q' = as @ u\<lparr>task_phase := Notified\<rparr> # bs"
    "q' = set_phase t Notified
       (q\<lparr>oneshots := set_oneshots (waiters_of (job_key (task_job u)) q) (Resolved oc) (oneshots q),
          waiters := (waiters q)(job_key (task_job u) := None)\<rparr>)"
proof -
  obtain u oc where u: "find_task t q = Some u" "task_phase u = Recorded oc"
      "q' = set_phase t Notified
         (q\<lparr>oneshots := set_oneshots (waiters_of (job_key (task_job u)) q) (Resolved oc) (oneshots q),
            waiters := (waiters q)(job_key (task_job u) := None)\<rparr>)"
    using step by (auto simp: task_notify_def Let_def split: option.splits phase.splits)
  from find_task_split [OF queue_wfD(4) [OF wf] u(1)] obtain as bs where
    s: "tasks q = as @ u # bs" "task_id u = t" "\<forall>v \<in> set as \<union> set bs. task_id v \<noteq> t" .
  then show ?thesis using that [OF s(1) u(2) s(2) _ u(3)] u(3) by (simp add: set_phase_tasks)
qed

lemma abs_task_notify:
  assumes wf: "queue_wf q" and step: "task_notify t q = Some q'"
  shows "abs_queue q' = abs_queue q"
  using wf step
proof (cases rule: task_notify_cases)
  case (1 u oc as bs)
  then show ?thesis by (simp add: abs_queue_def waiting_jobs_def running_jobs_def)
qed

lemma task_exit_cases:
  assumes wf: "queue_wf q" and step: "task_exit t q = Some q'"
  obtains u as bs where "tasks q = as @ u # bs" "task_phase u = Notified" "task_id u = t"
    "tasks q' = as @ bs"
    "q' = (update_lane (task_lane u) (\<lambda>l. l\<lparr>lane_free := Suc (lane_free l)\<rparr>) q)\<lparr>tasks := as @ bs\<rparr>"
proof -
  obtain u where u: "find_task t q = Some u" "task_phase u = Notified"
      "q' = (update_lane (task_lane u) (\<lambda>l. l\<lparr>lane_free := Suc (lane_free l)\<rparr>) q)
         \<lparr>tasks := filter (\<lambda>v. task_id v \<noteq> t) (tasks q)\<rparr>"
    using step by (auto simp: task_exit_def Let_def split: option.splits if_splits)
  from find_task_split [OF queue_wfD(4) [OF wf] u(1)] obtain as bs where
    s: "tasks q = as @ u # bs" "task_id u = t" "\<forall>v \<in> set as \<union> set bs. task_id v \<noteq> t" .
  then have "filter (\<lambda>v. task_id v \<noteq> t) (tasks q) = as @ bs" by (simp add: filter_id_conv)
  with s u show ?thesis using that [OF s(1) u(2) s(2)] by simp
qed

lemma lanes_jobs_free:
  "i < length ls \<Longrightarrow> lanes_jobs (ls[i := (ls ! i)\<lparr>lane_free := n\<rparr>]) = lanes_jobs ls"
  using lanes_jobs_update [of i ls "(ls ! i)\<lparr>lane_free := n\<rparr>"] by (simp add: lane_jobs_def)

lemma abs_task_exit:
  assumes wf: "queue_wf q" and step: "task_exit t q = Some q'"
  shows "abs_queue q' = abs_queue q"
  using wf step
proof (cases rule: task_exit_cases)
  case (1 u as bs)
  have "task_lane u < length (lanes q)" using queue_wfD(1,6) [OF wf] 1(1) by simp
  with 1 show ?thesis
    by (simp add: abs_queue_def waiting_jobs_def running_jobs_def lanes_jobs_free)
qed

lemma abs_lane_close:
  assumes step: "lane_close i q = Some q'"
  shows "(key_step True)\<^sup>*\<^sup>* (abs_queue q) (abs_queue q')"
proof -
  from step have i: "i < length (lanes q)"
    and q': "q' = update_lane i (\<lambda>l. l\<lparr>lane_open := False, lane_buf := [], lane_held := None\<rparr>) q"
    by (auto simp: lane_close_def split: if_splits)
  have "lanes_jobs (lanes q') + mset (lane_jobs (lanes q ! i)) = lanes_jobs (lanes q)"
    using lanes_jobs_update [OF i, of "(lanes q ! i)\<lparr>lane_open := False, lane_buf := [], lane_held := None\<rparr>"] q'
    by (simp add: lane_jobs_def)
  then have "lanes_jobs (lanes q') \<subseteq># lanes_jobs (lanes q)" by (metis mset_subset_eq_add_left)
  then have "waiting_jobs q' \<subseteq># waiting_jobs q" using q' by (simp add: waiting_jobs_def)
  then have "key_step True (abs_queue q) ((abs_queue q)\<lparr>ks_waiting := waiting_jobs q'\<rparr>)"
    by (intro key_step.abandon) (simp_all add: abs_queue_def)
  then show ?thesis using q' by (simp add: abs_queue_def running_jobs_def)
qed

lemma abs_qexec:
  assumes "queue_wf q" and "qexec l q = Some q'"
  shows "(key_step (is_LClose l))\<^sup>*\<^sup>* (abs_queue q) (abs_queue q')"
  using assms
  by (cases l)
    (auto simp: abs_worker_recv abs_worker_spawn abs_task_notify abs_task_exit
      intro: abs_push_claim abs_push_send abs_push_drop abs_task_start abs_task_finish abs_lane_close)

end
