(* ===== verification/QueueSafety.thy ===== *)
theory QueueSafety
  imports QueueRefinement
begin

text \<open>
  The invariants of the queue that go beyond the key contract: its structure (lane bounds, permits),
  and the registration of every unanswered handle.  Each is shown to be kept by every atomic
  operation, and the locales of \<open>Transition\<close> are interpreted on the queue's step function.
\<close>

section \<open>The structural invariant is kept\<close>

lemma lane_okD:
  assumes "lane_ok ts i l"
  shows "length (lane_buf l) \<le> unat (capacity (lane_config l))"
    and "lane_free l + length (filter (\<lambda>u. task_lane u = i) ts) = unat (permits (lane_config l))"
  using assms by (simp_all add: lane_ok_def)

lemma queue_wf_update_lanes:
  assumes wf: "queue_wf q" and i: "i < priority_count" and l: "lane_ok ts i l"
    and others: "\<And>n. n < priority_count \<Longrightarrow> n \<noteq> i \<Longrightarrow> lane_ok (tasks q) n (lanes q ! n) \<Longrightarrow> lane_ok ts n (lanes q ! n)"
    and n: "n < length ((lanes q)[i := l])"
  shows "lane_ok ts n ((lanes q)[i := l] ! n)"
  using queue_wfD(1,7) [OF wf] i l n others by (cases "n = i") auto

lemma queue_wf_push_claim: "queue_wf q \<Longrightarrow> queue_wf (snd (push_claim j q))"
proof (cases rule: push_claim_cases [of q j])
  case (fresh q')
  assume wf: "queue_wf q"
  then have "length (oneshots q) \<notin> fst ` set (pushes q)"
    by (auto simp: queue_wf_def)
  with wf fresh show ?thesis by (auto simp: queue_wf_def less_SucI)
qed (auto simp: queue_wf_def less_SucI)

lemma queue_wf_push_send:
  assumes wf: "queue_wf q" and step: "push_send rx q = Some (r, q')"
  shows "queue_wf q'"
  using wf step
proof (cases rule: push_send_cases)
  case (sent j as bs)
  let ?i = "priority_index (job_priority j)"
  have "lane_ok (tasks q) ?i (lane_buf_update (\<lambda>b. b @ [j]) (lanes q ! ?i))"
    using queue_wfD(7) [OF wf, of ?i] sent(4) by (simp add: lane_ok_def)
  then have "lane_ok (tasks q) n (lanes q' ! n)" if "n < length (lanes q')" for n
    using that queue_wf_update_lanes [OF wf, of ?i] unfolding sent(5) by simp
  then show ?thesis using wf sent(1) unfolding queue_wf_def sent(6) unfolding sent(5) by auto
next
  case (refused j as bs)
  then show ?thesis using wf unfolding queue_wf_def refused(5) unfolding refused(4) by auto
qed

lemma queue_wf_push_drop:
  assumes wf: "queue_wf q" and step: "push_drop rx q = Some q'"
  shows "queue_wf q'"
  using wf step
proof (cases rule: push_drop_cases)
  case (1 j as bs)
  then show ?thesis using wf unfolding queue_wf_def 1(3) unfolding 1(2) by auto
qed

lemma queue_wf_change_lane:
  assumes wf: "queue_wf q" and i: "i < length (lanes q)" and l: "lane_ok (tasks q) i l"
  shows "queue_wf (q\<lparr>lanes := (lanes q)[i := l]\<rparr>)"
proof -
  have "lane_ok (tasks q) n ((lanes q)[i := l] ! n)" if "n < length ((lanes q)[i := l])" for n
    using queue_wf_update_lanes [OF wf _ l _ that] i queue_wfD(1) [OF wf] by simp
  then show ?thesis using wf unfolding queue_wf_def by simp
qed

lemma queue_wf_worker_recv:
  assumes wf: "queue_wf q" and step: "worker_recv i q = Some q'"
  shows "queue_wf q'"
  using step
proof (cases rule: worker_recv_cases)
  case (1 j rest)
  have "lane_ok (tasks q) i ((lanes q ! i)\<lparr>lane_buf := rest, lane_held := Some j\<rparr>)"
    using queue_wfD(1) [OF wf] queue_wfD(7) [OF wf, of i] 1 by (simp add: lane_ok_def)
  then show ?thesis using queue_wf_change_lane [OF wf 1(1)] 1(5) by (simp add: update_lane_def)
qed

lemma queue_wf_lane_close:
  assumes wf: "queue_wf q" and step: "lane_close i q = Some q'"
  shows "queue_wf q'"
proof -
  from step have i: "i < length (lanes q)"
    and q': "q' = update_lane i (\<lambda>l. l\<lparr>lane_open := False, lane_buf := [], lane_held := None\<rparr>) q"
    by (auto simp: lane_close_def split: if_splits)
  have "lane_ok (tasks q) i ((lanes q ! i)\<lparr>lane_open := False, lane_buf := [], lane_held := None\<rparr>)"
    using queue_wfD(1,7) [OF wf] i by (auto simp: lane_ok_def)
  then show ?thesis using queue_wf_change_lane [OF wf i] q' by (simp add: update_lane_def)
qed

lemma queue_wf_worker_spawn:
  assumes wf: "queue_wf q" and step: "worker_spawn i q = Some q'"
  shows "queue_wf q'"
  using step
proof (cases rule: worker_spawn_cases)
  case (1 j)
  let ?ts = "tasks q @ [\<lparr>task_id = next_task q, task_lane = i, task_job = j, task_phase = Spawned\<rparr>]"
  have i: "i < priority_count" using 1(1) queue_wfD(1) [OF wf] by simp
  have "lane_ok ?ts i ((lanes q ! i)\<lparr>lane_held := None, lane_free := lane_free (lanes q ! i) - 1\<rparr>)"
    using queue_wfD(7) [OF wf i] 1(2) by (auto simp: lane_ok_def)
  then have "lane_ok ?ts n (lanes q' ! n)" if "n < length (lanes q')" for n
    using that queue_wf_update_lanes [OF wf i, of ?ts] 1(4) by (simp add: lane_ok_def)
  moreover have "next_task q \<notin> task_id ` set (tasks q)" using queue_wfD(5) [OF wf] by fastforce
  ultimately show ?thesis
    using wf 1(4) i by (auto simp: queue_wf_def less_SucI)
qed

lemma count_lane_map:
  "length (filter (\<lambda>u. task_lane u = i) ts) = length (filter (\<lambda>x. x = i) (map task_lane ts))"
  by (induction ts) auto

lemma lane_ok_same_lanes:
  assumes "map task_lane ts = map task_lane ts'" and "lane_ok ts i l"
  shows "lane_ok ts' i l"
  using assms(2) unfolding lane_ok_def count_lane_map assms(1) .

lemma queue_wf_set_phase: "queue_wf q \<Longrightarrow> queue_wf (set_phase t ph q)"
proof -
  assume wf: "queue_wf q"
  have same: "map task_lane (tasks (set_phase t ph q)) = map task_lane (tasks q)"
    "map task_id (tasks (set_phase t ph q)) = map task_id (tasks q)"
    by (simp_all add: set_phase_def)
  have "\<forall>u \<in> set (tasks (set_phase t ph q)). task_id u < next_task q \<and> task_lane u < priority_count"
    using wf by (auto simp: queue_wf_def set_phase_def)
  then show ?thesis
    using wf lane_ok_same_lanes [OF same(1) [symmetric]] same(2) by (auto simp: queue_wf_def)
qed

lemma queue_wf_statemap [simp]:
  "queue_wf (q\<lparr>statemap := m\<rparr>) \<longleftrightarrow> queue_wf q" "queue_wf (q\<lparr>waiters := w\<rparr>) \<longleftrightarrow> queue_wf q"
  by (simp_all add: queue_wf_def)

lemma queue_wf_oneshots:
  "length os = length (oneshots q) \<Longrightarrow> queue_wf (q\<lparr>oneshots := os\<rparr>) \<longleftrightarrow> queue_wf q"
  by (simp add: queue_wf_def)

lemma queue_wf_task_exit:
  assumes wf: "queue_wf q" and step: "task_exit t q = Some q'"
  shows "queue_wf q'"
  using wf step
proof (cases rule: task_exit_cases)
  case (1 u as bs)
  let ?i = "task_lane u"
  have i: "?i < priority_count" using queue_wfD(6) [OF wf] 1(1) by simp
  have "lane_ok (as @ bs) ?i ((lanes q ! ?i)\<lparr>lane_free := Suc (lane_free (lanes q ! ?i))\<rparr>)"
    using queue_wfD(7) [OF wf i] 1(1) by (auto simp: lane_ok_def)
  then have "lane_ok (as @ bs) n (lanes q' ! n)" if "n < length (lanes q')" for n
    using that queue_wf_update_lanes [OF wf i, of "as @ bs"] 1(1,5) by (auto simp: lane_ok_def)
  then show ?thesis using wf 1 by (auto simp: queue_wf_def)
qed

lemma queue_wf_qexec:
  assumes wf: "queue_wf q" and step: "qexec l q = Some q'"
  shows "queue_wf q'"
proof (cases l)
  case (LStart t)
  with step have "task_start t q = Some q'" by simp
  with wf show ?thesis
    by (cases rule: task_start_cases) (use wf in \<open>auto simp: queue_wf_set_phase\<close>)
next
  case (LFinish t r)
  with step have "task_finish t r q = Some q'" by simp
  with wf show ?thesis
    by (cases rule: task_finish_cases) (use wf in \<open>auto simp: queue_wf_set_phase\<close>)
next
  case (LNotify t)
  with step have "task_notify t q = Some q'" by simp
  with wf show ?thesis
    by (cases rule: task_notify_cases) (use wf in \<open>auto simp: queue_wf_set_phase queue_wf_oneshots\<close>)
qed (use wf step in \<open>auto intro: queue_wf_push_claim queue_wf_push_send queue_wf_push_drop
       queue_wf_worker_recv queue_wf_worker_spawn queue_wf_task_exit queue_wf_lane_close\<close>)

section \<open>Every unanswered handle is registered\<close>

definition registered_ok :: "queue \<Rightarrow> bool" where
  "registered_ok q \<longleftrightarrow>
     (\<forall>k. \<forall>rx \<in> set (waiters_of k q). rx < length (oneshots q) \<and> oneshots q ! rx = Unresolved) \<and>
     (\<forall>k k' rx. rx \<in> set (waiters_of k q) \<longrightarrow> rx \<in> set (waiters_of k' q) \<longrightarrow> k = k') \<and>
     (\<forall>rx < length (oneshots q). oneshots q ! rx = Unresolved \<longrightarrow> (\<exists>k. rx \<in> set (waiters_of k q)))"

definition recorded :: "key \<Rightarrow> queue \<Rightarrow> bool" where
  "recorded k q \<longleftrightarrow> (\<exists>u \<in> set (tasks q). job_key (task_job u) = k \<and> (\<exists>oc. task_phase u = Recorded oc))"

definition waited_ok :: "queue \<Rightarrow> bool" where
  "waited_ok q \<longleftrightarrow> (\<forall>k. waiters_of k q \<noteq> [] \<longrightarrow> claimed (statemap q k) \<or> recorded k q)"

lemma waiters_of_simps [simp]:
  "waiters_of k (q\<lparr>statemap := m\<rparr>) = waiters_of k q"
  "waiters_of k (q\<lparr>oneshots := os\<rparr>) = waiters_of k q"
  "waiters_of k (q\<lparr>pushes := ps\<rparr>) = waiters_of k q"
  "waiters_of k (q\<lparr>tasks := ts\<rparr>) = waiters_of k q"
  "waiters_of k (q\<lparr>next_task := nt\<rparr>) = waiters_of k q"
  "waiters_of k (set_phase t ph q) = waiters_of k q"
  "waiters_of k (update_lane i f q) = waiters_of k q"
  "waiters_of k (remove_push rx q) = waiters_of k q"
  "waiters_of k (q\<lparr>waiters := (waiters q)(k' := None)\<rparr>) = (if k = k' then [] else waiters_of k q)"
  "waiters_of k (drop_waiters k' q) = (if k = k' then [] else waiters_of k q)"
  "waiters_of k (snd (add_waiter k' q)) =
     (if k = k' then waiters_of k q @ [length (oneshots q)] else waiters_of k q)"
  by (simp_all add: waiters_of_def)

lemma registered_ok_cong:
  assumes "oneshots q' = oneshots q" and "\<And>k. waiters_of k q' = waiters_of k q"
  shows "registered_ok q' \<longleftrightarrow> registered_ok q"
  by (simp add: registered_ok_def assms)

lemma registered_okD:
  assumes "registered_ok q"
  shows "rx \<in> set (waiters_of k q) \<Longrightarrow> rx < length (oneshots q)"
    and "rx \<in> set (waiters_of k q) \<Longrightarrow> oneshots q ! rx = Unresolved"
    and "rx \<in> set (waiters_of k q) \<Longrightarrow> rx \<in> set (waiters_of k' q) \<Longrightarrow> k = k'"
    and "rx < length (oneshots q) \<Longrightarrow> oneshots q ! rx = Unresolved \<Longrightarrow> \<exists>k. rx \<in> set (waiters_of k q)"
  using assms unfolding registered_ok_def by blast+

lemma registered_okI:
  assumes "\<And>k rx. rx \<in> set (waiters_of k q) \<Longrightarrow> rx < length (oneshots q)"
    and "\<And>k rx. rx \<in> set (waiters_of k q) \<Longrightarrow> oneshots q ! rx = Unresolved"
    and "\<And>k k' rx. rx \<in> set (waiters_of k q) \<Longrightarrow> rx \<in> set (waiters_of k' q) \<Longrightarrow> k = k'"
    and "\<And>rx. rx < length (oneshots q) \<Longrightarrow> oneshots q ! rx = Unresolved \<Longrightarrow> \<exists>k. rx \<in> set (waiters_of k q)"
  shows "registered_ok q"
  unfolding registered_ok_def by (intro conjI allI ballI impI; fact assms)

lemma registered_ok_add:
  assumes ok: "registered_ok q"
  shows "registered_ok (snd (add_waiter k q))"
proof (rule registered_okI)
  let ?q = "snd (add_waiter k q)" and ?n = "length (oneshots q)"
  fix k1 k2 rx
  have fresh: "?n \<notin> set (waiters_of k' q)" for k'
    using registered_okD(1) [OF ok] by blast
  {
    assume rx: "rx \<in> set (waiters_of k1 ?q)"
    then have cases: "rx = ?n \<and> k1 = k \<or> rx \<in> set (waiters_of k1 q)"
      by (auto split: if_splits)
    then show "rx < length (oneshots ?q)" using registered_okD(1) [OF ok] by fastforce
    show "oneshots ?q ! rx = Unresolved"
      using cases registered_okD(1,2) [OF ok] by (auto simp: nth_append)
    assume "rx \<in> set (waiters_of k2 ?q)"
    then have "rx = ?n \<and> k2 = k \<or> rx \<in> set (waiters_of k2 q)" by (auto split: if_splits)
    with cases fresh show "k1 = k2" using registered_okD(3) [OF ok] by blast
  next
    assume "rx < length (oneshots ?q)" and un: "oneshots ?q ! rx = Unresolved"
    then have "rx < ?n \<or> rx = ?n" by auto
    then show "\<exists>k'. rx \<in> set (waiters_of k' ?q)"
    proof
      assume "rx < ?n"
      with un obtain k' where "rx \<in> set (waiters_of k' q)"
        using registered_okD(4) [OF ok] by (auto simp: nth_append)
      then show ?thesis by (intro exI [of _ k']) auto
    qed (auto intro: exI [of _ k])
  }
qed

lemma registered_ok_remove:
  assumes ok: "registered_ok q" and v: "v \<noteq> Unresolved"
    and os: "oneshots q' = set_oneshots (waiters_of k q) v (oneshots q)"
    and ws: "\<And>k'. waiters_of k' q' = (if k' = k then [] else waiters_of k' q)"
  shows "registered_ok q'"
proof (rule registered_okI)
  fix k1 k2 rx
  {
    assume "rx \<in> set (waiters_of k1 q')"
    then have rx: "rx \<in> set (waiters_of k1 q)" "k1 \<noteq> k" by (auto simp: ws split: if_splits)
    then show "rx < length (oneshots q')" using registered_okD(1) [OF ok] by (simp add: os)
    have "rx \<notin> set (waiters_of k q)" using rx registered_okD(3) [OF ok] by blast
    then show "oneshots q' ! rx = Unresolved"
      using rx(1) registered_okD(1,2) [OF ok] by (simp add: os nth_set_oneshots)
    assume "rx \<in> set (waiters_of k2 q')"
    then show "k1 = k2" using rx registered_okD(3) [OF ok] by (auto simp: ws split: if_splits)
  next
    assume "rx < length (oneshots q')" and "oneshots q' ! rx = Unresolved"
    then have "rx < length (oneshots q)" "rx \<notin> set (waiters_of k q)" "oneshots q ! rx = Unresolved"
      using v by (auto simp: os nth_set_oneshots split: if_splits)
    then obtain k' where "rx \<in> set (waiters_of k' q)" "k' \<noteq> k"
      using registered_okD(4) [OF ok] by blast
    then show "\<exists>k'. rx \<in> set (waiters_of k' q')" by (intro exI [of _ k']) (simp add: ws)
  }
qed

text \<open>Each operation either leaves the registry alone, adds one handle, or answers one key.\<close>

lemma registered_ok_qexec:
  assumes wf: "queue_wf q" and ok: "registered_ok q" and step: "qexec l q = Some q'"
  shows "registered_ok q'"
proof (cases l)
  case (LPush j)
  with step have q': "q' = snd (push_claim j q)" by simp
  show ?thesis
  proof (cases rule: push_claim_cases [of q j])
    case (fresh q0)
    have "registered_ok (q\<lparr>statemap := (statemap q)(job_key j \<mapsto> SPending)\<rparr>)"
      using ok by (subst registered_ok_cong [of _ q]) auto
    then have "registered_ok q0" unfolding fresh(3) by (rule registered_ok_add)
    then show ?thesis unfolding q' fresh(4) by (subst registered_ok_cong [of _ q0]) auto
  qed (use ok q' in \<open>auto intro: registered_ok_add\<close>)
next
  case (LSend rx)
  with step obtain r where "push_send rx q = Some (r, q')" by auto
  with wf show ?thesis
  proof (cases rule: push_send_cases)
    case (sent j as bs)
    then show ?thesis using ok by (subst registered_ok_cong [of _ q]) auto
  next
    case (refused j as bs)
    show ?thesis
      unfolding refused(4)
      by (rule registered_ok_remove [OF ok, of SenderDropped _ "job_key j"]) simp_all
  qed
next
  case (LCancel rx)
  with step have "push_drop rx q = Some q'" by simp
  with wf show ?thesis
  proof (cases rule: push_drop_cases)
    case (1 j as bs)
    show ?thesis
      unfolding 1(2) by (rule registered_ok_remove [OF ok, of SenderDropped _ "job_key j"]) simp_all
  qed
next
  case (LNotify t)
  with step have "task_notify t q = Some q'" by simp
  with wf show ?thesis
  proof (cases rule: task_notify_cases)
    case (1 u oc as bs)
    show ?thesis
      unfolding 1(5)
      by (rule registered_ok_remove [OF ok, of "Resolved oc" _ "job_key (task_job u)"])
        (simp_all add: waiters_of_def)
  qed
next
  case (LRecv i)
  with step have "worker_recv i q = Some q'" by simp
  then show ?thesis
    by (cases rule: worker_recv_cases) (use ok in \<open>subst registered_ok_cong [of _ q]; simp\<close>)
next
  case (LSpawn i)
  with step have "worker_spawn i q = Some q'" by simp
  then show ?thesis
    by (cases rule: worker_spawn_cases) (use ok in \<open>subst registered_ok_cong [of _ q]; simp\<close>)
next
  case (LStart t)
  with step have "task_start t q = Some q'" by simp
  with wf show ?thesis
    by (cases rule: task_start_cases) (use ok in \<open>subst registered_ok_cong [of _ q]; simp\<close>)
next
  case (LFinish t r)
  with step have "task_finish t r q = Some q'" by simp
  with wf show ?thesis
    by (cases rule: task_finish_cases) (use ok in \<open>subst registered_ok_cong [of _ q]; simp\<close>)
next
  case (LExit t)
  with step have "task_exit t q = Some q'" by simp
  with wf show ?thesis
    by (cases rule: task_exit_cases) (use ok in \<open>subst registered_ok_cong [of _ q]; simp\<close>)
next
  case (LClose i)
  with step have "q' = update_lane i (\<lambda>l. l\<lparr>lane_open := False, lane_buf := [], lane_held := None\<rparr>) q"
    by (auto simp: lane_close_def split: if_splits)
  with ok show ?thesis by (subst registered_ok_cong [of _ q]) auto
qed

text \<open>
  A key that somebody waits on is claimed, or its outcome is recorded and about to be sent.
\<close>

lemma recorded_simps [simp]:
  "recorded k (q\<lparr>statemap := m\<rparr>) = recorded k q" "recorded k (q\<lparr>oneshots := os\<rparr>) = recorded k q"
  "recorded k (q\<lparr>pushes := ps\<rparr>) = recorded k q" "recorded k (q\<lparr>waiters := w\<rparr>) = recorded k q"
  "recorded k (update_lane i f q) = recorded k q" "recorded k (remove_push rx q) = recorded k q"
  "recorded k (drop_waiters k' q) = recorded k q" "recorded k (snd (add_waiter k' q)) = recorded k q"
  by (simp_all add: recorded_def)

lemma recorded_cong:
  "tasks q = as @ u # bs \<Longrightarrow> tasks q' = as @ u' # bs \<Longrightarrow> task_job u' = task_job u \<Longrightarrow>
     recorded k q \<Longrightarrow> (\<And>oc. task_phase u = Recorded oc \<Longrightarrow> job_key (task_job u) = k \<Longrightarrow> \<exists>oc. task_phase u' = Recorded oc)
     \<Longrightarrow> recorded k q'"
  by (auto simp: recorded_def)

lemma waited_okI:
  assumes "waited_ok q"
    and "\<And>k. waiters_of k q' \<noteq> [] \<Longrightarrow> waiters_of k q \<noteq> [] \<or> claimed (statemap q' k)"
    and "\<And>k. waiters_of k q' \<noteq> [] \<Longrightarrow> claimed (statemap q k) \<Longrightarrow> claimed (statemap q' k) \<or> recorded k q'"
    and "\<And>k. waiters_of k q' \<noteq> [] \<Longrightarrow> recorded k q \<Longrightarrow> recorded k q'"
  shows "waited_ok q'"
  using assms unfolding waited_ok_def by blast

lemma waited_ok_qexec:
  assumes wf: "queue_wf q" and ok: "waited_ok q" and step: "qexec l q = Some q'"
  shows "waited_ok q'"
proof (cases l)
  case (LPush j)
  with step have q': "q' = snd (push_claim j q)" by simp
  show ?thesis
  proof (cases rule: push_claim_cases [of q j])
    case (fresh q0)
    show ?thesis unfolding q' fresh(4) fresh(3) by (rule waited_okI [OF ok]) (auto split: if_splits)
  next
    case join
    with ok q' show ?thesis by (auto simp: waited_ok_def split: if_splits)
  qed (use ok q' in simp)
next
  case (LSend rx)
  with step obtain r where "push_send rx q = Some (r, q')" by auto
  with wf show ?thesis
  proof (cases rule: push_send_cases)
    case (sent j as bs)
    show ?thesis unfolding sent(5) by (rule waited_okI [OF ok]) auto
  next
    case (refused j as bs)
    show ?thesis unfolding refused(4) by (rule waited_okI [OF ok]) (auto split: if_splits)
  qed
next
  case (LCancel rx)
  with step have "push_drop rx q = Some q'" by simp
  with wf show ?thesis
  proof (cases rule: push_drop_cases)
    case (1 j as bs)
    show ?thesis unfolding 1(2) by (rule waited_okI [OF ok]) (auto split: if_splits)
  qed
next
  case (LRecv i)
  with step have "worker_recv i q = Some q'" by simp
  then show ?thesis
  proof (cases rule: worker_recv_cases)
    case (1 j rest)
    show ?thesis unfolding 1(5) by (rule waited_okI [OF ok]) auto
  qed
next
  case (LSpawn i)
  with step have "worker_spawn i q = Some q'" by simp
  then show ?thesis
  proof (cases rule: worker_spawn_cases)
    case (1 j)
    show ?thesis unfolding 1(4) by (rule waited_okI [OF ok]) (auto simp: recorded_def)
  qed
next
  case (LStart t)
  with step have "task_start t q = Some q'" by simp
  with wf show ?thesis
  proof (cases rule: task_start_cases)
    case (1 u as bs)
    have st: "statemap q' = (statemap q)(job_key (task_job u) \<mapsto> SProcessing)" using 1(5) by simp
    show ?thesis
      by (rule waited_okI [OF ok]) (use 1 st in \<open>auto intro: recorded_cong\<close>)
  qed
next
  case (LFinish t r)
  with step have "task_finish t r q = Some q'" by simp
  with wf show ?thesis
  proof (cases rule: task_finish_cases)
    case (1 u as bs)
    have st: "statemap q' = (statemap q)(job_key (task_job u) \<mapsto> state_of_outcome (guard_outcome r))"
      using 1(5) by simp
    have "recorded (job_key (task_job u)) q'" using 1(4) by (auto simp: recorded_def)
    then show ?thesis
      by (intro waited_okI [OF ok]) (use 1 st in \<open>auto intro: recorded_cong\<close>)
  qed
next
  case (LNotify t)
  with step have "task_notify t q = Some q'" by simp
  with wf show ?thesis
  proof (cases rule: task_notify_cases)
    case (1 u oc as bs)
    have ws: "waiters_of k q' = (if k = job_key (task_job u) then [] else waiters_of k q)" for k
      using 1(5) by (simp add: waiters_of_def)
    show ?thesis
    proof (rule waited_okI [OF ok])
      fix k
      assume k: "waiters_of k q' \<noteq> []"
      then show "waiters_of k q \<noteq> [] \<or> claimed (statemap q' k)" by (simp add: ws split: if_splits)
      show "claimed (statemap q k) \<Longrightarrow> claimed (statemap q' k) \<or> recorded k q'" using 1(5) by simp
      show "recorded k q \<Longrightarrow> recorded k q'"
        using recorded_cong [OF 1(1,4)] k by (auto simp: ws split: if_splits)
    qed
  qed
next
  case (LExit t)
  with step have "task_exit t q = Some q'" by simp
  with wf show ?thesis
  proof (cases rule: task_exit_cases)
    case (1 u as bs)
    have "recorded k q \<Longrightarrow> recorded k q'" for k using 1(1,2,4) by (auto simp: recorded_def)
    then show ?thesis by (intro waited_okI [OF ok]) (use 1(5) in auto)
  qed
next
  case (LClose i)
  with step have "q' = update_lane i (\<lambda>l. l\<lparr>lane_open := False, lane_buf := [], lane_held := None\<rparr>) q"
    by (auto simp: lane_close_def split: if_splits)
  with ok show ?thesis by (intro waited_okI [OF ok]) auto
qed

section \<open>The invariant of the queue\<close>

definition all_open :: "queue \<Rightarrow> bool" where
  "all_open q \<longleftrightarrow> list_all lane_open (lanes q)"

definition queue_inv :: "queue \<Rightarrow> bool" where
  "queue_inv q \<longleftrightarrow>
     queue_wf q \<and> key_inv (abs_queue q) \<and> (all_open q \<longrightarrow> key_backed (abs_queue q)) \<and>
     registered_ok q \<and> waited_ok q"

definition queue_init :: "queue \<Rightarrow> bool" where
  "queue_init q \<longleftrightarrow> (\<exists>tk b. length b = priority_count \<and> start tk b = Ok q)"

lemma start_eq:
  assumes "start tk b = Ok q"
  shows "q = \<lparr>statemap = Map.empty, waiters = Map.empty, oneshots = [], lanes = map new_lane b,
              pushes = [], tasks = [], next_task = 0, send_error_text = send_error_display tk\<rparr>"
  using assms by (simp add: start_def split: if_splits)

lemma lanes_jobs_new [simp]: "lanes_jobs (map new_lane b) = {#}"
  by (induction b) (simp_all add: new_lane_def lane_jobs_def)

lemma queue_inv_init: "queue_init q \<Longrightarrow> queue_inv q"
  unfolding queue_init_def
  by (auto dest!: start_eq simp: queue_inv_def queue_wf_def lane_ok_def new_lane_def key_inv_def
      key_backed_def abs_queue_def waiting_jobs_def running_jobs_def registered_ok_def waited_ok_def
      waiters_of_def)

text \<open>Whether a lane is open, and its sizes, change only when it is closed.\<close>

definition lane_static :: "lane \<Rightarrow> bool \<times> lane_config" where
  "lane_static l = (lane_open l, lane_config l)"

lemma map_lane_static_update:
  "(\<And>x. lane_static (f x) = lane_static x) \<Longrightarrow>
     map lane_static (ls[i := f (ls ! i)]) = map lane_static ls"
  by (cases "i < length ls") (simp_all add: map_update list_update_same_conv list_update_beyond)

lemma map_lane_static_updates:
  "map lane_static (ls[i := lane_buf_update f (ls ! i)]) = map lane_static ls"
  "map lane_static (ls[i := (ls ! i)\<lparr>lane_buf := b, lane_held := h\<rparr>]) = map lane_static ls"
  "map lane_static (ls[i := (ls ! i)\<lparr>lane_held := h, lane_free := n\<rparr>]) = map lane_static ls"
  "map lane_static (ls[i := (ls ! i)\<lparr>lane_free := n\<rparr>]) = map lane_static ls"
  by (simp_all add: map_lane_static_update [where f = "lane_buf_update f"]
      map_lane_static_update [where f = "\<lambda>l. l\<lparr>lane_buf := b, lane_held := h\<rparr>"]
      map_lane_static_update [where f = "\<lambda>l. l\<lparr>lane_held := h, lane_free := n\<rparr>"]
      map_lane_static_update [where f = "\<lambda>l. l\<lparr>lane_free := n\<rparr>"] lane_static_def)

lemma lanes_static_qexec:
  assumes wf: "queue_wf q" and step: "qexec l q = Some q'" and l: "\<not> is_LClose l"
  shows "map lane_static (lanes q') = map lane_static (lanes q)"
proof -
  show ?thesis
  proof (cases l)
    case (LPush j)
    then show ?thesis using step by (cases rule: push_claim_cases [of q j]) auto
  next
    case (LSend rx)
    with step obtain r where "push_send rx q = Some (r, q')" by auto
    with wf show ?thesis by (cases rule: push_send_cases) (simp_all add: map_lane_static_updates)
  next
    case (LCancel rx)
    with step have "push_drop rx q = Some q'" by simp
    with wf show ?thesis by (cases rule: push_drop_cases) simp
  next
    case (LRecv i)
    with step have "worker_recv i q = Some q'" by simp
    then show ?thesis by (cases rule: worker_recv_cases) (simp add: map_lane_static_updates)
  next
    case (LSpawn i)
    with step have "worker_spawn i q = Some q'" by simp
    then show ?thesis by (cases rule: worker_spawn_cases) (simp add: map_lane_static_updates)
  next
    case (LStart t)
    with step have "task_start t q = Some q'" by simp
    with wf show ?thesis by (cases rule: task_start_cases) simp
  next
    case (LFinish t r)
    with step have "task_finish t r q = Some q'" by simp
    with wf show ?thesis by (cases rule: task_finish_cases) simp
  next
    case (LNotify t)
    with step have "task_notify t q = Some q'" by simp
    with wf show ?thesis by (cases rule: task_notify_cases) simp
  next
    case (LExit t)
    with step have "task_exit t q = Some q'" by simp
    with wf show ?thesis by (cases rule: task_exit_cases) (simp add: map_lane_static_updates)
  qed (use l in simp)
qed

lemma all_open_static: "all_open q \<longleftrightarrow> list_all fst (map lane_static (lanes q))"
  by (simp add: all_open_def list.pred_map comp_def lane_static_def)

lemma all_open_qexec:
  assumes wf: "queue_wf q" and step: "qexec l q = Some q'" and op: "all_open q'"
  shows "all_open q \<and> \<not> is_LClose l"
proof (cases "is_LClose l")
  case True
  then obtain i where "i < length (lanes q')" "\<not> lane_open (lanes q' ! i)"
    using step by (cases l) (auto simp: lane_close_def split: if_splits)
  then show ?thesis using op by (auto simp: all_open_def list_all_length)
next
  case False
  then show ?thesis using lanes_static_qexec [OF wf step] op by (simp add: all_open_static)
qed

lemma queue_inv_qexec:
  assumes inv: "queue_inv q" and step: "qexec l q = Some q'"
  shows "queue_inv q'"
proof -
  have wf: "queue_wf q" and kinv: "key_inv (abs_queue q)" using inv by (simp_all add: queue_inv_def)
  have sim: "(key_step (is_LClose l))\<^sup>*\<^sup>* (abs_queue q) (abs_queue q')"
    using wf step by (rule abs_qexec)
  have "key_backed (abs_queue q')" if "all_open q'"
  proof -
    have "all_open q" "\<not> is_LClose l" using all_open_qexec [OF wf step that] by auto
    then show ?thesis using sim kinv inv key_steps_backed by (simp add: queue_inv_def)
  qed
  moreover have "key_inv (abs_queue q')" using sim kinv by (rule key_steps_inv)
  ultimately show ?thesis
    using inv step queue_wf_qexec registered_ok_qexec waited_ok_qexec
    unfolding queue_inv_def by blast
qed

interpretation queue_sys: simulation_system qexec queue_init queue_inv abs_queue "key_step True"
proof unfold_locales
  show "queue_inv s" if "queue_init s" for s using that by (rule queue_inv_init)
  show "queue_inv s'" if "queue_inv s" "qexec l s = Some s'" for s l s'
    using that by (rule queue_inv_qexec)
  show "(key_step True)\<^sup>*\<^sup>* (abs_queue s) (abs_queue s')" if "queue_inv s" "qexec l s = Some s'" for s l s'
  proof -
    have "(key_step (is_LClose l))\<^sup>*\<^sup>* (abs_queue s) (abs_queue s')"
      using that by (intro abs_qexec) (auto simp: queue_inv_def)
    then show ?thesis
      by (cases "is_LClose l") (auto elim: mono_rtranclp [rule_format, rotated] intro: key_step_mono)
  qed
qed

end
