(* ===== verification/EngineStore.thy ===== *)
theory EngineStore
  imports EngineLogic QueueSafety
begin

text \<open>
  The engine over a store that meets the log contract: what any action, its own or another task's,
  can do to the log of a workflow, and the rules of a program logic whose assertions speak only of
  that log and of the terminal lock.
\<close>

section \<open>Assertions on the log of a workflow\<close>

fun act_event :: "env_action \<Rightarrow> event option" where
  "act_event (EAppend e) = Some e"
| "act_event (ETerminal e) = Some e"
| "act_event a = None"

text \<open>No other task records an event of the workflow.\<close>

definition quiet :: "string \<Rightarrow> env_action \<Rightarrow> bool" where
  "quiet wid a = (case act_event a of None \<Rightarrow> True | Some e \<Rightarrow> event_workflow_id e \<noteq> wid)"

text \<open>A mounted workflow has one body per step.\<close>

definition mounts_ok :: "(string \<rightharpoonup> running_workflow) \<Rightarrow> bool" where
  "mounts_ok m \<longleftrightarrow>
     (\<forall>wid r. m wid = Some r \<longrightarrow> length (running_bodies r) = length (running_steps r))"

lemma mounts_ok_upd [simp]:
  "mounts_ok m \<Longrightarrow> mounts_ok (m(wid := None))"
  "mounts_ok m \<Longrightarrow> length (running_bodies r) = length (running_steps r) \<Longrightarrow> mounts_ok (m(wid \<mapsto> r))"
  by (auto simp: mounts_ok_def)

text \<open>The parts of the world are in order: the store, the clock, the mounts and the queue.\<close>

definition world_ok :: "('s \<Rightarrow> bool) \<Rightarrow> 's world \<Rightarrow> bool" where
  "world_ok invar w \<longleftrightarrow>
     invar (store w) \<and> clock_ok (wall w) \<and> mounts_ok (in_flight w) \<and> queue_inv (wqueue w)"

definition logged ::
    "('s \<Rightarrow> bool) \<Rightarrow> (string \<Rightarrow> 's \<Rightarrow> event list) \<Rightarrow> string \<Rightarrow> (bool \<Rightarrow> event list \<Rightarrow> bool) \<Rightarrow> 's world \<Rightarrow> bool" where
  "logged invar log wid p w \<longleftrightarrow>
     world_ok invar w \<and> p (terminal_locked w) (log wid (store w))"

lemma queue_inv_qstep: "queue_inv q \<Longrightarrow> queue_inv (qstep l q)"
  by (auto simp: qstep_def queue_inv_qexec split: option.splits)

definition ltriple ::
    "('s \<Rightarrow> bool) \<Rightarrow> (string \<Rightarrow> 's \<Rightarrow> event list) \<Rightarrow> (env_action \<Rightarrow> bool) \<Rightarrow> string
     \<Rightarrow> (bool \<Rightarrow> event list \<Rightarrow> bool) \<Rightarrow> ('a, 's) prog \<Rightarrow> ('a \<Rightarrow> bool \<Rightarrow> event list \<Rightarrow> bool)
     \<Rightarrow> (halt \<Rightarrow> bool \<Rightarrow> event list \<Rightarrow> bool) \<Rightarrow> bool" where
  "ltriple invar log ok wid p m n x \<longleftrightarrow>
     etriple ok (logged invar log wid p) m (\<lambda>a. logged invar log wid (n a))
       (\<lambda>h. logged invar log wid (x h))"

text \<open>
  What another task may record: any event of the kinds the rely condition admits, the locked ones
  only while the lock is free and the workflow has no terminal event yet.
\<close>

definition pstable :: "(env_action \<Rightarrow> bool) \<Rightarrow> string \<Rightarrow> (bool \<Rightarrow> event list \<Rightarrow> bool) \<Rightarrow> bool" where
  "pstable ok wid p \<longleftrightarrow>
     (\<forall>a e b l. ok a \<longrightarrow> act_event a = Some e \<longrightarrow> event_workflow_id e = wid \<longrightarrow> p b l \<longrightarrow>
        (locked_event e \<longrightarrow> \<not> b \<and> \<not> workflow_has_terminal_event l) \<longrightarrow> p b (l @ [e]))"

lemma pstable_quiet [simp]: "pstable (quiet wid) wid p"
  by (auto simp: pstable_def quiet_def)

lemma pstable_mono: "(\<And>b l l'. p b l \<Longrightarrow> p b (l @ l')) \<Longrightarrow> pstable ok wid p"
  by (auto simp: pstable_def)

definition exact :: "event list \<Rightarrow> bool \<Rightarrow> event list \<Rightarrow> bool" where
  "exact L b l \<longleftrightarrow> l = L"

section \<open>The logic\<close>

locale engine_on = durable_store ops invar log
  for ops :: "'s durable_ops" and invar and log +
  fixes E :: "'s engine"
  assumes engine_ops: "eng_ops E = ops"
begin

lemma append_step:
  assumes "invar s" and "append_event ops e now s = (r, s')"
  shows "invar s'" and "log w s' = log w s \<or> log w s' = log w s @ own_event w e"
proof -
  note law = append_law [OF assms]
  then show "invar s'" by simp
  from law show "log w s' = log w s \<or> log w s' = log w s @ own_event w e" by (cases r) auto
qed

text \<open>One action of another task.\<close>

lemma terminal_section_log:
  assumes "invar (store w)"
  shows "invar (store (terminal_section E e w)) \<and>
    (log wid (store (terminal_section E e w)) = log wid (store w) \<or>
     \<not> workflow_has_terminal_event (log (event_workflow_id e) (store w)) \<and>
     log wid (store (terminal_section E e w)) = log wid (store w) @ own_event wid e)"
proof -
  obtain rl s1 where rl: "load_events ops (event_workflow_id e) (store w) = (rl, s1)"
    by (metis prod.exhaust)
  obtain ra s2 where ra: "append_event ops e (wall w) s1 = (ra, s2)" by (metis prod.exhaust)
  from load_law [OF assms rl] append_step [OF _ ra] rl ra show ?thesis
    by (cases rl) (auto simp: terminal_section_def engine_ops)
qed

lemma env_act_simps [simp]:
  "terminal_locked (env_act E a w) = terminal_locked w"
  "clock_ok (wall w) \<Longrightarrow> clock_ok (wall (env_act E a w))"
  "mounts_ok (in_flight w) \<Longrightarrow> mounts_ok (in_flight (env_act E a w))"
  "queue_inv (wqueue w) \<Longrightarrow> queue_inv (wqueue (env_act E a w))"
  by (cases a; auto simp: terminal_section_def queue_inv_qstep split: prod.splits result.splits)+

lemma env_act_log:
  assumes ok: "invar (store w)" "clock_ok (wall w)"
  shows "invar (store (env_act E a w)) \<and>
    (log wid (store (env_act E a w)) = log wid (store w) \<or>
     (\<exists>e. act_event a = Some e \<and> event_workflow_id e = wid \<and>
        (locked_event e \<longrightarrow> \<not> terminal_locked w \<and> \<not> workflow_has_terminal_event (log wid (store w))) \<and>
        log wid (store (env_act E a w)) = log wid (store w) @ [e]))"
proof (cases a)
  case (EAppend e)
  obtain r s where r: "append_event ops e (wall w) (store w) = (r, s)" by (metis prod.exhaust)
  from append_step(1) [OF ok(1) r] append_step(2) [OF ok(1) r, of wid] EAppend r ok(1) show ?thesis
    by (auto simp: engine_ops own_event_def split: if_splits)
next
  case (ETerminal e)
  from terminal_section_log [OF ok(1), of e wid] ETerminal ok(1) show ?thesis
    by (cases "event_workflow_id e = wid") auto
next
  case (EClaim w' i v ttl)
  obtain r s where r: "claim_step ops w' i v ttl (wall w) (store w) = (r, s)" by (metis prod.exhaust)
  from claim_law [OF ok r] EClaim r show ?thesis by (simp add: engine_ops)
next
  case (ERenew w' i v ttl)
  obtain r s where r: "renew_lease ops w' i v ttl (wall w) (store w) = (r, s)" by (metis prod.exhaust)
  from renew_law [OF ok r] ERenew r show ?thesis by (simp add: engine_ops)
next
  case EExpired
  obtain r s where r: "expired_leases ops (wall w) (store w) = (r, s)" by (metis prod.exhaust)
  from expired_law [OF ok r] EExpired r show ?thesis by (simp add: engine_ops)
qed (use ok in auto)

lemma logged_stable: "pstable ok wid p \<Longrightarrow> estable E ok (logged invar log wid p)"
  unfolding estable_def
proof (intro allI impI)
  fix a w
  assume p: "pstable ok wid p" and a: "ok a" and w: "logged invar log wid p w"
  then have ok: "invar (store w)" "clock_ok (wall w)" and wok: "world_ok invar w"
    and pw: "p (terminal_locked w) (log wid (store w))"
    by (simp_all add: logged_def world_ok_def)
  note step = env_act_log [OF ok, of a wid]
  then have "world_ok invar (env_act E a w)" using wok by (simp add: world_ok_def)
  moreover have "p (terminal_locked w) (log wid (store (env_act E a w)))"
    using step
  proof (elim conjE disjE exE)
    fix e
    assume "act_event a = Some e" "event_workflow_id e = wid"
      "locked_event e \<longrightarrow> \<not> terminal_locked w \<and> \<not> workflow_has_terminal_event (log wid (store w))"
      "log wid (store (env_act E a w)) = log wid (store w) @ [e]"
    then show ?thesis using p a pw unfolding pstable_def by simp
  qed (simp add: pw)
  ultimately show "logged invar log wid p (env_act E a w)" by (simp add: logged_def)
qed

lemma logged_closed:
  "queue_closed (logged invar log wid p)" "renewal_closed (logged invar log wid p)"
  by (auto simp: queue_closed_def renewal_closed_def logged_def world_ok_def dest: queue_inv_qexec)

lemma lt_weaken:
  "ltriple invar log ok wid p m n x \<Longrightarrow> (\<And>b l. p' b l \<Longrightarrow> p b l) \<Longrightarrow> (\<And>a b l. n a b l \<Longrightarrow> n' a b l) \<Longrightarrow>
     (\<And>h b l. x h b l \<Longrightarrow> x' h b l) \<Longrightarrow> ltriple invar log ok wid p' m n' x'"
  unfolding ltriple_def by (erule et_weaken) (auto simp: logged_def)

lemma lt_ret: "(\<And>b l. p b l \<Longrightarrow> n a b l) \<Longrightarrow> ltriple invar log ok wid p (eret a) n x"
  unfolding ltriple_def by (rule et_ret) (simp add: logged_def)

lemma lt_err: "(\<And>b l. p b l \<Longrightarrow> x (HErr e) b l) \<Longrightarrow> ltriple invar log ok wid p (eerr e) n x"
  unfolding ltriple_def by (rule et_err) (simp add: logged_def)

lemma lt_panic: "(\<And>b l. p b l \<Longrightarrow> x HPanic b l) \<Longrightarrow> ltriple invar log ok wid p epanic n x"
  unfolding ltriple_def by (rule et_panic) (simp add: logged_def)

lemma lt_bind:
  "ltriple invar log ok wid p m r x \<Longrightarrow> (\<And>a. ltriple invar log ok wid (r a) (f a) n x) \<Longrightarrow>
     ltriple invar log ok wid p (ebind m f) n x"
  unfolding ltriple_def by (rule et_bind)

lemma lt_yield: "pstable ok wid p \<Longrightarrow> ltriple invar log ok wid p (eyield E) (\<lambda>_. p) x"
  unfolding ltriple_def by (rule et_yield [OF logged_stable])

lemma lt_store_call:
  assumes p: "pstable ok wid p"
    and f: "\<And>now s r s'. invar s \<Longrightarrow> clock_ok now \<Longrightarrow> f now s = (r, s') \<Longrightarrow>
      invar s' \<and> (\<forall>b. p b (log wid s) \<longrightarrow>
        returns (\<lambda>a. n a b (log wid s')) (\<forall>e. x (HErr (EngineStore e)) b (log wid s')) r)"
  shows "ltriple invar log ok wid p (store_call E f) n x"
  unfolding ltriple_def store_call_def
proof (rule et_atom [OF logged_stable [OF p]])
  fix w r w'
  assume w: "logged invar log wid p w"
    and run: "(case f (wall w) (store w) of
        (r, s) \<Rightarrow> (map_err engine_error_from_store r, w\<lparr>store := s\<rparr>)) = (r, w')"
  obtain r1 s where 1: "f (wall w) (store w) = (r1, s)" by (metis prod.exhaust)
  from f [OF _ _ 1] w run 1
  show "ends_atom (\<lambda>a. logged invar log wid (n a) w') (\<lambda>h. logged invar log wid (x h) w') r"
    by (cases r1) (auto simp: logged_def world_ok_def engine_error_from_store_def)
qed

lemma lt_append:
  assumes "pstable ok wid p" and "\<And>b l. p b l \<Longrightarrow> n () b (l @ own_event wid e)"
    and "\<And>err b l. p b l \<Longrightarrow> x (HErr (EngineStore err)) b l"
  shows "ltriple invar log ok wid p (store_append E e) n x"
  unfolding store_append_def engine_ops
proof (rule lt_store_call [OF assms(1)])
  fix now s r s'
  assume "invar s" "append_event ops e now s = (r, s')"
  from append_law [OF this] show "invar s' \<and> (\<forall>b. p b (log wid s) \<longrightarrow>
      returns (\<lambda>a. n a b (log wid s')) (\<forall>e. x (HErr (EngineStore e)) b (log wid s')) r)"
    using assms(2,3) by (cases r) auto
qed

lemma lt_load:
  assumes "pstable ok wid p" and "\<And>b l. p b l \<Longrightarrow> n l b l"
    and "\<And>err b l. p b l \<Longrightarrow> x (HErr (EngineStore err)) b l"
  shows "ltriple invar log ok wid p (store_load E wid) n x"
  unfolding store_load_def engine_ops
proof (rule lt_store_call [OF assms(1)])
  fix now s r s'
  assume "invar s" "load_events ops wid s = (r, s')"
  from load_law [OF this] show "invar s' \<and> (\<forall>b. p b (log wid s) \<longrightarrow>
      returns (\<lambda>a. n a b (log wid s')) (\<forall>e. x (HErr (EngineStore e)) b (log wid s')) r)"
    using assms(2,3) by (cases r) auto
qed

lemma lt_claim:
  assumes "pstable ok wid p"
    and "\<And>c b l. p b l \<Longrightarrow> (wid' = wid \<Longrightarrow> claim_backed wid i l c) \<Longrightarrow> n c b l"
    and "\<And>err b l. p b l \<Longrightarrow> x (HErr (EngineStore err)) b l"
  shows "ltriple invar log ok wid p (store_claim E wid' i) n x"
  unfolding store_claim_def engine_ops
proof (rule lt_store_call [OF assms(1)])
  fix now s r s'
  assume "invar s" "clock_ok now"
    "claim_step ops wid' i (eng_worker_id E) (eng_lease_ttl E) now s = (r, s')"
  from claim_law [OF this] show "invar s' \<and> (\<forall>b. p b (log wid s) \<longrightarrow>
      returns (\<lambda>a. n a b (log wid s')) (\<forall>e. x (HErr (EngineStore e)) b (log wid s')) r)"
    using assms(2,3) by (cases r) auto
qed

lemma lt_expired:
  assumes "pstable ok wid p" and "\<And>xs b l. p b l \<Longrightarrow> n xs b l"
    and "\<And>err b l. p b l \<Longrightarrow> x (HErr (EngineStore err)) b l"
  shows "ltriple invar log ok wid p (store_call E (expired_leases (eng_ops E))) n x"
  unfolding engine_ops
proof (rule lt_store_call [OF assms(1)])
  fix now s r s'
  assume "invar s" "clock_ok now" "expired_leases ops now s = (r, s')"
  from expired_law [OF this] show "invar s' \<and> (\<forall>b. p b (log wid s) \<longrightarrow>
      returns (\<lambda>a. n a b (log wid s')) (\<forall>e. x (HErr (EngineStore e)) b (log wid s')) r)"
    using assms(2,3) by (cases r) auto
qed

text \<open>Atomic actions on the other parts of the world.\<close>

lemma lt_atom:
  assumes "pstable ok wid p"
    and "\<And>w. snd (f w) = w\<lparr>in_flight := in_flight (snd (f w))\<rparr>"
    and "\<And>w. mounts_ok (in_flight w) \<Longrightarrow> mounts_ok (in_flight (snd (f w)))"
    and "\<And>w b l. mounts_ok (in_flight w) \<Longrightarrow> p b l \<Longrightarrow>
      ends_atom (\<lambda>a. n a b l) (\<lambda>h. x h b l) (fst (f w))"
  shows "ltriple invar log ok wid p (eatom E f) n x"
  unfolding ltriple_def
proof (rule et_atom [OF logged_stable [OF assms(1)]])
  fix w r w'
  assume w: "logged invar log wid p w" and run: "f w = (r, w')"
  then have r: "r = fst (f w)" "w' = w\<lparr>in_flight := in_flight w'\<rparr>" using assms(2) [of w] by simp_all
  have "terminal_locked w' = terminal_locked w" "store w' = store w" "wall w' = wall w"
    "wqueue w' = wqueue w"
    by (subst r(2), simp)+
  moreover have "mounts_ok (in_flight w')"
    using assms(3) [of w] w run by (simp add: logged_def world_ok_def)
  ultimately show "ends_atom (\<lambda>a. logged invar log wid (n a) w') (\<lambda>h. logged invar log wid (x h) w') r"
    using w r(1) assms(4) [of w "terminal_locked w" "log wid (store w)"]
    unfolding logged_def world_ok_def by (cases r) auto
qed

lemma lt_drop_from_in_flight:
  "pstable ok wid p \<Longrightarrow> (\<And>b l. p b l \<Longrightarrow> n () b l) \<Longrightarrow>
     ltriple invar log ok wid p (drop_from_in_flight E wid') n x"
  unfolding drop_from_in_flight_def by (rule lt_atom) auto

lemma lt_mounted:
  "pstable ok wid p \<Longrightarrow> (\<And>steps bodies b l. length bodies = length steps \<Longrightarrow> p b l \<Longrightarrow> n (steps, bodies) b l) \<Longrightarrow>
     (\<And>b l. p b l \<Longrightarrow> x (HErr (EngineStore NotFound)) b l) \<Longrightarrow>
     ltriple invar log ok wid p (mounted_steps_and_bodies E wid') n x"
  unfolding mounted_steps_and_bodies_def
  by (rule lt_atom) (auto simp: mounts_ok_def split: option.splits)

lemma lt_in_flight:
  "pstable ok wid p \<Longrightarrow> (\<And>b l. p b l \<Longrightarrow> n None b l) \<Longrightarrow>
     (\<And>r b l. length (running_bodies r) = length (running_steps r) \<Longrightarrow> p b l \<Longrightarrow> n (Some r) b l) \<Longrightarrow>
     ltriple invar log ok wid p (eatom E (\<lambda>w. (Ok (in_flight w wid'), w))) n x"
proof (rule lt_atom)
  fix w b l
  assume "mounts_ok (in_flight w)" "p b l" "\<And>b l. p b l \<Longrightarrow> n None b l"
    "\<And>r b l. length (running_bodies r) = length (running_steps r) \<Longrightarrow> p b l \<Longrightarrow> n (Some r) b l"
  then show "ends_atom (\<lambda>a. n a b l) (\<lambda>h. x h b l) (fst (Ok (in_flight w wid'), w))"
    by (cases "in_flight w wid'") (auto simp: mounts_ok_def)
qed auto

lemma lt_register:
  "pstable ok wid p \<Longrightarrow> (\<And>b l. p b l \<Longrightarrow> n () b l) \<Longrightarrow>
     (\<And>m b l. p b l \<Longrightarrow> x (HErr (EngineStore (Backend m))) b l) \<Longrightarrow>
     ltriple invar log ok wid p (register_workflow E wflow bodies) n x"
  unfolding register_workflow_def
  by (cases "length bodies = length (workflow_steps wflow)") (auto intro!: lt_err lt_atom)

text \<open>Loading the log of any workflow.\<close>

lemma lt_load_any:
  assumes "pstable ok wid p" and "\<And>es b l. p b l \<Longrightarrow> n es b l"
    and "\<And>err b l. p b l \<Longrightarrow> x (HErr (EngineStore err)) b l"
  shows "ltriple invar log ok wid p (store_load E wid') n x"
  unfolding store_load_def engine_ops
proof (rule lt_store_call [OF assms(1)])
  fix now s r s'
  assume "invar s" "load_events ops wid' s = (r, s')"
  from load_law [OF this] show "invar s' \<and> (\<forall>b. p b (log wid s) \<longrightarrow>
      returns (\<lambda>a. n a b (log wid s')) (\<forall>e. x (HErr (EngineStore e)) b (log wid s')) r)"
    using assms(2,3) by (cases r) auto
qed

lemma lt_lock:
  assumes "pstable ok wid p" and "\<And>b l. p b l \<Longrightarrow> q True l"
    and "ltriple invar log ok wid q m (\<lambda>a b l. n a False l) (\<lambda>h b l. x h False l)"
  shows "ltriple invar log ok wid p (with_terminal_lock E m) n x"
  unfolding ltriple_def
proof (rule et_lock [OF logged_stable [OF assms(1)], where Q = "logged invar log wid q"])
  show "etriple ok (logged invar log wid q) m
      (\<lambda>a w. logged invar log wid (n a) (w\<lparr>terminal_locked := False\<rparr>))
      (\<lambda>h w. logged invar log wid (x h) (w\<lparr>terminal_locked := False\<rparr>))"
    using assms(3) unfolding ltriple_def by (rule et_weaken) (auto simp: logged_def world_ok_def)
qed (use assms(2) in \<open>auto simp: logged_def world_ok_def\<close>)

lemma lt_or_drop:
  assumes "ltriple invar log ok wid p m n x" and "\<And>e. pstable ok wid (x (HErr e))"
  shows "ltriple invar log ok wid p (or_drop E wid' m) n x"
  unfolding ltriple_def
proof (rule et_or_drop [where R = "\<lambda>e. logged invar log wid (x (HErr e))"])
  show "etriple ok (logged invar log wid p) m (\<lambda>a. logged invar log wid (n a))
      (\<lambda>h w. case h of HErr e \<Rightarrow> logged invar log wid (x (HErr e)) w
        | HPanic \<Rightarrow> logged invar log wid (x h) w | HBlocked \<Rightarrow> logged invar log wid (x h) w)"
    using assms(1) unfolding ltriple_def by (rule et_weaken) (auto split: halt.splits)
qed (auto intro: logged_stable assms(2) simp: logged_def world_ok_def)

lemma lt_sleep:
  "pstable ok wid p \<Longrightarrow> (\<And>b l. p b l \<Longrightarrow> x HBlocked b l) \<Longrightarrow>
     ltriple invar log ok wid p (sleep E d) (\<lambda>_. p) x"
  unfolding ltriple_def by (rule et_sleep [OF logged_stable]) (auto simp: logged_def)

lemma lt_push:
  "pstable ok wid p \<Longrightarrow> (\<And>b l. p b l \<Longrightarrow> x HBlocked b l) \<Longrightarrow>
     (\<And>e b l. p b l \<Longrightarrow> x (HErr (EnginePush e)) b l) \<Longrightarrow>
     ltriple invar log ok wid p (epush E j) (\<lambda>_. p) x"
  unfolding ltriple_def by (rule et_push [OF logged_stable logged_closed(1)]) (auto simp: logged_def)

lemma lt_await:
  assumes "pstable ok wid p" and "\<And>b l. p b l \<Longrightarrow> x HBlocked b l"
    and "\<And>b l. p b l \<Longrightarrow> x (HErr (EngineJobLost JobLost)) b l"
  shows "ltriple invar log ok wid p (await_job_renewing_lease E wid' i rx timeout) (\<lambda>_. p) x"
  unfolding ltriple_def
proof (rule et_await [OF logged_stable [OF assms(1)] logged_closed(2)])
  fix w r s
  assume w: "logged invar log wid p w"
    and run: "renew_lease (eng_ops E) wid' i (eng_worker_id E) (eng_lease_ttl E) (wall w) (store w) = (r, s)"
  then have "invar (store w)" "clock_ok (wall w)" by (simp_all add: logged_def world_ok_def)
  from renew_law [OF this run [unfolded engine_ops]] w
  show "r \<noteq> Panic \<and> logged invar log wid p (w\<lparr>store := s\<rparr>)" by (auto simp: logged_def world_ok_def)
qed (use assms in \<open>auto simp: logged_def\<close>)

end

end
