(* ===== verification/EngineSafety.thy ===== *)
theory EngineSafety
  imports EngineStore
begin

text \<open>
  What every call of the engine keeps of a workflow's log, whatever the other tasks do: assertions
  that survive each event the engine records without the terminal lock hold throughout, no call
  panics, and \<open>WorkflowCompleted\<close> and \<open>WorkflowCancelled\<close> together are recorded at most once.
\<close>

section \<open>Assertions every engine call keeps\<close>

text \<open>Events that need no lock keep the assertion, whoever records them.\<close>

definition grows :: "(bool \<Rightarrow> event list \<Rightarrow> bool) \<Rightarrow> bool" where
  "grows p \<longleftrightarrow> (\<forall>b l e. p b l \<longrightarrow> \<not> locked_event e \<longrightarrow> p b (l @ [e]))"

lemma grows_own_event: "grows p \<Longrightarrow> \<not> locked_event e \<Longrightarrow> p b l \<Longrightarrow> p b (l @ own_event wid e)"
  by (auto simp: grows_def own_event_def)

lemma locked_event_simps [simp]:
  "locked_event (WorkflowCompleted w)" "locked_event (WorkflowCancelled w r)"
  "\<not> locked_event (WorkflowStarted w)" "\<not> locked_event (StepStarted w i a)"
  "\<not> locked_event (StepCompleted w i out)" "\<not> locked_event (StepFailed w i r)"
  "\<not> locked_event (RetryScheduled w i a)" "\<not> locked_event (StepWaiting w i r)"
  "\<not> locked_event (StepResumed w i inp)" "\<not> locked_event (WorkflowFailed w r)"
  "\<not> locked_event (WorkerRecovered w i)"
  by (simp_all add: locked_event_def)

text \<open>An error or a wait may happen at any point; a panic may not.\<close>

definition safely :: "(bool \<Rightarrow> event list \<Rightarrow> bool) \<Rightarrow> halt \<Rightarrow> bool \<Rightarrow> event list \<Rightarrow> bool" where
  "safely p h b l \<longleftrightarrow> h \<noteq> HPanic \<and> p b l"

lemma safely_simps [simp]:
  "safely p (HErr e) b l = p b l" "safely p HBlocked b l = p b l" "\<not> safely p HPanic b l"
  by (simp_all add: safely_def)

lemma safely_stable [simp]: "pstable ok wid p \<Longrightarrow> pstable ok wid (safely p (HErr e))"
  by (simp add: pstable_def)

context engine_on begin

lemma keeps_append:
  "pstable ok wid p \<Longrightarrow> grows p \<Longrightarrow> \<not> locked_event e \<Longrightarrow>
     ltriple invar log ok wid p (store_append E e) (\<lambda>_. p) (safely p)"
  by (rule lt_append) (auto intro: grows_own_event)

lemma keeps_record_outcome:
  assumes "pstable ok wid p" and "grows p"
  shows "ltriple invar log ok wid p (record_outcome E wid' i oc) (\<lambda>_. p) (safely p)"
  unfolding record_outcome_def
  by (auto split: outcome.splits option.splits
      intro!: lt_bind [OF keeps_append [OF assms]] lt_ret lt_err)

lemma keeps_run_attempt:
  assumes p: "pstable ok wid p" "grows p"
  shows "ltriple invar log ok wid p (run_attempt E wid' i step body attempt) (\<lambda>_. p) (safely p)"
proof -
  have await: "ltriple invar log ok wid p
      (ebind (await_job_renewing_lease E wid' i rx (step_timeout step)) (record_outcome E wid' i))
      (\<lambda>_. p) (safely p)" for rx
    by (rule lt_bind [OF lt_await keeps_record_outcome]) (simp_all add: p)
  have accepted: "ltriple invar log ok wid p
      (case acc of Queued rx \<Rightarrow> ebind (await_job_renewing_lease E wid' i rx (step_timeout step)) (record_outcome E wid' i)
        | Cached output \<Rightarrow> ebind (store_append E (StepCompleted wid' i output))
             (\<lambda>_. eret (AttemptReturn OutcomeCompleted))
        | InFlight rx \<Rightarrow> ebind (await_job_renewing_lease E wid' i rx (step_timeout step)) (record_outcome E wid' i))
      (\<lambda>_. p) (safely p)" for acc
    by (cases acc) (auto intro!: await lt_bind [OF keeps_append [OF p]] lt_ret)
  have start: "ltriple invar log ok wid p
      (ebind (store_append E (StepStarted wid' i attempt)) (\<lambda>_.
       ebind (epush E j) (\<lambda>acc. case acc of
          Queued rx \<Rightarrow> ebind (await_job_renewing_lease E wid' i rx (step_timeout step)) (record_outcome E wid' i)
        | Cached output \<Rightarrow> ebind (store_append E (StepCompleted wid' i output))
             (\<lambda>_. eret (AttemptReturn OutcomeCompleted))
        | InFlight rx \<Rightarrow> ebind (await_job_renewing_lease E wid' i rx (step_timeout step)) (record_outcome E wid' i))))
      (\<lambda>_. p) (safely p)" for j
    by (intro lt_bind [OF keeps_append [OF p]] lt_bind [OF lt_push accepted]) (simp_all add: p)
  show ?thesis
    unfolding run_attempt_def
    by (rule lt_bind [OF lt_claim [where n = "\<lambda>_. p"]])
      (auto simp: p split: claim_result.splits intro!: start lt_ret lt_err)
qed

lemma keeps_retry_pause:
  assumes p: "pstable ok wid p" "grows p"
  shows "ltriple invar log ok wid p (retry_pause E wid' i step a a') (\<lambda>_. p) (safely p)"
  unfolding retry_pause_def
  by (intro lt_bind [OF keeps_append [OF p]] lt_bind [OF lt_sleep]
      lt_bind [OF lt_load_any [where n = "\<lambda>_. p"]]) (auto intro!: lt_ret simp: p)

lemma keeps_run_step:
  assumes p: "pstable ok wid p" "grows p"
  shows "eng = E \<Longrightarrow>
    ltriple invar log ok wid p (run_step eng wid' i step body attempt) (\<lambda>_. p) (safely p)"
proof (induction eng wid' i step body attempt rule: run_step.induct)
  case (1 eng wid' i step body attempt)
  have IH: "ltriple invar log ok wid p (run_step E wid' i step body (attempt + 1)) (\<lambda>_. p) (safely p)"
    if "attempt + 1 < max_attempts (step_retry_policy step)"
    using 1 that by blast
  have again: "ltriple invar log ok wid p
      (ebind (retry_pause E wid' i step attempt (attempt + 1)) (\<lambda>cancelled.
         if cancelled then eret OutcomeWaiting else run_step E wid' i step body (attempt + 1)))
      (\<lambda>_. p) (safely p)"
    if "attempt + 1 < max_attempts (step_retry_policy step)"
    by (rule lt_bind [OF keeps_retry_pause [OF p]]) (auto intro: lt_ret IH [OF that])
  have stop: "ltriple invar log ok wid p
      (ebind (store_append E (WorkflowFailed wid' reason)) (\<lambda>_. eerr (EngineWorkflowFailed reason)))
      (\<lambda>_. p) (safely p)" for reason
    by (intro lt_bind [OF keeps_append [OF p]] lt_err) simp_all
  show ?case
    unfolding \<open>eng = E\<close>
    by (subst run_step.simps, rule lt_bind [OF keeps_run_attempt [OF p]])
      (auto split: attempt_end.splits intro!: lt_ret again stop)
qed

end

section \<open>Completing and cancelling\<close>

definition locked_count :: "event list \<Rightarrow> nat" where
  "locked_count l = length (filter locked_event l)"

lemma locked_count_append [simp]: "locked_count (l @ l') = locked_count l + locked_count l'"
  by (simp add: locked_count_def)

lemma locked_count_single [simp]:
  "locked_count [] = 0" "locked_count [e] = (if locked_event e then 1 else 0)"
  by (simp_all add: locked_count_def)

lemma no_terminal_locked_count: "\<not> workflow_has_terminal_event l \<Longrightarrow> locked_count l = 0"
  by (induction l)
    (auto simp: locked_count_def workflow_has_terminal_event_def locked_event_def is_terminal_def
      split: event.splits)

text \<open>
  An assertion that every event keeps, the locked ones where no locked one was recorded before.
\<close>

definition kept :: "(event list \<Rightarrow> bool) \<Rightarrow> bool" where
  "kept P \<longleftrightarrow> (\<forall>l e. P l \<longrightarrow> (locked_event e \<longrightarrow> locked_count l = 0) \<longrightarrow> P (l @ [e]))"

lemma kept_grows: "kept P \<Longrightarrow> grows (\<lambda>_. P)"
  by (simp add: kept_def grows_def)

lemma kept_stable: "kept P \<Longrightarrow> pstable ok wid (\<lambda>_. P)"
  by (auto simp: kept_def pstable_def dest: no_terminal_locked_count)

lemma kept_locked_count: "kept (\<lambda>l. locked_count l \<le> 1)"
  by (simp add: kept_def)

text \<open>What is known of the log inside the lock, after its events \<open>es\<close> were loaded.\<close>

definition sealed :: "(event list \<Rightarrow> bool) \<Rightarrow> bool \<Rightarrow> event list \<Rightarrow> bool \<Rightarrow> event list \<Rightarrow> bool" where
  "sealed P this es b l \<longleftrightarrow>
     b \<and> P l \<and> (this \<longrightarrow> \<not> workflow_has_terminal_event es \<longrightarrow> locked_count l = 0)"

lemma sealed_stable: "kept P \<Longrightarrow> pstable ok wid (sealed P this es)"
  by (auto simp: pstable_def sealed_def kept_def)

lemma sealed_append:
  "kept P \<Longrightarrow> sealed P (wid' = wid) es b l \<Longrightarrow> \<not> workflow_has_terminal_event es \<Longrightarrow>
     event_workflow_id e = wid' \<Longrightarrow> P (l @ own_event wid e)"
  by (cases "wid' = wid") (auto simp: sealed_def kept_def)

context engine_on begin

lemmas keeps_kept = keeps_append [OF kept_stable kept_grows]

lemma lt_load_sealed:
  assumes P: "kept P"
  shows "ltriple invar log ok wid (\<lambda>b l. b \<and> P l) (store_load E wid')
    (\<lambda>es. sealed P (wid' = wid) es) (safely (\<lambda>_. P))"
proof (cases "wid' = wid")
  case True
  show ?thesis unfolding True
    by (rule lt_load) (use P in \<open>auto simp: sealed_def pstable_def kept_def dest: no_terminal_locked_count\<close>)
next
  case False
  then show ?thesis
    by (intro lt_load_any) (use P in \<open>auto simp: sealed_def pstable_def kept_def\<close>)
qed

lemma keeps_complete_workflow:
  assumes P: "kept P"
  shows "ltriple invar log ok wid (\<lambda>_. P) (complete_workflow E wid') (\<lambda>_ _. P) (safely (\<lambda>_. P))"
  unfolding complete_workflow_def
proof (rule lt_bind [OF lt_lock [OF kept_stable [OF P], where q = "\<lambda>b l. b \<and> P l"]])
  show "ltriple invar log ok wid (\<lambda>b l. b \<and> P l)
      (ebind (store_load E wid') (\<lambda>events. if workflow_has_terminal_event events then eret ()
         else store_append E (WorkflowCompleted wid')))
      (\<lambda>a b l. P l) (\<lambda>h b l. safely (\<lambda>_. P) h False l)"
  proof (rule lt_bind)
    show "ltriple invar log ok wid (\<lambda>b l. b \<and> P l) (store_load E wid')
        (\<lambda>es. sealed P (wid' = wid) es) (\<lambda>h b l. safely (\<lambda>_. P) h False l)"
      by (rule lt_weaken [OF lt_load_sealed [OF P]]) (auto simp: safely_def)
    show "ltriple invar log ok wid (sealed P (wid' = wid) es)
        (if workflow_has_terminal_event es then eret () else store_append E (WorkflowCompleted wid'))
        (\<lambda>a b. P) (\<lambda>h b. safely (\<lambda>_. P) h False)" for es
      by (auto simp: sealed_stable [OF P] sealed_append [OF P] sealed_def
          intro!: lt_ret lt_append)
  qed
qed (auto intro: lt_drop_from_in_flight kept_stable [OF P])

lemma keeps_cancel:
  assumes P: "kept P"
  shows "ltriple invar log ok wid (\<lambda>_. P) (cancel E wid' reason) (\<lambda>_ _. P) (safely (\<lambda>_. P))"
  unfolding cancel_def
proof (rule lt_lock [OF kept_stable [OF P], where q = "\<lambda>b l. b \<and> P l"])
  have drop: "ltriple invar log ok wid (\<lambda>_. P) (drop_from_in_flight E wid') (\<lambda>a b. P)
      (\<lambda>h b. safely (\<lambda>_. P) h False)"
    by (rule lt_drop_from_in_flight [OF kept_stable [OF P]])
  show "ltriple invar log ok wid (\<lambda>b l. b \<and> P l)
      (ebind (store_load E wid') (\<lambda>events. if workflow_has_terminal_event events then eret ()
         else ebind (store_append E (WorkflowCancelled wid' reason)) (\<lambda>_. drop_from_in_flight E wid')))
      (\<lambda>a b l. P l) (\<lambda>h b l. safely (\<lambda>_. P) h False l)"
  proof (rule lt_bind)
    show "ltriple invar log ok wid (\<lambda>b l. b \<and> P l) (store_load E wid')
        (\<lambda>es. sealed P (wid' = wid) es) (\<lambda>h b l. safely (\<lambda>_. P) h False l)"
      by (rule lt_weaken [OF lt_load_sealed [OF P]]) (auto simp: safely_def)
    show "ltriple invar log ok wid (sealed P (wid' = wid) es)
        (if workflow_has_terminal_event es then eret ()
         else ebind (store_append E (WorkflowCancelled wid' reason)) (\<lambda>_. drop_from_in_flight E wid'))
        (\<lambda>a b. P) (\<lambda>h b. safely (\<lambda>_. P) h False)" for es
      by (auto simp: sealed_stable [OF P] sealed_append [OF P] sealed_def
          intro!: lt_ret lt_append lt_bind [OF _ drop])
  qed
qed auto

section \<open>The calls of the engine\<close>

lemma keeps_drive_steps:
  assumes P: "kept P"
  shows "\<forall>k \<in> set ks. k < length bodies \<Longrightarrow>
    ltriple invar log ok wid (\<lambda>_. P) (drive_steps E wid' steps bodies ks) (\<lambda>_ _. P) (safely (\<lambda>_. P))"
proof (induction ks)
  case Nil
  show ?case by (simp add: keeps_complete_workflow [OF P])
next
  case (Cons k ks)
  have step: "ltriple invar log ok wid (\<lambda>_. P)
      (ebind (or_drop E wid' (run_step E wid' i step body 0)) (\<lambda>outcome. case outcome of
         OutcomeCompleted \<Rightarrow> drive_steps E wid' steps bodies ks | OutcomeWaiting \<Rightarrow> eret ()))
      (\<lambda>_ _. P) (safely (\<lambda>_. P))" for i step body
    using Cons
    by (intro lt_bind [OF lt_or_drop [OF keeps_run_step [OF kept_stable kept_grows]]])
      (auto simp: P kept_stable split: step_outcome.splits intro!: lt_ret)
  show ?case
    unfolding drive_steps.simps
    by (rule lt_bind [OF lt_load_any [where n = "\<lambda>_ _. P"]])
      (use Cons.prems in \<open>auto simp: kept_stable [OF P] intro!: lt_ret step\<close>)
qed

lemma keeps_drive_from:
  "kept P \<Longrightarrow> length bodies = length steps \<Longrightarrow>
     ltriple invar log ok wid (\<lambda>_. P) (drive_from E wid' steps bodies n) (\<lambda>_ _. P) (safely (\<lambda>_. P))"
  unfolding drive_from_def by (rule keeps_drive_steps) auto

lemma keeps_mounted_drive:
  assumes P: "kept P"
  shows "ltriple invar log ok wid (\<lambda>_. P)
    (ebind (mounted_steps_and_bodies E wid') (\<lambda>(steps, bodies). drive_from E wid' steps bodies n))
    (\<lambda>_ _. P) (safely (\<lambda>_. P))"
proof (rule lt_bind [OF lt_mounted [where n = "\<lambda>(steps, bodies) b l. length bodies = length steps \<and> P l"]])
  show "ltriple invar log ok wid (case sb of (steps, bodies) \<Rightarrow> \<lambda>b l. length bodies = length steps \<and> P l)
      (case sb of (steps, bodies) \<Rightarrow> drive_from E wid' steps bodies n) (\<lambda>_ _. P) (safely (\<lambda>_. P))" for sb
  proof (cases sb)
    case (Pair steps bodies)
    show ?thesis
    proof (cases "length bodies = length steps")
      case True
      with Pair keeps_drive_from [OF P True] show ?thesis by simp
    next
      case False
      with Pair show ?thesis by (simp add: ltriple_def etriple_def logged_def)
    qed
  qed
qed (auto simp: kept_stable [OF P])

lemma keeps_run_and_continue:
  assumes P: "kept P"
  shows "ltriple invar log ok wid (\<lambda>_. P) (run_and_continue E wid' i step body attempt)
    (\<lambda>_ _. P) (safely (\<lambda>_. P))"
  unfolding run_and_continue_def
  by (rule lt_bind [OF lt_or_drop [OF keeps_run_step [OF kept_stable kept_grows]]])
    (auto simp: P kept_stable split: step_outcome.splits intro!: lt_ret keeps_mounted_drive)

lemma keeps_run:
  assumes P: "kept P"
  shows "ltriple invar log ok wid (\<lambda>_. P) (run E wflow bodies) (\<lambda>_ _. P) (safely (\<lambda>_. P))"
  unfolding run_def
  by (intro lt_bind [OF lt_register [where n = "\<lambda>_ _. P"]] lt_bind [OF keeps_kept])
    (auto simp: kept_stable [OF P] P intro: keeps_mounted_drive)

lemma keeps_mounted_step:
  assumes P: "kept P" and k: "\<And>s f. ltriple invar log ok wid (\<lambda>_. P) (k s f) (\<lambda>_ _. P) (safely (\<lambda>_. P))"
  shows "ltriple invar log ok wid (\<lambda>_. P)
    (ebind (mounted_steps_and_bodies E wid') (\<lambda>(steps, bodies).
       if length steps \<le> unat i then eerr (EngineStore NotFound)
       else if length bodies \<le> unat i then epanic
       else k (steps ! unat i) (bodies ! unat i)))
    (\<lambda>_ _. P) (safely (\<lambda>_. P))"
proof (rule lt_bind [OF lt_mounted [where n = "\<lambda>(steps, bodies) b l. length bodies = length steps \<and> P l"]])
  show "ltriple invar log ok wid (case sb of (steps, bodies) \<Rightarrow> \<lambda>b l. length bodies = length steps \<and> P l)
      (case sb of (steps, bodies) \<Rightarrow>
       if length steps \<le> unat i then eerr (EngineStore NotFound)
       else if length bodies \<le> unat i then epanic
       else k (steps ! unat i) (bodies ! unat i)) (\<lambda>_ _. P) (safely (\<lambda>_. P))" for sb
    by (cases sb) (auto intro!: lt_err lt_panic lt_weaken [OF k])
qed (auto simp: kept_stable [OF P])

lemma keeps_resume:
  assumes P: "kept P"
  shows "ltriple invar log ok wid (\<lambda>_. P) (resume E wid' i inp) (\<lambda>_ _. P) (safely (\<lambda>_. P))"
proof -
  have mounted: "ltriple invar log ok wid (\<lambda>_. P)
    (ebind (mounted_steps_and_bodies E wid') (\<lambda>(steps, bodies).
       if length steps \<le> unat i then eerr (EngineStore NotFound)
       else if length bodies \<le> unat i then epanic
       else ebind (store_append E (StepResumed wid' i inp)) (\<lambda>_.
              run_and_continue E wid' i (steps ! unat i) (bodies ! unat i) a)))
    (\<lambda>_ _. P) (safely (\<lambda>_. P))" for a
    by (rule keeps_mounted_step [OF P, where k = "\<lambda>s f. ebind (store_append E (StepResumed wid' i inp)) (\<lambda>_.
              run_and_continue E wid' i s f a)"])
      (intro lt_bind [OF keeps_kept] keeps_run_and_continue P; simp)
  show ?thesis
    unfolding resume_def
    by (rule lt_bind [OF lt_load_any [where n = "\<lambda>_ _. P"]])
      (auto simp: kept_stable [OF P] split: step_status.splits intro!: lt_err mounted)
qed

lemma keeps_readmit_tail:
  assumes P: "kept P"
  shows "ltriple invar log ok wid (\<lambda>_. P)
      (ebind (eatom E (\<lambda>w. (Ok (in_flight w wid'), w))) (\<lambda>running. case running of
           None \<Rightarrow> eret ()
         | Some r \<Rightarrow>
             if length (running_steps r) \<le> unat i then eret ()
             else if length (running_bodies r) \<le> unat i then epanic
             else run_and_continue E wid' i (running_steps r ! unat i) (running_bodies r ! unat i) attempt))
      (\<lambda>_ _. P) (safely (\<lambda>_. P))"
proof (rule lt_bind [OF lt_in_flight [where n = "\<lambda>running b l.
      (\<forall>r. running = Some r \<longrightarrow> length (running_bodies r) = length (running_steps r)) \<and> P l"]])
  show "ltriple invar log ok wid
      (\<lambda>b l. (\<forall>r. running = Some r \<longrightarrow> length (running_bodies r) = length (running_steps r)) \<and> P l)
      (case running of
         None \<Rightarrow> eret ()
       | Some r \<Rightarrow>
           if length (running_steps r) \<le> unat i then eret ()
           else if length (running_bodies r) \<le> unat i then epanic
           else run_and_continue E wid' i (running_steps r ! unat i) (running_bodies r ! unat i) attempt)
      (\<lambda>_ _. P) (safely (\<lambda>_. P))" for running
    by (cases running)
      (auto intro!: lt_ret lt_panic lt_weaken [OF keeps_run_and_continue [OF P]])
qed (auto simp: kept_stable [OF P])

lemma keeps_readmit:
  assumes P: "kept P"
  shows "ltriple invar log ok wid (\<lambda>_. P) (readmit_after_worker_recovery E wid' i attempt)
    (\<lambda>_ _. P) (safely (\<lambda>_. P))"
  unfolding readmit_after_worker_recovery_def
  by (rule lt_bind [OF keeps_kept [OF P P] keeps_readmit_tail [OF P]]) simp

lemma keeps_recover_each:
  assumes P: "kept P"
  shows "ltriple invar log ok wid (\<lambda>_. P) (recover_each E xs n) (\<lambda>_ _. P) (safely (\<lambda>_. P))"
  by (induction xs arbitrary: n) (auto intro!: lt_ret lt_bind [OF keeps_readmit [OF P]])

lemma keeps_recover:
  assumes P: "kept P"
  shows "ltriple invar log ok wid (\<lambda>_. P) (recover E) (\<lambda>_ _. P) (safely (\<lambda>_. P))"
  unfolding recover_def
  by (rule lt_bind [OF lt_expired [where n = "\<lambda>_ _. P"]])
    (auto simp: kept_stable [OF P] intro: keeps_recover_each [OF P])

end

end
