(* ===== verification/EngineTrace.thy ===== *)
theory EngineTrace
  imports EngineSafety
begin

text \<open>
  What \<open>run_step\<close> records, exactly, while no other task records events of the workflow: a grammar
  of the events of an attempt and of a whole step, tied to the way the call ends, with the
  consequences for the number of attempts and for the status the log then gives the step.
\<close>

section \<open>The grammar\<close>

fun attempt_log :: "string \<Rightarrow> usize \<Rightarrow> u32 \<Rightarrow> attempt_end \<Rightarrow> event list \<Rightarrow> bool" where
  "attempt_log w i a (AttemptReturn OutcomeCompleted) evs =
     (evs = [] \<or> (\<exists>out. evs = [StepStarted w i a, StepCompleted w i out]))"
| "attempt_log w i a (AttemptReturn OutcomeWaiting) evs =
     (evs = [] \<or> (\<exists>r. evs = [StepStarted w i a, StepWaiting w i r]))"
| "attempt_log w i a (AttemptFailed r) evs = (evs = [StepStarted w i a, StepFailed w i r])"

fun attempt_halt :: "string \<Rightarrow> usize \<Rightarrow> u32 \<Rightarrow> halt \<Rightarrow> event list \<Rightarrow> bool" where
  "attempt_halt w i a (HErr (EngineWorkflowFailed r)) evs =
     (evs = [StepStarted w i a, StepFailed w i r, WorkflowFailed w r])"
| "attempt_halt w i a (HErr (EngineStore e)) evs =
     (evs = [] \<or> evs = [StepStarted w i a] \<or> (\<exists>r. evs = [StepStarted w i a, StepFailed w i r]))"
| "attempt_halt w i a (HErr e) evs = (evs = [StepStarted w i a])"
| "attempt_halt w i a HBlocked evs = (evs = [StepStarted w i a])"
| "attempt_halt w i a HPanic evs = False"

datatype step_end = Returned step_outcome | Halted halt

text \<open>
  The events of a call that starts at attempt \<open>a\<close>: \<open>mx\<close> is the step's \<open>max_attempts\<close> and \<open>c\<close>
  whether the workflow was cancelled when the call began.
\<close>

inductive step_log :: "string \<Rightarrow> usize \<Rightarrow> u32 \<Rightarrow> bool \<Rightarrow> u32 \<Rightarrow> event list \<Rightarrow> step_end \<Rightarrow> bool"
  for w i mx c where
  returns: "attempt_log w i a (AttemptReturn o1) evs \<Longrightarrow> step_log w i mx c a evs (Returned o1)"
| halts: "attempt_halt w i a h evs \<Longrightarrow> step_log w i mx c a evs (Halted h)"
| exhausted: "\<not> a + 1 < mx \<Longrightarrow>
    step_log w i mx c a [StepStarted w i a, StepFailed w i r, WorkflowFailed w r]
      (Halted (HErr (EngineWorkflowFailed r)))"
| unrecorded:
    "step_log w i mx c a [StepStarted w i a, StepFailed w i r] (Halted (HErr (EngineStore e)))"
| paused: "a + 1 < mx \<Longrightarrow> end1 = Halted HBlocked \<or> end1 = Halted (HErr (EngineStore e)) \<or>
      (c \<and> end1 = Returned OutcomeWaiting) \<Longrightarrow>
    step_log w i mx c a [StepStarted w i a, StepFailed w i r, RetryScheduled w i (a + 1)] end1"
| retries: "a + 1 < mx \<Longrightarrow> \<not> c \<Longrightarrow> step_log w i mx c (a + 1) evs end1 \<Longrightarrow>
    step_log w i mx c a
      ([StepStarted w i a, StepFailed w i r, RetryScheduled w i (a + 1)] @ evs) end1"

inductive_cases step_logE: "step_log w i mx c a evs end1"

definition end_of :: "(step_outcome, engine_error) result async \<Rightarrow> step_end" where
  "end_of r =
     (case r of
        Ready (Ok o1) \<Rightarrow> Returned o1
      | Ready (Err e) \<Rightarrow> Halted (HErr e)
      | Ready Panic \<Rightarrow> Halted HPanic
      | Blocked \<Rightarrow> Halted HBlocked)"

section \<open>Consequences\<close>

text \<open>The attempts a list of events starts, and the ones from \<open>a\<close> up to \<open>max_attempts\<close>.\<close>

fun started_attempts :: "usize \<Rightarrow> event list \<Rightarrow> u32 list" where
  "started_attempts i [] = []"
| "started_attempts i (StepStarted w k a # es) =
     (if k = i then a # started_attempts i es else started_attempts i es)"
| "started_attempts i (e # es) = started_attempts i es"

fun attempts_from :: "u32 \<Rightarrow> nat \<Rightarrow> u32 list" where
  "attempts_from a 0 = []"
| "attempts_from a (Suc n) = a # attempts_from (a + 1) n"

lemma step_log_attempts:
  "step_log w i mx c a evs end1 \<Longrightarrow>
     \<exists>n. started_attempts i evs = attempts_from a n \<and> n \<le> max 1 (attempts_left mx a)"
proof (induction rule: step_log.induct)
  case (returns a o1 evs)
  then show ?case
    by (cases o1) (auto intro: exI [of _ 0] exI [of _ "Suc 0"])
next
  case (halts a h evs)
  then show ?case
    by (cases "(w, i, a, h, evs)" rule: attempt_halt.cases)
      (auto intro: exI [of _ 0] exI [of _ "Suc 0"])
next
  case (retries a evs end1 r)
  then obtain n where n: "started_attempts i evs = attempts_from (a + 1) n"
    "n \<le> max 1 (attempts_left mx (a + 1))" by blast
  have "attempts_left mx (a + 1) < attempts_left mx a"
    using retries(1) by (rule attempts_left_decreases)
  moreover have "1 < attempts_left mx a"
  proof (cases "a = - 1")
    case True
    with retries(1) show ?thesis by (simp add: attempts_left_def word_greater_zero_iff unat_gt_0)
  next
    case False
    then have "unat (a + 1) = Suc (unat a)"
      by (metis Suc_eq_plus1 add.commute add_eq_0_iff unatSuc)
    with retries(1) False show ?thesis
      by (simp add: attempts_left_def word_less_nat_alt)
  qed
  ultimately show ?case using n by (intro exI [of _ "Suc n"]) auto
qed (auto intro: exI [of _ "Suc 0"])

text \<open>Only events of the step and of its workflow's failure are recorded.\<close>

lemma step_log_workflow:
  "step_log w i mx c a evs end1 \<Longrightarrow> e \<in> set evs \<Longrightarrow> event_workflow_id e = w \<and> \<not> locked_event e"
proof (induction rule: step_log.induct)
  case (returns a o1 evs)
  then show ?case by (cases o1) auto
next
  case (halts a h evs)
  then show ?case by (cases "(w, i, a, h, evs)" rule: attempt_halt.cases) auto
qed auto

lemma status_last:
  "step_status_from_events (es @ [StepCompleted w i out]) i = StCompleted out"
  "step_status_from_events (es @ [StepWaiting w i r]) i = StWaiting r"
  by (simp_all add: step_status_snoc)

lemma last_status:
  assumes "evs \<noteq> []"
  shows "last evs = StepCompleted w i out \<Longrightarrow> step_status_from_events (L @ evs) i = StCompleted out"
    and "last evs = StepWaiting w i r \<Longrightarrow> step_status_from_events (L @ evs) i = StWaiting r"
  using assms status_last [of "L @ butlast evs"] by (metis append.assoc append_butlast_last_id)+

lemma step_log_completed:
  "step_log w i mx c a evs end1 \<Longrightarrow> end1 = Returned OutcomeCompleted \<Longrightarrow>
     evs = [] \<or> (\<exists>n. last evs = RetryScheduled w i n) \<or> (\<exists>out. last evs = StepCompleted w i out)"
proof (induction rule: step_log.induct)
  case (retries a evs end1 r)
  then show ?case by (cases evs) auto
qed auto

lemma step_log_waiting:
  "step_log w i mx c a evs end1 \<Longrightarrow> end1 = Returned OutcomeWaiting \<Longrightarrow>
     evs = [] \<or> (\<exists>n. last evs = RetryScheduled w i n) \<or> (\<exists>r. last evs = StepWaiting w i r)"
proof (induction rule: step_log.induct)
  case (retries a evs end1 r)
  then show ?case by (cases evs) auto
qed auto

lemma step_log_failed:
  "step_log w i mx c a evs end1 \<Longrightarrow> end1 = Halted (HErr (EngineWorkflowFailed r)) \<Longrightarrow>
     \<exists>evs0. evs = evs0 @ [StepFailed w i r, WorkflowFailed w r]"
proof (induction rule: step_log.induct)
  case (halts a h evs)
  then show ?case by (auto intro: exI [of _ "[StepStarted w i a]"])
next
  case (exhausted a r')
  then show ?case by (auto intro: exI [of _ "[StepStarted w i a]"])
next
  case (retries a evs end1 r')
  then obtain evs0 where "evs = evs0 @ [StepFailed w i r, WorkflowFailed w r]" by blast
  then show ?case
    by (intro exI [of _ "[StepStarted w i a, StepFailed w i r', RetryScheduled w i (a + 1)] @ evs0"]) simp
qed auto

section \<open>The engine follows it\<close>

lemma is_cancelled_locked: "is_cancelled e \<Longrightarrow> locked_event e"
  by (cases e) (auto simp: is_cancelled_def)

lemma workflow_is_cancelled_simps [simp]:
  "\<not> workflow_is_cancelled []"
  "workflow_is_cancelled (e # es) \<longleftrightarrow> is_cancelled e \<or> workflow_is_cancelled es"
  by (simp_all add: workflow_is_cancelled_def)

lemma not_cancelled_simps [simp]:
  "\<not> is_cancelled (StepStarted w i a)" "\<not> is_cancelled (StepFailed w i r)"
  "\<not> is_cancelled (RetryScheduled w i a)"
  by (simp_all add: is_cancelled_def)

definition appended_to ::
    "event list \<Rightarrow> (event list \<Rightarrow> bool) \<Rightarrow> bool \<Rightarrow> event list \<Rightarrow> bool" where
  "appended_to L Q b l \<longleftrightarrow> (\<exists>evs. l = L @ evs \<and> Q evs)"

context engine_on begin

text \<open>Rules for a log that is known exactly.\<close>

lemma lt_exact_append:
  assumes "event_workflow_id e = wid" and "\<And>err b. x (HErr (EngineStore err)) b L"
    and "ltriple invar log (quiet wid) wid (exact (L @ [e])) (k ()) n x"
  shows "ltriple invar log (quiet wid) wid (exact L) (ebind (store_append E e) k) n x"
  by (rule lt_bind [OF lt_append [where n = "\<lambda>_. exact (L @ [e])"]])
    (use assms in \<open>auto simp: exact_def\<close>)

lemma lt_exact_load:
  assumes "\<And>err b. x (HErr (EngineStore err)) b L"
    and "ltriple invar log (quiet wid) wid (exact L) (k L) n x"
  shows "ltriple invar log (quiet wid) wid (exact L) (ebind (store_load E wid) k) n x"
proof (rule lt_bind [OF lt_load [where n = "\<lambda>es b l. es = L \<and> l = L"]])
  show "ltriple invar log (quiet wid) wid (\<lambda>b l. es = L \<and> l = L) (k es) n x" for es
    using assms(2) by (cases "es = L") (auto simp: ltriple_def etriple_def logged_def exact_def)
qed (use assms in \<open>auto simp: exact_def\<close>)

lemma lt_exact_ret: "(\<And>b. n a b L) \<Longrightarrow> ltriple invar log ok wid (exact L) (eret a) n x"
  by (rule lt_ret) (simp add: exact_def)

lemma lt_exact_err: "(\<And>b. x (HErr e) b L) \<Longrightarrow> ltriple invar log ok wid (exact L) (eerr e) n x"
  by (rule lt_err) (simp add: exact_def)

lemma record_outcome_log:
  "ltriple invar log (quiet wid) wid (exact (L @ [StepStarted wid i a])) (record_outcome E wid i oc)
     (\<lambda>r. appended_to L (attempt_log wid i a r)) (\<lambda>h. appended_to L (attempt_halt wid i a h))"
proof (cases oc)
  case (OCompleted out)
  then show ?thesis
    by (auto simp: record_outcome_def appended_to_def intro!: lt_exact_append lt_exact_ret)
next
  case (OFailed reason)
  show ?thesis
  proof (cases "parse_waiting_reason reason")
    case (Some r)
    with OFailed show ?thesis
      by (auto simp: record_outcome_def appended_to_def intro!: lt_exact_append lt_exact_ret)
  next
    case None
    with OFailed show ?thesis
      by (cases "parse_non_retryable_reason reason")
        (auto simp: record_outcome_def appended_to_def
          intro!: lt_exact_append lt_exact_ret lt_exact_err)
  qed
qed

lemma run_attempt_log:
  "ltriple invar log (quiet wid) wid (exact L) (run_attempt E wid i step body a)
     (\<lambda>r. appended_to L (attempt_log wid i a r)) (\<lambda>h. appended_to L (attempt_halt wid i a h))"
proof -
  let ?N = "\<lambda>r. appended_to L (attempt_log wid i a r)"
  let ?X = "\<lambda>h. appended_to L (attempt_halt wid i a h)"
  let ?L1 = "L @ [StepStarted wid i a]"
  have x1: "?X (HErr (EngineStore err)) b L" "?X (HErr (EngineStore err)) b ?L1"
    "?X (HErr (EnginePush pe)) b ?L1" "?X (HErr (EngineJobLost JobLost)) b ?L1"
    "?X HBlocked b ?L1" for err pe b
    by (auto simp: appended_to_def)
  have await: "ltriple invar log (quiet wid) wid (exact ?L1)
      (ebind (await_job_renewing_lease E wid i rx (step_timeout step)) (record_outcome E wid i)) ?N ?X" for rx
    by (rule lt_bind [OF lt_await record_outcome_log]) (use x1 in \<open>auto simp: exact_def\<close>)
  have "ltriple invar log (quiet wid) wid (exact ?L1)
      (ebind (epush E j) (\<lambda>acc. case acc of
          Queued rx \<Rightarrow> ebind (await_job_renewing_lease E wid i rx (step_timeout step)) (record_outcome E wid i)
        | Cached output \<Rightarrow> ebind (store_append E (StepCompleted wid i output))
             (\<lambda>_. eret (AttemptReturn OutcomeCompleted))
        | InFlight rx \<Rightarrow> ebind (await_job_renewing_lease E wid i rx (step_timeout step)) (record_outcome E wid i)))
      ?N ?X" for j
    by (rule lt_bind [OF lt_push])
      (use x1 in \<open>auto simp: exact_def appended_to_def split: accepted.splits
        intro!: await lt_exact_append lt_exact_ret\<close>)
  then show ?thesis
    unfolding run_attempt_def
    by (intro lt_bind [OF lt_claim [where n = "\<lambda>_. exact L"]])
      (use x1 in \<open>auto simp: exact_def appended_to_def split: claim_result.splits
        intro!: lt_exact_append lt_exact_ret lt_exact_err\<close>)
qed

lemma retry_pause_log:
  assumes x: "\<And>err b. x (HErr (EngineStore err)) b L"
    "\<And>err b. x (HErr (EngineStore err)) b (L @ [RetryScheduled wid i a'])"
    "\<And>b. x HBlocked b (L @ [RetryScheduled wid i a'])"
  shows "ltriple invar log (quiet wid) wid (exact L) (retry_pause E wid i step a a')
    (\<lambda>c b l. c = workflow_is_cancelled L \<and> l = L @ [RetryScheduled wid i a']) x"
  unfolding retry_pause_def
  by (intro lt_exact_append lt_bind [OF lt_sleep] lt_exact_load lt_exact_ret)
    (auto simp: exact_def x)

lemma run_step_log:
  "eng = E \<Longrightarrow> ltriple invar log (quiet wid) wid (exact L) (run_step eng wid i step body a)
     (\<lambda>r. appended_to L (\<lambda>evs. step_log wid i (max_attempts (step_retry_policy step))
        (workflow_is_cancelled L) a evs (Returned r)))
     (\<lambda>h. appended_to L (\<lambda>evs. step_log wid i (max_attempts (step_retry_policy step))
        (workflow_is_cancelled L) a evs (Halted h)))"
proof (induction eng wid i step body a arbitrary: L rule: run_step.induct)
  case (1 eng wid i step body a)
  let ?mx = "max_attempts (step_retry_policy step)" and ?c = "workflow_is_cancelled L"
  let ?N = "\<lambda>r. appended_to L (\<lambda>evs. step_log wid i ?mx ?c a evs (Returned r))"
  let ?X = "\<lambda>h. appended_to L (\<lambda>evs. step_log wid i ?mx ?c a evs (Halted h))"
  have attempt: "ltriple invar log (quiet wid) wid (exact L) (run_attempt E wid i step body a)
      (\<lambda>r. appended_to L (attempt_log wid i a r)) ?X"
    by (rule lt_weaken [OF run_attempt_log]) (auto simp: appended_to_def intro: step_log.halts)
  have stop: "ltriple invar log (quiet wid) wid (exact (L @ [StepStarted wid i a, StepFailed wid i reason]))
      (ebind (store_append E (WorkflowFailed wid reason)) (\<lambda>_. eerr (EngineWorkflowFailed reason))) ?N ?X"
    if "\<not> a + 1 < ?mx" for reason
    by (intro lt_exact_append lt_exact_err)
      (auto simp: appended_to_def intro: step_log.exhausted [OF that] step_log.unrecorded)
  have again: "ltriple invar log (quiet wid) wid (exact (L @ [StepStarted wid i a, StepFailed wid i reason]))
      (ebind (retry_pause E wid i step a (a + 1)) (\<lambda>cancelled.
         if cancelled then eret OutcomeWaiting else run_step E wid i step body (a + 1))) ?N ?X"
    if lt: "a + 1 < ?mx" for reason
  proof -
    let ?L1 = "L @ [StepStarted wid i a, StepFailed wid i reason, RetryScheduled wid i (a + 1)]"
    have c: "workflow_is_cancelled ?L1 = ?c" by simp
    have IH: "ltriple invar log (quiet wid) wid (exact ?L1) (run_step E wid i step body (a + 1))
        (\<lambda>r. appended_to ?L1 (\<lambda>evs. step_log wid i ?mx ?c (a + 1) evs (Returned r)))
        (\<lambda>h. appended_to ?L1 (\<lambda>evs. step_log wid i ?mx ?c (a + 1) evs (Halted h)))"
      using "1.IH" [where L = ?L1] lt "1.prems" unfolding c by blast
    have more: "ltriple invar log (quiet wid) wid (exact ?L1) (run_step E wid i step body (a + 1)) ?N ?X"
      if "\<not> ?c"
      by (rule lt_weaken [OF IH])
        (auto simp: appended_to_def intro: step_log.retries [OF lt that, simplified])
    have next_one: "ltriple invar log (quiet wid) wid (\<lambda>b l. cancelled = ?c \<and> l = ?L1)
        (if cancelled then eret OutcomeWaiting else run_step E wid i step body (a + 1)) ?N ?X" for cancelled
    proof (cases "cancelled = ?c")
      case True
      show ?thesis
      proof (cases ?c)
        case c: True
        with True show ?thesis
          by (auto simp: appended_to_def intro!: lt_ret step_log.paused [OF lt])
      next
        case False
        with True more show ?thesis by (simp add: exact_def [abs_def])
      qed
    next
      case False
      then show ?thesis by (simp add: ltriple_def etriple_def logged_def)
    qed
    have pause: "ltriple invar log (quiet wid) wid
        (exact (L @ [StepStarted wid i a, StepFailed wid i reason]))
        (retry_pause E wid i step a (a + 1)) (\<lambda>cancelled b l. cancelled = ?c \<and> l = ?L1) ?X"
      by (rule lt_weaken [OF retry_pause_log [where x = ?X]])
        (auto simp: appended_to_def exact_def intro: step_log.paused [OF lt] step_log.unrecorded)
    show ?thesis by (rule lt_bind [OF pause next_one])
  qed
  have failed: "appended_to L (attempt_log wid i a (AttemptFailed reason)) =
      exact (L @ [StepStarted wid i a, StepFailed wid i reason])" for reason
    by (auto simp: appended_to_def exact_def fun_eq_iff)
  show ?case
    unfolding \<open>eng = E\<close>
  proof (subst run_step.simps, rule lt_bind [OF attempt])
    fix r
    show "ltriple invar log (quiet wid) wid (appended_to L (attempt_log wid i a r))
        (case r of AttemptReturn outcome \<Rightarrow> eret outcome
         | AttemptFailed reason \<Rightarrow>
             if a + 1 < ?mx
             then ebind (retry_pause E wid i step a (a + 1)) (\<lambda>cancelled.
                    if cancelled then eret OutcomeWaiting else run_step E wid i step body (a + 1))
             else ebind (store_append E (WorkflowFailed wid reason)) (\<lambda>_. eerr (EngineWorkflowFailed reason)))
        ?N ?X"
    proof (cases r)
      case (AttemptReturn outcome)
      then show ?thesis by (auto simp: appended_to_def intro!: lt_ret step_log.returns)
    next
      case (AttemptFailed reason)
      then show ?thesis unfolding AttemptFailed failed by (simp add: again stop)
    qed
  qed
qed

section \<open>Cancelling\<close>

text \<open>An error of the store may end a call early; the log is then what it was.\<close>

lemma cancel_log:
  "ltriple invar log (quiet wid) wid (exact L) (cancel E wid reason)
     (\<lambda>_. exact (if workflow_has_terminal_event L then L else L @ [WorkflowCancelled wid reason]))
     (\<lambda>h b l. l = L \<and> (\<exists>e. h = HErr (EngineStore e)))"
  unfolding cancel_def
proof (rule lt_lock [where q = "exact L"])
  have drop: "ltriple invar log (quiet wid) wid (exact l1) (drop_from_in_flight E wid)
      (\<lambda>_. exact l1 :: bool \<Rightarrow> event list \<Rightarrow> bool) x" for l1 x
    by (rule lt_drop_from_in_flight) simp_all
  show "ltriple invar log (quiet wid) wid (exact L)
      (ebind (store_load E wid) (\<lambda>events. if workflow_has_terminal_event events then eret ()
         else ebind (store_append E (WorkflowCancelled wid reason)) (\<lambda>_. drop_from_in_flight E wid)))
      (\<lambda>a b l. exact (if workflow_has_terminal_event L then L else L @ [WorkflowCancelled wid reason]) False l)
      (\<lambda>h b l. l = L \<and> (\<exists>e. h = HErr (EngineStore e)))"
  proof (cases "workflow_has_terminal_event L")
    case True
    then show ?thesis by (auto intro!: lt_exact_load lt_exact_ret simp: exact_def)
  next
    case False
    then show ?thesis
      by (auto intro!: lt_exact_load lt_exact_append lt_weaken [OF drop] simp: exact_def)
  qed
qed (simp_all add: exact_def)

text \<open>A cancelled workflow is not driven and not resumed.\<close>

lemma cancelled_drive_log:
  assumes c: "workflow_is_cancelled L"
  shows "ltriple invar log (quiet wid) wid (exact L) (drive_from E wid steps bodies n)
     (\<lambda>_. exact L) (\<lambda>h b l. l = L \<and> (\<exists>e. h = HErr (EngineStore e)))"
proof (cases "[n..<length steps]")
  case (Cons k ks)
  then show ?thesis
    unfolding drive_from_def using c by (auto intro!: lt_exact_load lt_exact_ret simp: exact_def)
next
  case Nil
  have t: "workflow_has_terminal_event L" using c by (rule cancelled_is_terminal)
  show ?thesis
    unfolding drive_from_def Nil drive_steps.simps complete_workflow_def
  proof (rule lt_bind [OF lt_lock [where q = "exact L" and n = "\<lambda>_. exact L"]])
    show "ltriple invar log (quiet wid) wid (exact L)
        (ebind (store_load E wid) (\<lambda>events. if workflow_has_terminal_event events then eret ()
           else store_append E (WorkflowCompleted wid)))
        (\<lambda>a b. exact L False) (\<lambda>h b l. l = L \<and> (\<exists>e. h = HErr (EngineStore e)))"
      using t by (auto intro!: lt_exact_load lt_exact_ret simp: exact_def)
  qed (auto intro!: lt_drop_from_in_flight simp: exact_def)
qed

lemma cancelled_resume_log:
  assumes c: "workflow_is_cancelled L"
  shows "ltriple invar log (quiet wid) wid (exact L) (resume E wid i inp)
     (\<lambda>_ _ _. False) (\<lambda>h b l. l = L \<and> (\<exists>e. h = HErr (EngineStore e)))"
  unfolding resume_def using c by (auto intro!: lt_exact_load lt_exact_err)

lemma not_waiting_resume_log:
  assumes w: "\<forall>r. step_status_from_events L i \<noteq> StWaiting r"
  shows "ltriple invar log (quiet wid) wid (exact L) (resume E wid i inp)
     (\<lambda>_ _ _. False) (\<lambda>h b l. l = L \<and> (\<exists>e. h = HErr (EngineStore e)))"
  unfolding resume_def using w
  by (cases "step_status_from_events L i") (auto intro!: lt_exact_load lt_exact_err)

end

end
