(* ===== verification/EngineProgress.thy ===== *)
theory EngineProgress
  imports EngineSafety
begin

text \<open>
  What a call of the engine that returns without an error has achieved, whatever the other tasks do
  meanwhile: the log then holds the events that justify the result.  All assertions here are kept by
  every further event, so they say what is in the log from that point on.
\<close>

section \<open>Assertions that stay true\<close>

definition lasting :: "(event list \<Rightarrow> bool) \<Rightarrow> bool" where
  "lasting P \<longleftrightarrow> (\<forall>l l'. P l \<longrightarrow> P (l @ l'))"

definition step_completed :: "string \<Rightarrow> usize \<Rightarrow> event list \<Rightarrow> bool" where
  "step_completed w i l \<longleftrightarrow> (\<exists>out. StepCompleted w i out \<in> set l)"

definition step_waiting :: "string \<Rightarrow> usize \<Rightarrow> event list \<Rightarrow> bool" where
  "step_waiting w i l \<longleftrightarrow> (\<exists>r. StepWaiting w i r \<in> set l)"

fun outcome_logged :: "string \<Rightarrow> usize \<Rightarrow> step_outcome \<Rightarrow> event list \<Rightarrow> bool" where
  "outcome_logged w i OutcomeCompleted l = step_completed w i l"
| "outcome_logged w i OutcomeWaiting l = (step_waiting w i l \<or> workflow_is_cancelled l)"

fun attempt_logged :: "string \<Rightarrow> usize \<Rightarrow> attempt_end \<Rightarrow> event list \<Rightarrow> bool" where
  "attempt_logged w i (AttemptReturn o1) l = outcome_logged w i o1 l"
| "attempt_logged w i (AttemptFailed r) l = True"

text \<open>
  What driving the steps \<open>ks\<close> to the end means: the workflow was cancelled, or it stopped at a
  waiting step with the steps before it completed, or all are completed and it is closed.
\<close>

definition driven :: "string \<Rightarrow> nat list \<Rightarrow> event list \<Rightarrow> bool" where
  "driven w ks l \<longleftrightarrow>
     workflow_is_cancelled l \<or>
     (\<exists>pre k post. ks = pre @ k # post \<and> (\<forall>j \<in> set pre. step_completed w (of_nat j) l) \<and>
        step_waiting w (of_nat k) l) \<or>
     ((\<forall>k \<in> set ks. step_completed w (of_nat k) l) \<and> workflow_has_terminal_event l)"

lemma lasting_conj: "lasting P \<Longrightarrow> lasting Q \<Longrightarrow> lasting (\<lambda>l. P l \<and> Q l)"
  by (simp add: lasting_def)

lemma lasting_outcome: "lasting (outcome_logged w i o1)"
  by (cases o1) (auto simp: lasting_def step_completed_def step_waiting_def)

lemma lasting_attempt: "lasting (attempt_logged w i r)"
  using lasting_outcome by (cases r) (auto simp: lasting_def)

lemma lasting_simps [simp]:
  "lasting (step_completed w i)" "lasting workflow_has_terminal_event" "lasting (\<lambda>l. e \<in> set l)"
  "lasting workflow_is_cancelled" "lasting (\<lambda>l. True)"
  by (auto simp: lasting_def step_completed_def)

lemma lasting_stable: "lasting P \<Longrightarrow> pstable ok wid (\<lambda>_. P)"
  by (rule pstable_mono) (simp add: lasting_def)

lemma lasting_appendD: "lasting P \<Longrightarrow> P l \<Longrightarrow> P (l @ l')"
  by (simp add: lasting_def)

lemma lasting_kept: "lasting P \<Longrightarrow> kept P"
  by (simp add: lasting_def kept_def)

lemma step_completed_now [simp]: "step_completed w i (l @ [StepCompleted w i out])"
  by (auto simp: step_completed_def)

lemma step_waiting_now [simp]: "step_waiting w i (l @ [StepWaiting w i r])"
  by (auto simp: step_waiting_def)

lemma has_terminal_now [simp]:
  "workflow_has_terminal_event [WorkflowCompleted w]" "workflow_has_terminal_event [WorkflowCancelled w r]"
  "workflow_has_terminal_event [WorkflowFailed w r]"
  by (simp_all add: workflow_has_terminal_event_def is_terminal_def)

lemma driven_Cons:
  "driven w ks l \<Longrightarrow> step_completed w (of_nat k) l \<Longrightarrow> driven w (k # ks) l"
  unfolding driven_def
proof (elim disjE exE conjE)
  fix pre j post
  assume "step_completed w (of_nat k) l" "ks = pre @ j # post"
    "\<forall>j \<in> set pre. step_completed w (of_nat j) l" "step_waiting w (of_nat j) l"
  then have "k # ks = (k # pre) @ j # post \<and> (\<forall>j \<in> set (k # pre). step_completed w (of_nat j) l) \<and>
      step_waiting w (of_nat j) l" by simp
  then show "workflow_is_cancelled l \<or>
     (\<exists>pre j post. k # ks = pre @ j # post \<and> (\<forall>j \<in> set pre. step_completed w (of_nat j) l) \<and>
        step_waiting w (of_nat j) l) \<or>
     ((\<forall>k \<in> set (k # ks). step_completed w (of_nat k) l) \<and> workflow_has_terminal_event l)"
    by blast
qed auto

lemma driven_stop: "outcome_logged w (of_nat k) OutcomeWaiting l \<Longrightarrow> driven w (k # ks) l"
  unfolding driven_def by (auto intro: exI [of _ "[]"])

lemma driven_cancelled: "workflow_is_cancelled l \<Longrightarrow> driven w ks l"
  by (simp add: driven_def)

section \<open>Steps\<close>

context engine_on begin

lemma logs_record_outcome:
  assumes P: "lasting P"
  shows "ltriple invar log ok wid (\<lambda>_. P) (record_outcome E wid i oc)
    (\<lambda>r _ l. P l \<and> attempt_logged wid i r l) (safely (\<lambda>_. P))"
proof -
  note st = lasting_stable [OF P]
  have app: "ltriple invar log ok wid (\<lambda>_. P) (store_append E e)
      (\<lambda>_ _ l. P l \<and> (\<exists>l0. l = l0 @ [e])) (safely (\<lambda>_. P))"
    if "event_workflow_id e = wid" for e
    by (rule lt_append) (use st that P in \<open>auto dest: lasting_appendD\<close>)
  have fail: "ltriple invar log ok wid (\<lambda>_. P) (store_append E e) (\<lambda>_ _. P) (safely (\<lambda>_. P))" for e
    by (rule lt_append) (use st P in \<open>auto dest: lasting_appendD\<close>)
  show ?thesis
  proof (cases oc)
    case (OCompleted out)
    then show ?thesis
      by (auto simp: record_outcome_def intro!: lt_bind [OF app] lt_ret)
  next
    case (OFailed reason)
    show ?thesis
    proof (cases "parse_waiting_reason reason")
      case None
      with OFailed show ?thesis
        by (auto simp: record_outcome_def split: option.splits intro!: lt_bind [OF fail] lt_ret lt_err)
    next
      case (Some r)
      with OFailed show ?thesis
        by (auto simp: record_outcome_def intro!: lt_bind [OF app] lt_ret)
    qed
  qed
qed

lemma logs_run_attempt:
  assumes P: "lasting P"
  shows "ltriple invar log ok wid (\<lambda>_. P) (run_attempt E wid i step body a)
    (\<lambda>r _ l. P l \<and> attempt_logged wid i r l) (safely (\<lambda>_. P))"
proof -
  let ?N = "\<lambda>r _ l. P l \<and> attempt_logged wid i r l"
  note st = lasting_stable [OF P]
  have await: "ltriple invar log ok wid (\<lambda>_. P)
      (ebind (await_job_renewing_lease E wid i rx (step_timeout step)) (record_outcome E wid i))
      ?N (safely (\<lambda>_. P))" for rx
    by (rule lt_bind [OF lt_await logs_record_outcome]) (simp_all add: st P)
  have cached: "ltriple invar log ok wid (\<lambda>_. P)
      (ebind (store_append E (StepCompleted wid i out)) (\<lambda>_. eret (AttemptReturn OutcomeCompleted)))
      ?N (safely (\<lambda>_. P))" for out
    by (intro lt_bind [OF lt_append [where n = "\<lambda>_ _ l. P l \<and> step_completed wid i l"]] lt_ret)
      (use st P in \<open>auto dest: lasting_appendD\<close>)
  have push: "ltriple invar log ok wid (\<lambda>_. P)
      (ebind (epush E j) (\<lambda>acc. case acc of
          Queued rx \<Rightarrow> ebind (await_job_renewing_lease E wid i rx (step_timeout step)) (record_outcome E wid i)
        | Cached output \<Rightarrow> ebind (store_append E (StepCompleted wid i output))
             (\<lambda>_. eret (AttemptReturn OutcomeCompleted))
        | InFlight rx \<Rightarrow> ebind (await_job_renewing_lease E wid i rx (step_timeout step)) (record_outcome E wid i)))
      ?N (safely (\<lambda>_. P))" for j
    by (rule lt_bind [OF lt_push]) (auto simp: st split: accepted.splits intro: await cached)
  have start: "ltriple invar log ok wid (\<lambda>_. P)
      (ebind (store_append E (StepStarted wid i a)) (\<lambda>_.
       ebind (epush E j) (\<lambda>acc. case acc of
          Queued rx \<Rightarrow> ebind (await_job_renewing_lease E wid i rx (step_timeout step)) (record_outcome E wid i)
        | Cached output \<Rightarrow> ebind (store_append E (StepCompleted wid i output))
             (\<lambda>_. eret (AttemptReturn OutcomeCompleted))
        | InFlight rx \<Rightarrow> ebind (await_job_renewing_lease E wid i rx (step_timeout step)) (record_outcome E wid i))))
      ?N (safely (\<lambda>_. P))" for j
    by (rule lt_bind [OF keeps_kept [OF lasting_kept lasting_kept] push]) (simp_all add: P)
  show ?thesis
    unfolding run_attempt_def
  proof (rule lt_bind [OF lt_claim [where n = "\<lambda>c _ l. P l \<and> claim_backed wid i l c"]])
    fix c
    show "ltriple invar log ok wid (\<lambda>_ l. P l \<and> claim_backed wid i l c)
        (case c of
           Claimed \<Rightarrow>
             ebind (store_append E (StepStarted wid i a)) (\<lambda>_.
             ebind (epush E (new_job (job_key_of wid i a) (eng_priority E) body)) (\<lambda>acc. case acc of
                Queued rx \<Rightarrow> ebind (await_job_renewing_lease E wid i rx (step_timeout step)) (record_outcome E wid i)
              | Cached output \<Rightarrow> ebind (store_append E (StepCompleted wid i output))
                   (\<lambda>_. eret (AttemptReturn OutcomeCompleted))
              | InFlight rx \<Rightarrow> ebind (await_job_renewing_lease E wid i rx (step_timeout step)) (record_outcome E wid i)))
         | AlreadyCompleted out \<Rightarrow> eret (AttemptReturn OutcomeCompleted)
         | HeldByOther \<Rightarrow> eerr (EngineStore (Backend ''step is held by another worker''))
         | AlreadyWaiting \<Rightarrow> eret (AttemptReturn OutcomeWaiting)) ?N (safely (\<lambda>_. P))"
      by (cases c)
        (auto simp: step_completed_def step_waiting_def intro!: lt_ret lt_err lt_weaken [OF start])
  qed (auto simp: st)
qed

lemma logs_run_step:
  assumes "lasting P"
  shows "eng = E \<Longrightarrow> ltriple invar log ok wid (\<lambda>_. P) (run_step eng wid i step body a)
    (\<lambda>r _ l. P l \<and> outcome_logged wid i r l) (safely (\<lambda>_. P))"
  using assms
proof (induction eng wid i step body a arbitrary: P rule: run_step.induct)
  case (1 eng wid i step body a)
  note P = \<open>lasting P\<close>
  note st = lasting_stable [OF P]
  let ?mx = "max_attempts (step_retry_policy step)"
  have IH: "ltriple invar log ok wid (\<lambda>_. P) (run_step E wid i step body (a + 1))
      (\<lambda>r _ l. P l \<and> outcome_logged wid i r l) (safely (\<lambda>_. P))"
    if "a + 1 < ?mx"
    using "1.IH" [where P = P] that "1.prems" by blast
  have pause: "ltriple invar log ok wid (\<lambda>_. P) (retry_pause E wid i step a (a + 1))
      (\<lambda>c _ l. P l \<and> (c \<longrightarrow> workflow_is_cancelled l)) (safely (\<lambda>_. P))"
    unfolding retry_pause_def
    by (intro lt_bind [OF keeps_kept [OF lasting_kept lasting_kept]] lt_bind [OF lt_sleep]
        lt_bind [OF lt_load [where n = "\<lambda>es _ l. P l \<and> (workflow_is_cancelled es \<longrightarrow> workflow_is_cancelled l)"]]
        lt_ret) (auto simp: P st)
  have again: "ltriple invar log ok wid (\<lambda>_. P)
      (ebind (retry_pause E wid i step a (a + 1)) (\<lambda>cancelled.
         if cancelled then eret OutcomeWaiting else run_step E wid i step body (a + 1)))
      (\<lambda>r _ l. P l \<and> outcome_logged wid i r l) (safely (\<lambda>_. P))" if "a + 1 < ?mx"
    by (rule lt_bind [OF pause]) (auto intro!: lt_ret lt_weaken [OF IH [OF that]])
  have stop: "ltriple invar log ok wid (\<lambda>_. P)
      (ebind (store_append E (WorkflowFailed wid reason)) (\<lambda>_. eerr (EngineWorkflowFailed reason)))
      (\<lambda>r _ l. P l \<and> outcome_logged wid i r l) (safely (\<lambda>_. P))" for reason
    by (intro lt_bind [OF keeps_kept [OF lasting_kept lasting_kept]] lt_err) (simp_all add: P)
  show ?case
    unfolding \<open>eng = E\<close>
  proof (subst run_step.simps, rule lt_bind [OF logs_run_attempt [OF P]])
    fix r
    show "ltriple invar log ok wid (\<lambda>_ l. P l \<and> attempt_logged wid i r l)
        (case r of AttemptReturn outcome \<Rightarrow> eret outcome
         | AttemptFailed reason \<Rightarrow>
             if a + 1 < ?mx
             then ebind (retry_pause E wid i step a (a + 1)) (\<lambda>cancelled.
                    if cancelled then eret OutcomeWaiting else run_step E wid i step body (a + 1))
             else ebind (store_append E (WorkflowFailed wid reason)) (\<lambda>_. eerr (EngineWorkflowFailed reason)))
        (\<lambda>r _ l. P l \<and> outcome_logged wid i r l) (safely (\<lambda>_. P))"
      by (cases r) (auto intro!: lt_ret again stop)
  qed
qed

section \<open>Workflows\<close>

lemma logs_complete_workflow:
  assumes P: "lasting P"
  shows "ltriple invar log ok wid (\<lambda>_. P) (complete_workflow E wid)
    (\<lambda>_ _ l. P l \<and> workflow_has_terminal_event l) (safely (\<lambda>_. P))"
  unfolding complete_workflow_def
proof (rule lt_bind [OF lt_lock [OF lasting_stable [OF P], where q = "\<lambda>_. P" and
      n = "\<lambda>_ _ l. P l \<and> workflow_has_terminal_event l"]])
  let ?R = "\<lambda>es (b :: bool) l. P l \<and> (workflow_has_terminal_event es \<longrightarrow> workflow_has_terminal_event l)"
  have st: "pstable ok wid (?R es)" for es
    by (rule pstable_mono) (use P in \<open>auto dest: lasting_appendD\<close>)
  show "ltriple invar log ok wid (\<lambda>_. P)
      (ebind (store_load E wid) (\<lambda>events. if workflow_has_terminal_event events then eret ()
         else store_append E (WorkflowCompleted wid)))
      (\<lambda>_ _ l. P l \<and> workflow_has_terminal_event l) (\<lambda>h b. safely (\<lambda>_. P) h False)"
    by (rule lt_bind [OF lt_load [where n = ?R]])
      (auto simp: lasting_stable [OF P] st intro!: lt_ret lt_append dest: lasting_appendD [OF P])
qed (use P in \<open>auto intro!: lt_drop_from_in_flight lasting_stable lasting_conj\<close>)

lemma logs_cancel:
  assumes P: "lasting P"
  shows "ltriple invar log ok wid (\<lambda>_. P) (cancel E wid reason)
    (\<lambda>_ _ l. P l \<and> workflow_has_terminal_event l) (safely (\<lambda>_. P))"
  unfolding cancel_def
proof (rule lt_lock [OF lasting_stable [OF P], where q = "\<lambda>_. P"])
  let ?R = "\<lambda>es (b :: bool) l. P l \<and> (workflow_has_terminal_event es \<longrightarrow> workflow_has_terminal_event l)"
  let ?T = "\<lambda>(_ :: unit) (b :: bool) l. P l \<and> workflow_has_terminal_event l"
  have st: "pstable ok wid (?R es)" "pstable ok wid (?T u)" for es u
    by (rule pstable_mono, use P in \<open>auto dest: lasting_appendD\<close>)+
  show "ltriple invar log ok wid (\<lambda>_. P)
      (ebind (store_load E wid) (\<lambda>events. if workflow_has_terminal_event events then eret ()
         else ebind (store_append E (WorkflowCancelled wid reason)) (\<lambda>_. drop_from_in_flight E wid)))
      (\<lambda>_ _ l. P l \<and> workflow_has_terminal_event l) (\<lambda>h b. safely (\<lambda>_. P) h False)"
    by (rule lt_bind [OF lt_load [where n = ?R]])
      (auto simp: lasting_stable [OF P] st intro!: lt_ret lt_bind [OF lt_append [where n = ?T]]
        lt_drop_from_in_flight dest: lasting_appendD [OF P])
qed auto

lemma logs_drive_steps:
  "lasting P \<Longrightarrow> \<forall>k \<in> set ks. k < length bodies \<Longrightarrow>
    ltriple invar log ok wid (\<lambda>_. P) (drive_steps E wid steps bodies ks)
      (\<lambda>_ _ l. P l \<and> driven wid ks l) (safely (\<lambda>_. P))"
proof (induction ks arbitrary: P)
  case Nil
  show ?case
    unfolding drive_steps.simps
    by (rule lt_weaken [OF logs_complete_workflow [OF Nil(1)]]) (auto simp: driven_def)
next
  case (Cons k ks)
  note P = \<open>lasting P\<close>
  have rest: "ltriple invar log ok wid (\<lambda>_ l. P l \<and> step_completed wid (of_nat k) l)
      (drive_steps E wid steps bodies ks) (\<lambda>_ _ l. P l \<and> driven wid (k # ks) l) (safely (\<lambda>_. P))"
  proof (rule lt_weaken)
    show "ltriple invar log ok wid (\<lambda>_ l. P l \<and> step_completed wid (of_nat k) l)
        (drive_steps E wid steps bodies ks)
        (\<lambda>_ _ l. (P l \<and> step_completed wid (of_nat k) l) \<and> driven wid ks l)
        (safely (\<lambda>_ l. P l \<and> step_completed wid (of_nat k) l))"
      by (rule Cons.IH) (use Cons.prems in \<open>auto intro: lasting_conj\<close>)
  qed (auto simp: safely_def intro: driven_Cons)
  have step: "ltriple invar log ok wid (\<lambda>_. P)
      (ebind (or_drop E wid (run_step E wid (of_nat k) step body 0)) (\<lambda>outcome. case outcome of
         OutcomeCompleted \<Rightarrow> drive_steps E wid steps bodies ks | OutcomeWaiting \<Rightarrow> eret ()))
      (\<lambda>_ _ l. P l \<and> driven wid (k # ks) l) (safely (\<lambda>_. P))" for step body
  proof (rule lt_bind [OF lt_or_drop [OF logs_run_step [OF P refl]]])
    fix r
    show "ltriple invar log ok wid (\<lambda>_ l. P l \<and> outcome_logged wid (of_nat k) r l)
        (case r of OutcomeCompleted \<Rightarrow> drive_steps E wid steps bodies ks | OutcomeWaiting \<Rightarrow> eret ())
        (\<lambda>_ _ l. P l \<and> driven wid (k # ks) l) (safely (\<lambda>_. P))"
      by (cases r) (auto intro!: rest lt_ret driven_stop)
  qed (simp add: lasting_stable [OF P])
  show ?case
    unfolding drive_steps.simps
  proof (rule lt_bind [OF lt_load [where n = "\<lambda>es _ l. P l \<and> (workflow_is_cancelled es \<longrightarrow> workflow_is_cancelled l)"]])
    fix es
    show "ltriple invar log ok wid
        (\<lambda>_ l. P l \<and> (workflow_is_cancelled es \<longrightarrow> workflow_is_cancelled l))
        (if workflow_is_cancelled es then eret ()
         else if length bodies \<le> k then epanic
         else ebind (or_drop E wid (run_step E wid (of_nat k) (steps ! k) (bodies ! k) 0)) (\<lambda>outcome.
                case outcome of
                  OutcomeCompleted \<Rightarrow> drive_steps E wid steps bodies ks
                | OutcomeWaiting \<Rightarrow> eret ()))
        (\<lambda>_ _ l. P l \<and> driven wid (k # ks) l) (safely (\<lambda>_. P))"
      using Cons.prems(2)
      by (auto intro!: lt_ret driven_cancelled lt_weaken [OF step])
  qed (auto simp: lasting_stable [OF P])
qed

lemma logs_drive_from:
  "lasting P \<Longrightarrow> length bodies = length steps \<Longrightarrow>
    ltriple invar log ok wid (\<lambda>_. P) (drive_from E wid steps bodies n)
      (\<lambda>_ _ l. P l \<and> driven wid [n..<length steps] l) (safely (\<lambda>_. P))"
  unfolding drive_from_def by (rule logs_drive_steps) auto

section \<open>Recovery\<close>

lemma logs_recover_each:
  "lasting P \<Longrightarrow>
    ltriple invar log ok wid (\<lambda>_. P) (recover_each E xs n)
      (\<lambda>m _ l. P l \<and> m = n + of_nat (length xs) \<and>
         (\<forall>x \<in> set xs. exec_workflow_id x = wid \<longrightarrow> WorkerRecovered wid (exec_step_index x) \<in> set l))
      (safely (\<lambda>_. P))"
proof (induction xs arbitrary: n P)
  case Nil
  then show ?case by (auto intro: lt_ret)
next
  case (Cons x xs)
  note P = Cons.prems
  define Q where "Q l \<longleftrightarrow> P l \<and>
      (exec_workflow_id x = wid \<longrightarrow> WorkerRecovered wid (exec_step_index x) \<in> set l)" for l
  have Q: "lasting Q" using P by (auto simp: lasting_def Q_def)
  have readmit: "ltriple invar log ok wid (\<lambda>_. P)
      (readmit_after_worker_recovery E (exec_workflow_id x) (exec_step_index x) (exec_attempt x))
      (\<lambda>_ _. Q) (safely (\<lambda>_. P))"
    unfolding readmit_after_worker_recovery_def
  proof (rule lt_bind [OF lt_append [where n = "\<lambda>_ _. Q"]])
    show "Q (l @ own_event wid (WorkerRecovered (exec_workflow_id x) (exec_step_index x)))" if "P l" for l
      using that lasting_appendD [OF P that] by (auto simp: Q_def own_event_def)
  qed (use P in \<open>auto simp: lasting_stable Q_def safely_def
      intro!: lt_weaken [OF keeps_readmit_tail [OF lasting_kept [OF Q]]]\<close>)
  have "ltriple invar log ok wid (\<lambda>_. Q) (recover_each E xs (n + 1))
      (\<lambda>m _ l. Q l \<and> m = n + 1 + of_nat (length xs) \<and>
         (\<forall>x \<in> set xs. exec_workflow_id x = wid \<longrightarrow> WorkerRecovered wid (exec_step_index x) \<in> set l))
      (safely (\<lambda>_. Q))"
    by (rule Cons.IH [OF Q])
  then have "ltriple invar log ok wid (\<lambda>_. Q) (recover_each E xs (n + 1))
      (\<lambda>m _ l. P l \<and> m = n + of_nat (length (x # xs)) \<and>
         (\<forall>x \<in> set (x # xs). exec_workflow_id x = wid \<longrightarrow> WorkerRecovered wid (exec_step_index x) \<in> set l))
      (safely (\<lambda>_. P))"
    by (rule lt_weaken) (auto simp: Q_def safely_def)
  then show ?case unfolding recover_each.simps by (rule lt_bind [OF readmit])
qed

end

end
