(* ===== verification/EventCodec.thy ===== *)
theory EventCodec
  imports WorkflowTypes
begin

text \<open>
  The line-based event encoding of \<open>src/store/sqlite.rs\<close>: field escaping, \<open>encode_event\<close> and
  \<open>decode_event\<close>, and the round trip between them.
\<close>

section \<open>Escaping\<close>

text \<open>
  \<open>s.replace('\', "\\").replace('\n', "\n")\<close> (with the backslashes doubled as in the source):
  every character is replaced on its own, first backslashes, then line feeds.
\<close>

definition replace_char :: "char \<Rightarrow> string \<Rightarrow> string \<Rightarrow> string" where
  "replace_char c r s = concat (map (\<lambda>x. if x = c then r else [x]) s)"

definition escape_field :: "string \<Rightarrow> string" where
  "escape_field s =
     replace_char (CHR 0x0A) [CHR 0x5C, CHR ''n''] (replace_char (CHR 0x5C) [CHR 0x5C, CHR 0x5C] s)"

text \<open>The loop of \<open>unescape_field\<close>: a backslash looks at the character after it.\<close>

fun unescape_field :: "string \<Rightarrow> string" where
  "unescape_field [] = []"
| "unescape_field (c # cs) =
     (if c = CHR 0x5C then
        (case cs of
           [] \<Rightarrow> [CHR 0x5C]
         | d # ds \<Rightarrow>
             (if d = CHR ''n'' then CHR 0x0A # unescape_field ds
              else if d = CHR 0x5C then CHR 0x5C # unescape_field ds
              else CHR 0x5C # d # unescape_field ds))
      else c # unescape_field cs)"

definition escape_char :: "char \<Rightarrow> string" where
  "escape_char c =
     (if c = CHR 0x5C then [CHR 0x5C, CHR 0x5C] else if c = CHR 0x0A then [CHR 0x5C, CHR ''n''] else [c])"

lemma replace_char_simps [simp]:
  "replace_char c r [] = []"
  "replace_char c r (x # xs) = (if x = c then r else [x]) @ replace_char c r xs"
  "replace_char c r (xs @ ys) = replace_char c r xs @ replace_char c r ys"
  by (simp_all add: replace_char_def)

lemma escape_field_chars: "escape_field s = concat (map escape_char s)"
  by (induction s) (simp_all add: escape_field_def escape_char_def)

lemma unescape_escape [simp]: "unescape_field (escape_field s) = s"
  unfolding escape_field_chars by (induction s) (simp_all add: escape_char_def)

lemma escape_field_no_newline [simp]: "CHR 0x0A \<notin> set (escape_field s)"
  unfolding escape_field_chars by (induction s) (simp_all add: escape_char_def)

section \<open>Encoding\<close>

fun event_lines :: "event \<Rightarrow> string list" where
  "event_lines (WorkflowStarted w) = [''WorkflowStarted'', escape_field w]"
| "event_lines (StepStarted w i a) =
     [''StepStarted'', escape_field w, show_usize i, show_u32 a]"
| "event_lines (StepCompleted w i out) =
     [''StepCompleted'', escape_field w, show_usize i, escape_field out]"
| "event_lines (StepFailed w i r) =
     [''StepFailed'', escape_field w, show_usize i, escape_field r]"
| "event_lines (RetryScheduled w i a) =
     [''RetryScheduled'', escape_field w, show_usize i, show_u32 a]"
| "event_lines (StepWaiting w i r) =
     [''StepWaiting'', escape_field w, show_usize i, escape_field r]"
| "event_lines (StepResumed w i inp) =
     [''StepResumed'', escape_field w, show_usize i, escape_field inp]"
| "event_lines (WorkflowCompleted w) = [''WorkflowCompleted'', escape_field w]"
| "event_lines (WorkflowFailed w r) = [''WorkflowFailed'', escape_field w, escape_field r]"
| "event_lines (WorkflowCancelled w r) = [''WorkflowCancelled'', escape_field w, escape_field r]"
| "event_lines (WorkerRecovered w i) = [''WorkerRecovered'', escape_field w, show_usize i]"

definition encode_event :: "event \<Rightarrow> string" where
  "encode_event e = join_with (CHR 0x0A) (event_lines e)"

section \<open>Decoding\<close>

text \<open>The readers take the next line off the iterator, which is the list of lines left.\<close>

definition truncated :: store_error where
  "truncated = Backend ''truncated event payload''"

fun read_field :: "string list \<Rightarrow> (string \<times> string list, store_error) result" where
  "read_field [] = Err truncated"
| "read_field (line # ls) = Ok (unescape_field line, ls)"

fun read_usize :: "string list \<Rightarrow> (usize \<times> string list, store_error) result" where
  "read_usize [] = Err truncated"
| "read_usize (line # ls) =
     (case parse_usize line of
        None \<Rightarrow> Err (Backend ''invalid step_index in event payload'')
      | Some i \<Rightarrow> Ok (i, ls))"

fun read_u32 :: "string list \<Rightarrow> (u32 \<times> string list, store_error) result" where
  "read_u32 [] = Err truncated"
| "read_u32 (line # ls) =
     (case parse_u32 line of
        None \<Rightarrow> Err (Backend ''invalid attempt in event payload'')
      | Some a \<Rightarrow> Ok (a, ls))"

text \<open>The four shapes of fields after the kind, in the order \<open>decode_event\<close> reads them.\<close>

definition read_wf :: "string list \<Rightarrow> (string \<Rightarrow> event) \<Rightarrow> (event, store_error) result" where
  "read_wf ls mk = result_bind (read_field ls) (\<lambda>(w, _). Ok (mk w))"

definition read_wf_reason ::
    "string list \<Rightarrow> (string \<Rightarrow> string \<Rightarrow> event) \<Rightarrow> (event, store_error) result" where
  "read_wf_reason ls mk =
     result_bind (read_field ls) (\<lambda>(w, ls1). result_bind (read_field ls1) (\<lambda>(r, _). Ok (mk w r)))"

definition read_step :: "string list \<Rightarrow> (string \<Rightarrow> usize \<Rightarrow> event) \<Rightarrow> (event, store_error) result" where
  "read_step ls mk =
     result_bind (read_field ls) (\<lambda>(w, ls1). result_bind (read_usize ls1) (\<lambda>(i, _). Ok (mk w i)))"

definition read_step_field ::
    "string list \<Rightarrow> (string \<Rightarrow> usize \<Rightarrow> string \<Rightarrow> event) \<Rightarrow> (event, store_error) result" where
  "read_step_field ls mk =
     result_bind (read_field ls) (\<lambda>(w, ls1).
       result_bind (read_usize ls1) (\<lambda>(i, ls2).
         result_bind (read_field ls2) (\<lambda>(f, _). Ok (mk w i f))))"

definition read_step_attempt ::
    "string list \<Rightarrow> (string \<Rightarrow> usize \<Rightarrow> u32 \<Rightarrow> event) \<Rightarrow> (event, store_error) result" where
  "read_step_attempt ls mk =
     result_bind (read_field ls) (\<lambda>(w, ls1).
       result_bind (read_usize ls1) (\<lambda>(i, ls2).
         result_bind (read_u32 ls2) (\<lambda>(a, _). Ok (mk w i a))))"

definition decode_lines :: "string \<Rightarrow> string list \<Rightarrow> (event, store_error) result" where
  "decode_lines kind ls =
     (if kind = ''WorkflowStarted'' then read_wf ls WorkflowStarted
      else if kind = ''StepStarted'' then read_step_attempt ls StepStarted
      else if kind = ''StepCompleted'' then read_step_field ls StepCompleted
      else if kind = ''StepFailed'' then read_step_field ls StepFailed
      else if kind = ''RetryScheduled'' then read_step_attempt ls RetryScheduled
      else if kind = ''StepWaiting'' then read_step_field ls StepWaiting
      else if kind = ''StepResumed'' then read_step_field ls StepResumed
      else if kind = ''WorkflowCompleted'' then read_wf ls WorkflowCompleted
      else if kind = ''WorkflowFailed'' then read_wf_reason ls WorkflowFailed
      else if kind = ''WorkflowCancelled'' then read_wf_reason ls WorkflowCancelled
      else if kind = ''WorkerRecovered'' then read_step ls WorkerRecovered
      else Err (Backend (''unknown event kind: '' @ kind)))"

definition decode_event :: "string \<Rightarrow> (event, store_error) result" where
  "decode_event payload =
     (case split_on (CHR 0x0A) payload of
        [] \<Rightarrow> Err (Backend ''empty event payload'')
      | kind # ls \<Rightarrow> decode_lines kind ls)"

section \<open>Round trip\<close>

lemmas read_simps =
  read_wf_def read_wf_reason_def read_step_def read_step_field_def read_step_attempt_def

lemma event_lines_no_newline: "l \<in> set (event_lines e) \<Longrightarrow> CHR 0x0A \<notin> set l"
  by (cases e) auto

lemma event_lines_not_Nil [simp]: "event_lines e \<noteq> []"
  by (cases e) auto

lemma split_encode_event: "split_on (CHR 0x0A) (encode_event e) = event_lines e"
  unfolding encode_event_def by (rule split_on_join_with) (auto dest: event_lines_no_newline)

lemma decode_encode [simp]: "decode_event (encode_event e) = Ok e"
  unfolding decode_event_def split_encode_event
  by (cases e) (simp_all add: decode_lines_def read_simps)

lemma encode_event_inj: "encode_event a = encode_event b \<longleftrightarrow> a = b"
  by (metis decode_encode result.inject(1))

lemma read_not_Panic:
  "read_field ls \<noteq> Panic" "read_usize ls \<noteq> Panic" "read_u32 ls \<noteq> Panic"
  by (cases ls; simp split: option.splits)+

lemma result_bind_not_Panic:
  "m \<noteq> Panic \<Longrightarrow> (\<And>x. f x \<noteq> Panic) \<Longrightarrow> result_bind m f \<noteq> Panic"
  by (cases m) simp_all

lemma read_event_not_Panic:
  "read_wf ls f1 \<noteq> Panic" "read_wf_reason ls f2 \<noteq> Panic" "read_step ls f3 \<noteq> Panic"
  "read_step_field ls f4 \<noteq> Panic" "read_step_attempt ls f5 \<noteq> Panic"
  unfolding read_simps split_def
  by (intro result_bind_not_Panic read_not_Panic; simp)+

lemma decode_event_not_Panic: "decode_event s \<noteq> Panic"
  by (cases "split_on (CHR 0x0A) s")
    (simp_all add: decode_event_def decode_lines_def read_event_not_Panic)

end
