(* ===== verification/SqliteModel.thy ===== *)
theory SqliteModel
  imports EventCodec "HOL-Library.AList"
begin

text \<open>
  \<open>SqliteStore\<close> of \<open>src/store/sqlite.rs\<close> over a model of what it asks of SQLite: the two tables,
  a transaction that restores them when it is dropped without a commit, and the connection mutex
  with its poison flag.  A failure of a \<open>rusqlite\<close> call is not under the crate's control: the
  state carries the fates of the coming calls, \<open>None\<close> for success and \<open>Some msg\<close> for an error
  whose \<open>Display\<close> is \<open>msg\<close>, so every early return of the source is a branch of the model.
\<close>

section \<open>The database\<close>

record event_row =
  ev_workflow_id :: string
  ev_payload :: string
  ev_ts_millis :: int

record step_row =
  row_status :: string
  row_worker_id :: "string option"
  row_expires_at_secs :: "int option"
  row_expires_at_nanos :: "int option"
  row_output :: "string option"
  row_reason :: "string option"
  row_attempt :: int

text \<open>
  Event rows are listed in the order of their \<open>AUTOINCREMENT\<close> id, step rows in the order of
  their \<open>rowid\<close>, keyed by the primary key.  A table that does not exist has no columns.
\<close>

type_synonym step_key = "string \<times> int"

record db =
  events_columns :: "string list"
  events_rows :: "event_row list"
  steps_columns :: "string list"
  steps_rows :: "(step_key \<times> step_row) list"

record sqlite =
  conn_db :: db
  poisoned :: bool
  fates :: "string option list"

type_synonym ('a, 'e) sq = "sqlite \<Rightarrow> ('a, 'e) result \<times> sqlite"

definition sq_return :: "'a \<Rightarrow> ('a, 'e) sq" where
  "sq_return a s = (Ok a, s)"

definition sq_fail :: "'e \<Rightarrow> ('a, 'e) sq" where
  "sq_fail e s = (Err e, s)"

definition sq_lift :: "('a, 'e) result \<Rightarrow> ('a, 'e) sq" where
  "sq_lift r s = (r, s)"

definition sq_bind :: "('a, 'e) sq \<Rightarrow> ('a \<Rightarrow> ('b, 'e) sq) \<Rightarrow> ('b, 'e) sq" where
  "sq_bind m f s =
     (case m s of
        (Ok a, s') \<Rightarrow> f a s'
      | (Err e, s') \<Rightarrow> (Err e, s')
      | (Panic, s') \<Rightarrow> (Panic, s'))"

text \<open>\<open>.map_err(|e| StoreError::Backend(e.to_string()))\<close>; the error is its text already.\<close>

definition backend :: "('a, string) sq \<Rightarrow> ('a, store_error) sq" where
  "backend m s = (case m s of (r, s') \<Rightarrow> (map_err Backend r, s'))"

text \<open>One call into \<open>rusqlite\<close>: it fails with its fate, or has its effect on the database.\<close>

definition rusqlite :: "(db \<Rightarrow> 'a \<times> db) \<Rightarrow> ('a, string) sq" where
  "rusqlite f s =
     (case fates s of
        Some msg # fs \<Rightarrow> (Err msg, s\<lparr>fates := fs\<rparr>)
      | fs \<Rightarrow> (case f (conn_db s) of (a, d) \<Rightarrow> (Ok a, s\<lparr>conn_db := d, fates := tl fs\<rparr>)))"

definition query :: "(db \<Rightarrow> 'a) \<Rightarrow> ('a, string) sq" where
  "query f = rusqlite (\<lambda>d. (f d, d))"

definition execute :: "(db \<Rightarrow> db) \<Rightarrow> (unit, string) sq" where
  "execute f = rusqlite (\<lambda>d. ((), f d))"

text \<open>
  \<open>lock_conn\<close> around an operation: a poisoned mutex is an error, and a panic while the guard is
  held poisons it.
\<close>

definition lock_conn :: "('a, store_error) sq \<Rightarrow> ('a, store_error) sq" where
  "lock_conn body s =
     (if poisoned s then (Err (Backend ''sqlite connection mutex poisoned''), s)
      else (case body s of
              (Panic, s') \<Rightarrow> (Panic, s'\<lparr>poisoned := True\<rparr>)
            | (r, s') \<Rightarrow> (r, s')))"

text \<open>
  \<open>conn.transaction()\<close>, a body, \<open>tx.commit()\<close>: dropping the transaction on any other way out
  of the body, or when the commit fails, rolls the database back.
\<close>

definition transaction :: "('a, store_error) sq \<Rightarrow> ('a, store_error) sq" where
  "transaction body =
     sq_bind (backend (query (\<lambda>d. d))) (\<lambda>before s.
       case sq_bind body (\<lambda>a. sq_bind (backend (query (\<lambda>d. ()))) (\<lambda>_. sq_return a)) s of
         (Ok a, s') \<Rightarrow> (Ok a, s')
       | (r, s') \<Rightarrow> (r, s'\<lparr>conn_db := before\<rparr>))"

section \<open>Opening the store\<close>

definition new_events_columns :: "string list" where
  "new_events_columns = [''id'', ''workflow_id'', ''payload'', ''ts_millis'']"

definition new_steps_columns :: "string list" where
  "new_steps_columns =
     [''workflow_id'', ''step_index'', ''status'', ''worker_id'', ''expires_at_secs'',
      ''expires_at_nanos'', ''output'', ''reason'', ''attempt'']"

text \<open>The \<open>CREATE TABLE IF NOT EXISTS\<close> batch.\<close>

definition create_schema :: "db \<Rightarrow> db" where
  "create_schema d =
     d\<lparr>events_columns := (if events_columns d = [] then new_events_columns else events_columns d),
       steps_columns := (if steps_columns d = [] then new_steps_columns else steps_columns d)\<rparr>"

definition add_ts_millis_column :: "db \<Rightarrow> db" where
  "add_ts_millis_column d =
     d\<lparr>events_columns := events_columns d @ [''ts_millis''],
       events_rows := map (\<lambda>r. r\<lparr>ev_ts_millis := 0\<rparr>) (events_rows d)\<rparr>"

text \<open>The loop over the rows of \<open>PRAGMA table_info(events)\<close>; each row read is a call.\<close>

fun find_column :: "string \<Rightarrow> string list \<Rightarrow> (bool, store_error) sq" where
  "find_column c [] = sq_return False"
| "find_column c (name # names) =
     sq_bind (backend (query (\<lambda>d. ()))) (\<lambda>_.
       if name = c then sq_return True else find_column c names)"

definition ensure_events_ts_millis_column :: "(unit, store_error) sq" where
  "ensure_events_ts_millis_column =
     sq_bind (backend (query (\<lambda>d. ()))) (\<lambda>_.
     sq_bind (backend (query events_columns)) (\<lambda>names.
     sq_bind (find_column ''ts_millis'' names) (\<lambda>has_ts_millis.
       if has_ts_millis then sq_return ()
       else backend (execute add_ts_millis_column))))"

definition sqlite_new :: "(unit, store_error) sq" where
  "sqlite_new =
     sq_bind (backend (query (\<lambda>d. ()))) (\<lambda>_.
     sq_bind (backend (execute create_schema)) (\<lambda>_.
       ensure_events_ts_millis_column))"

section \<open>The event log\<close>

definition as_millis :: "duration \<Rightarrow> nat" where
  "as_millis d = unat (as_secs d) * 1000 + unat (subsec_nanos d) div 1000000"

text \<open>\<open>d.as_millis() as i64\<close> keeps the low 64 bits of the \<open>u128\<close>.\<close>

definition ts_millis_of :: "system_time \<Rightarrow> int" where
  "ts_millis_of now =
     (case since_epoch now of Some d \<Rightarrow> u64_as_i64 (of_nat (as_millis d)) | None \<Rightarrow> 0)"

definition insert_event :: "string \<Rightarrow> string \<Rightarrow> int \<Rightarrow> db \<Rightarrow> db" where
  "insert_event w p ts d =
     d\<lparr>events_rows := events_rows d @ [\<lparr>ev_workflow_id = w, ev_payload = p, ev_ts_millis = ts\<rparr>]\<rparr>"

definition select_events :: "string \<Rightarrow> db \<Rightarrow> (string \<times> int) list" where
  "select_events w d =
     map (\<lambda>r. (ev_payload r, ev_ts_millis r)) (filter (\<lambda>r. ev_workflow_id r = w) (events_rows d))"

fun decode_rows_ts :: "(string \<times> int) list \<Rightarrow> ((event \<times> int) list, store_error) sq" where
  "decode_rows_ts [] = sq_return []"
| "decode_rows_ts ((payload, ts_millis) # rows) =
     sq_bind (backend (query (\<lambda>d. ()))) (\<lambda>_.
     sq_bind (sq_lift (decode_event payload)) (\<lambda>e.
     sq_bind (decode_rows_ts rows) (\<lambda>es. sq_return ((e, ts_millis) # es))))"

definition load_events_with_timestamps :: "string \<Rightarrow> ((event \<times> int) list, store_error) sq" where
  "load_events_with_timestamps w =
     lock_conn (sq_bind (backend (query (\<lambda>d. ()))) (\<lambda>_.
                sq_bind (backend (query (select_events w))) (\<lambda>rows. decode_rows_ts rows)))"

fun decode_rows :: "string list \<Rightarrow> (event list, store_error) sq" where
  "decode_rows [] = sq_return []"
| "decode_rows (payload # rows) =
     sq_bind (backend (query (\<lambda>d. ()))) (\<lambda>_.
     sq_bind (sq_lift (decode_event payload)) (\<lambda>e.
     sq_bind (decode_rows rows) (\<lambda>es. sq_return (e # es))))"

definition sqlite_load_events :: "string \<Rightarrow> (event list, store_error) sq" where
  "sqlite_load_events w =
     lock_conn (sq_bind (backend (query (\<lambda>d. ()))) (\<lambda>_.
                sq_bind (backend (query (\<lambda>d. map fst (select_events w d)))) (\<lambda>rows. decode_rows rows)))"

section \<open>The steps projection\<close>

definition select_step :: "string \<Rightarrow> usize \<Rightarrow> db \<Rightarrow> step_row option" where
  "select_step w i d = map_of (steps_rows d) (w, u64_as_i64 i)"

text \<open>\<open>INSERT ... ON CONFLICT(workflow_id, step_index) DO UPDATE\<close> with every column named.\<close>

definition upsert_step :: "string \<Rightarrow> usize \<Rightarrow> step_row \<Rightarrow> db \<Rightarrow> db" where
  "upsert_step w i row d = d\<lparr>steps_rows := AList.update (w, u64_as_i64 i) row (steps_rows d)\<rparr>"

definition load_step_row :: "string \<Rightarrow> usize \<Rightarrow> (step_row option, string) sq" where
  "load_step_row w i = query (select_step w i)"

definition current_attempt :: "string \<Rightarrow> usize \<Rightarrow> (int option, string) sq" where
  "current_attempt w i = query (\<lambda>d. map_option row_attempt (select_step w i d))"

definition upsert_step_status ::
    "string \<Rightarrow> usize \<Rightarrow> string \<Rightarrow> string option \<Rightarrow> int option \<Rightarrow> int option \<Rightarrow> string option
     \<Rightarrow> string option \<Rightarrow> int option \<Rightarrow> (unit, string) sq" where
  "upsert_step_status w i status worker secs nanos out reason attempt =
     sq_bind (case attempt of
                Some a \<Rightarrow> sq_return a
              | None \<Rightarrow>
                  sq_bind (current_attempt w i) (\<lambda>a.
                    sq_return (case a of Some a \<Rightarrow> a | None \<Rightarrow> 0)))
       (\<lambda>attempt_val.
          execute (upsert_step w i
            \<lparr>row_status = status, row_worker_id = worker, row_expires_at_secs = secs,
             row_expires_at_nanos = nanos, row_output = out, row_reason = reason,
             row_attempt = attempt_val\<rparr>))"

fun apply_event_projection :: "event \<Rightarrow> (unit, string) sq" where
  "apply_event_projection (WorkflowStarted w) = sq_return ()"
| "apply_event_projection (StepStarted w i a) = sq_return ()"
| "apply_event_projection (StepCompleted w i out) =
     upsert_step_status w i ''completed'' None None None (Some out) None None"
| "apply_event_projection (StepFailed w i reason) =
     sq_bind (current_attempt w i) (\<lambda>a.
       upsert_step_status w i ''failed'' None None None None (Some reason)
         (Some (case a of Some a \<Rightarrow> a | None \<Rightarrow> 0)))"
| "apply_event_projection (RetryScheduled w i attempt) =
     upsert_step_status w i ''pending'' None None None None None (Some (u32_as_i64 attempt))"
| "apply_event_projection (StepWaiting w i reason) =
     upsert_step_status w i ''waiting'' None None None None (Some reason) None"
| "apply_event_projection (StepResumed w i inp) =
     sq_bind (current_attempt w i) (\<lambda>a.
       upsert_step_status w i ''pending'' None None None None None
         (Some (case a of Some a \<Rightarrow> a | None \<Rightarrow> 0)))"
| "apply_event_projection (WorkerRecovered w i) =
     sq_bind (current_attempt w i) (\<lambda>a.
       upsert_step_status w i ''pending'' None None None None None
         (Some (case a of Some a \<Rightarrow> a | None \<Rightarrow> 0)))"
| "apply_event_projection (WorkflowCompleted w) = sq_return ()"
| "apply_event_projection (WorkflowFailed w reason) = sq_return ()"
| "apply_event_projection (WorkflowCancelled w reason) = sq_return ()"

definition sqlite_append_event :: "event \<Rightarrow> system_time \<Rightarrow> (unit, store_error) sq" where
  "sqlite_append_event e now =
     (let w = event_workflow_id e; payload = encode_event e; ts_millis = ts_millis_of now in
      lock_conn (transaction
        (sq_bind (backend (execute (insert_event w payload ts_millis))) (\<lambda>_.
           backend (apply_event_projection e)))))"

section \<open>Leases\<close>

text \<open>
  Reading the clock is the argument \<open>now\<close>; where an operation reads it twice, both readings
  are the same instant.
\<close>

definition leased_row :: "string \<Rightarrow> int \<times> int \<Rightarrow> int \<Rightarrow> step_row" where
  "leased_row worker expires attempt =
     \<lparr>row_status = ''leased'', row_worker_id = Some worker, row_expires_at_secs = Some (fst expires),
      row_expires_at_nanos = Some (snd expires), row_output = None, row_reason = None,
      row_attempt = attempt\<rparr>"

definition claim_step_tx ::
    "string \<Rightarrow> usize \<Rightarrow> string \<Rightarrow> duration \<Rightarrow> system_time \<Rightarrow> (claim_result, string) sq" where
  "claim_step_tx w i worker ttl now =
     sq_bind (load_step_row w i) (\<lambda>row.
       let lease =
         (let attempt = (case row of Some r \<Rightarrow> row_attempt r | None \<Rightarrow> 0) in
          sq_bind (execute (upsert_step w i
                     (leased_row worker (system_time_parts (lease_expiry now ttl)) attempt)))
            (\<lambda>_. sq_return Claimed))
       in case row of
            None \<Rightarrow> lease
          | Some r \<Rightarrow>
              (if row_status r = ''completed'' then
                 sq_return (AlreadyCompleted (case row_output r of Some out \<Rightarrow> out | None \<Rightarrow> []))
               else if row_status r = ''waiting'' then sq_return AlreadyWaiting
               else if row_status r = ''leased'' then
                 (case (row_worker_id r, row_expires_at_secs r, row_expires_at_nanos r) of
                    (Some holder, Some secs, Some nanos) \<Rightarrow>
                      sq_bind (sq_lift (system_time_from_parts (Some secs) (Some nanos))) (\<lambda>expires_at.
                        if holder \<noteq> worker \<and> now < expires_at then sq_return HeldByOther else lease)
                  | _ \<Rightarrow> lease)
               else lease))"

definition sqlite_claim_step ::
    "string \<Rightarrow> usize \<Rightarrow> string \<Rightarrow> duration \<Rightarrow> system_time \<Rightarrow> (claim_result, store_error) sq" where
  "sqlite_claim_step w i worker ttl now =
     lock_conn (transaction (backend (claim_step_tx w i worker ttl now)))"

text \<open>The \<open>UPDATE\<close> of \<open>renew_lease\<close>: the number of rows it changed, and the new table.\<close>

definition update_lease :: "string \<Rightarrow> usize \<Rightarrow> string \<Rightarrow> int \<times> int \<Rightarrow> db \<Rightarrow> nat \<times> db" where
  "update_lease w i worker expires d =
     (case select_step w i d of
        None \<Rightarrow> (0, d)
      | Some r \<Rightarrow>
          (if row_status r = ''leased'' \<and> row_worker_id r = Some worker then
             (1, upsert_step w i (r\<lparr>row_expires_at_secs := Some (fst expires),
                                    row_expires_at_nanos := Some (snd expires)\<rparr>) d)
           else (0, d)))"

definition sqlite_renew_lease ::
    "string \<Rightarrow> usize \<Rightarrow> string \<Rightarrow> duration \<Rightarrow> system_time \<Rightarrow> (unit, store_error) sq" where
  "sqlite_renew_lease w i worker ttl now =
     lock_conn (transaction
       (sq_bind (backend (load_step_row w i)) (\<lambda>row.
          case row of
            None \<Rightarrow> sq_fail NotFound
          | Some r \<Rightarrow>
              (if row_status r \<noteq> ''leased'' \<or> row_worker_id r \<noteq> Some worker then
                 sq_fail (Backend ''lease not held by worker'')
               else
                 sq_bind (backend (rusqlite (update_lease w i worker
                            (system_time_parts (lease_expiry now ttl))))) (\<lambda>updated.
                   if updated = 0 then sq_fail (Backend ''lease not held by worker'')
                   else sq_return ())))))"

text \<open>The \<open>WHERE\<close> clause of \<open>expired_leases\<close>; comparing with \<open>NULL\<close> selects nothing.\<close>

definition lease_expired :: "int \<times> int \<Rightarrow> step_row \<Rightarrow> bool" where
  "lease_expired now r =
     (row_status r = ''leased'' \<and> row_worker_id r \<noteq> None \<and>
      (case row_expires_at_secs r of
         None \<Rightarrow> False
       | Some secs \<Rightarrow>
           secs < fst now \<or>
           (secs = fst now \<and>
            (case row_expires_at_nanos r of None \<Rightarrow> False | Some nanos \<Rightarrow> nanos \<le> snd now))))"

fun read_leases :: "(step_key \<times> step_row) list \<Rightarrow> (execution list, store_error) sq" where
  "read_leases [] = sq_return []"
| "read_leases (((w, i), r) # rows) =
     sq_bind (backend (query (\<lambda>d. ()))) (\<lambda>_.
     sq_bind (sq_lift (system_time_from_parts (row_expires_at_secs r) (row_expires_at_nanos r)))
       (\<lambda>expires_at.
     sq_bind (read_leases rows) (\<lambda>out.
       sq_return (\<lparr>exec_workflow_id = w, exec_step_index = i64_as_u64 i,
                   exec_attempt = i64_as_u32 (row_attempt r),
                   exec_worker_id = (case row_worker_id r of Some v \<Rightarrow> v | None \<Rightarrow> []),
                   exec_lease_expires_at = expires_at\<rparr> # out))))"

definition sqlite_expired_leases :: "system_time \<Rightarrow> (execution list, store_error) sq" where
  "sqlite_expired_leases now =
     lock_conn (sq_bind (backend (query (\<lambda>d. ()))) (\<lambda>_.
                sq_bind (backend (query (\<lambda>d.
                  filter (\<lambda>(k, r). lease_expired (system_time_parts now) r) (steps_rows d))))
                  (\<lambda>rows. read_leases rows)))"

definition sqlite_ops :: "sqlite durable_ops" where
  "sqlite_ops =
     \<lparr>append_event = sqlite_append_event, load_events = sqlite_load_events,
      claim_step = sqlite_claim_step, renew_lease = sqlite_renew_lease,
      expired_leases = sqlite_expired_leases\<rparr>"

end
