(* ===== verification/SqliteStore.thy ===== *)
theory SqliteStore
  imports SqliteModel StoreContract
begin

text \<open>
  \<open>SqliteStore\<close> meets the store contracts.  Programs over the connection are reasoned about with
  a judgement on the database they start from; each operation is then characterised by a pure
  function of the tables it leaves behind, whatever the fates of its \<open>rusqlite\<close> calls.
\<close>

section \<open>Judgements\<close>

text \<open>
  From the tables \<open>d\<close> the program does not panic; a value \<open>a\<close> leaves tables that satisfy
  \<open>R a\<close>, an error leaves tables that satisfy \<open>E\<close>.
\<close>

definition sq_runs :: "db \<Rightarrow> ('a, 'e) sq \<Rightarrow> ('a \<Rightarrow> db \<Rightarrow> bool) \<Rightarrow> (db \<Rightarrow> bool) \<Rightarrow> bool" where
  "sq_runs d m R E \<longleftrightarrow>
     (\<forall>s r s'. conn_db s = d \<longrightarrow> m s = (r, s') \<longrightarrow>
        returns (\<lambda>a. R a (conn_db s')) (E (conn_db s')) r)"

lemma sq_runsI:
  "(\<And>s r s'. conn_db s = d \<Longrightarrow> m s = (r, s') \<Longrightarrow> returns (\<lambda>a. R a (conn_db s')) (E (conn_db s')) r)
     \<Longrightarrow> sq_runs d m R E"
  by (simp add: sq_runs_def)

lemma sq_runsD:
  "sq_runs (conn_db s) m R E \<Longrightarrow> m s = (r, s') \<Longrightarrow> returns (\<lambda>a. R a (conn_db s')) (E (conn_db s')) r"
  by (simp add: sq_runs_def)

lemma runs_return: "R a d \<Longrightarrow> sq_runs d (sq_return a) R E"
  by (simp add: sq_runs_def sq_return_def)

lemma runs_fail: "E d \<Longrightarrow> sq_runs d (sq_fail e) R E"
  by (simp add: sq_runs_def sq_fail_def)

lemma runs_bind:
  assumes m: "sq_runs d m R' E" and f: "\<And>a d'. R' a d' \<Longrightarrow> sq_runs d' (f a) R E"
  shows "sq_runs d (sq_bind m f) R E"
proof (rule sq_runsI)
  fix s r s'
  assume d: "conn_db s = d" and run: "sq_bind m f s = (r, s')"
  obtain r1 s1 where 1: "m s = (r1, s1)" by (cases "m s")
  show "returns (\<lambda>a. R a (conn_db s')) (E (conn_db s')) r"
    using sq_runsD [OF m [folded d] 1] run 1 f
    by (cases r1) (auto simp: sq_bind_def dest: sq_runsD)
qed

lemma runs_backend: "sq_runs d m R E \<Longrightarrow> sq_runs d (backend m) R E"
proof (rule sq_runsI)
  fix s r s'
  assume m: "sq_runs d m R E" and d: "conn_db s = d" and run: "backend m s = (r, s')"
  obtain r1 where 1: "m s = (r1, s')" "r = map_err Backend r1"
    using run by (auto simp: backend_def split: prod.splits)
  show "returns (\<lambda>a. R a (conn_db s')) (E (conn_db s')) r"
    using sq_runsD [OF m [folded d] 1(1)] 1(2) by (cases r1) simp_all
qed

lemma runs_rusqlite:
  assumes "E d" and "R (fst (f d)) (snd (f d))"
  shows "sq_runs d (rusqlite f) R E"
proof (rule sq_runsI)
  fix s r s'
  assume d: "conn_db s = d" and run: "rusqlite f s = (r, s')"
  show "returns (\<lambda>a. R a (conn_db s')) (E (conn_db s')) r"
    using run assms unfolding rusqlite_def d
    by (auto simp: d split: list.splits option.splits prod.splits)
qed

lemma runs_query: "E d \<Longrightarrow> R (f d) d \<Longrightarrow> sq_runs d (query f) R E"
  unfolding query_def by (rule runs_rusqlite) simp_all

lemma runs_execute: "E d \<Longrightarrow> R () (f d) \<Longrightarrow> sq_runs d (execute f) R E"
  unfolding execute_def by (rule runs_rusqlite) simp_all

lemma runs_bind_query: "E d \<Longrightarrow> sq_runs d (k (f d)) R E \<Longrightarrow> sq_runs d (sq_bind (query f) k) R E"
  by (rule runs_bind [where R' = "\<lambda>a d'. d' = d \<and> a = f d"]) (auto intro: runs_query)

lemma runs_bind_execute: "E d \<Longrightarrow> sq_runs (f d) (k ()) R E \<Longrightarrow> sq_runs d (sq_bind (execute f) k) R E"
  by (rule runs_bind [where R' = "\<lambda>a d'. d' = f d"]) (auto intro: runs_execute)

lemma runs_bind_rusqlite:
  "E d \<Longrightarrow> sq_runs (snd (f d)) (k (fst (f d))) R E \<Longrightarrow> sq_runs d (sq_bind (rusqlite f) k) R E"
  by (rule runs_bind [where R' = "\<lambda>a d'. d' = snd (f d) \<and> a = fst (f d)"]) (auto intro: runs_rusqlite)

lemma runs_bind_return: "sq_runs d (k a) R E \<Longrightarrow> sq_runs d (sq_bind (sq_return a) k) R E"
  by (rule runs_bind [where R' = "\<lambda>b d'. d' = d \<and> b = a"]) (auto intro: runs_return)

lemma runs_bind_lift: "sq_runs d (k a) R E \<Longrightarrow> sq_runs d (sq_bind (sq_lift (Ok a)) k) R E"
  by (rule runs_bind [where R' = "\<lambda>b d'. d' = d \<and> b = a"]) (auto simp: sq_runs_def sq_lift_def)

lemma backend_bind: "sq_bind (backend m) (\<lambda>a. backend (k a)) = backend (sq_bind m k)"
  by (rule ext) (auto simp: sq_bind_def backend_def split: prod.splits result.splits)

lemma runs_bind_backend_query:
  "E d \<Longrightarrow> sq_runs d (k (f d)) R E \<Longrightarrow> sq_runs d (sq_bind (backend (query f)) k) R E"
  by (rule runs_bind [where R' = "\<lambda>a d'. d' = d \<and> a = f d"]) (auto intro: runs_backend runs_query)

lemma runs_bind_backend_execute:
  "E d \<Longrightarrow> sq_runs (f d) (k ()) R E \<Longrightarrow> sq_runs d (sq_bind (backend (execute f)) k) R E"
  by (rule runs_bind [where R' = "\<lambda>a d'. d' = f d"]) (auto intro: runs_backend runs_execute)

lemma runs_bind_backend_rusqlite:
  "E d \<Longrightarrow> sq_runs (snd (f d)) (k (fst (f d))) R E \<Longrightarrow> sq_runs d (sq_bind (backend (rusqlite f)) k) R E"
  by (rule runs_bind [where R' = "\<lambda>a d'. d' = snd (f d) \<and> a = fst (f d)"])
    (auto intro: runs_backend runs_rusqlite)

lemmas runs_rules =
  runs_return runs_fail runs_query runs_execute runs_backend runs_bind_query runs_bind_execute
  runs_bind_return runs_bind_lift runs_bind_backend_query runs_bind_backend_execute
  runs_bind_backend_rusqlite

text \<open>A transaction leaves the body's tables behind when it commits, and the old ones otherwise.\<close>

lemma runs_transaction:
  assumes body: "sq_runs d body R (\<lambda>_. True)"
  shows "sq_runs d (transaction body) R (\<lambda>d'. d' = d)"
  unfolding transaction_def
proof (rule runs_bind_backend_query)
  let ?tx = "sq_bind body (\<lambda>a. sq_bind (backend (query (\<lambda>d. ()))) (\<lambda>_. sq_return a))"
  have tx: "sq_runs d ?tx R (\<lambda>_. True)"
    by (rule runs_bind [OF body]) (auto intro: runs_rules)
  show "sq_runs d (\<lambda>s. case ?tx s of (Ok a, s') \<Rightarrow> (Ok a, s')
        | (Err e, s') \<Rightarrow> (Err e, s'\<lparr>conn_db := d\<rparr>)
        | (Panic, s') \<Rightarrow> (Panic, s'\<lparr>conn_db := d\<rparr>)) R (\<lambda>d'. d' = d)"
  proof (rule sq_runsI)
    fix s r s'
    assume d: "conn_db s = d"
      and run: "(case ?tx s of (Ok a, s') \<Rightarrow> (Ok a, s')
        | (Err e, s') \<Rightarrow> (Err e, s'\<lparr>conn_db := d\<rparr>)
        | (Panic, s') \<Rightarrow> (Panic, s'\<lparr>conn_db := d\<rparr>)) = (r, s')"
    obtain r1 s1 where 1: "?tx s = (r1, s1)" by (cases "?tx s")
    from sq_runsD [OF tx [folded d] 1] run 1
    show "returns (\<lambda>a. R a (conn_db s')) (conn_db s' = d) r" by (cases r1) auto
  qed
qed simp

lemma runs_lock_conn: "sq_runs d body R E \<Longrightarrow> E d \<Longrightarrow> sq_runs d (lock_conn body) R E"
proof (rule sq_runsI)
  fix s r s'
  assume m: "sq_runs d body R E" and E: "E d" and d: "conn_db s = d"
    and run: "lock_conn body s = (r, s')"
  show "returns (\<lambda>a. R a (conn_db s')) (E (conn_db s')) r"
  proof (cases "poisoned s")
    case True
    with run E d show ?thesis by (auto simp: lock_conn_def)
  next
    case False
    obtain r1 s1 where 1: "body s = (r1, s1)" by (cases "body s")
    from sq_runsD [OF m [folded d] 1] run 1 False show ?thesis by (cases r1) (auto simp: lock_conn_def)
  qed
qed

section \<open>The tables an operation leaves behind\<close>

definition attempt_of :: "string \<Rightarrow> usize \<Rightarrow> db \<Rightarrow> int" where
  "attempt_of w i d = (case select_step w i d of Some r \<Rightarrow> row_attempt r | None \<Rightarrow> 0)"

definition plain_row :: "string \<Rightarrow> string option \<Rightarrow> string option \<Rightarrow> int \<Rightarrow> step_row" where
  "plain_row status out reason attempt =
     \<lparr>row_status = status, row_worker_id = None, row_expires_at_secs = None,
      row_expires_at_nanos = None, row_output = out, row_reason = reason, row_attempt = attempt\<rparr>"

fun projected :: "event \<Rightarrow> db \<Rightarrow> db" where
  "projected (StepCompleted w i out) d =
     upsert_step w i (plain_row ''completed'' (Some out) None (attempt_of w i d)) d"
| "projected (StepFailed w i reason) d =
     upsert_step w i (plain_row ''failed'' None (Some reason) (attempt_of w i d)) d"
| "projected (RetryScheduled w i a) d =
     upsert_step w i (plain_row ''pending'' None None (u32_as_i64 a)) d"
| "projected (StepWaiting w i reason) d =
     upsert_step w i (plain_row ''waiting'' None (Some reason) (attempt_of w i d)) d"
| "projected (StepResumed w i inp) d =
     upsert_step w i (plain_row ''pending'' None None (attempt_of w i d)) d"
| "projected (WorkerRecovered w i) d =
     upsert_step w i (plain_row ''pending'' None None (attempt_of w i d)) d"
| "projected e d = d"

lemma runs_upsert_some:
  "R () (upsert_step w i (plain_row st out rs a) d) \<Longrightarrow>
     sq_runs d (upsert_step_status w i st None None None out rs (Some a)) R (\<lambda>_. True)"
  unfolding upsert_step_status_def
  by (simp add: plain_row_def) (intro runs_rules; simp)

lemma runs_upsert_none:
  "R () (upsert_step w i (plain_row st out rs (attempt_of w i d)) d) \<Longrightarrow>
     sq_runs d (upsert_step_status w i st None None None out rs None) R (\<lambda>_. True)"
  unfolding upsert_step_status_def current_attempt_def
  by (simp add: plain_row_def attempt_of_def)
    (rule runs_bind [where R' = "\<lambda>a d'. d' = d \<and> a = attempt_of w i d"];
     auto intro!: runs_rules simp: attempt_of_def split: option.splits)

lemma case_map_attempt:
  "(case map_option row_attempt (select_step w i d) of Some a \<Rightarrow> a | None \<Rightarrow> 0) = attempt_of w i d"
  by (simp add: attempt_of_def split: option.splits)

lemma runs_projection:
  "R () (projected e d) \<Longrightarrow> sq_runs d (apply_event_projection e) R (\<lambda>_. True)"
  by (cases e)
    (simp_all del: case_map_option add: runs_return runs_upsert_some runs_upsert_none
      runs_bind_query current_attempt_def case_map_attempt)

definition appended :: "event \<Rightarrow> system_time \<Rightarrow> db \<Rightarrow> db" where
  "appended e now d =
     projected e (insert_event (event_workflow_id e) (encode_event e) (ts_millis_of now) d)"

lemma runs_append:
  "sq_runs d (sqlite_append_event e now) (\<lambda>_ d'. d' = appended e now d) (\<lambda>d'. d' = d)"
  unfolding sqlite_append_event_def Let_def
  by (intro runs_lock_conn runs_transaction runs_bind_backend_execute runs_backend runs_projection)
    (simp_all add: appended_def)

section \<open>Tables in order\<close>

text \<open>
  Tables the store has written: every payload decodes to an event of its row's workflow, a step
  has one row, and a leased row has a holder and a time that can be read back.
\<close>

definition event_row_ok :: "event_row \<Rightarrow> bool" where
  "event_row_ok r \<longleftrightarrow> (\<exists>e. ev_payload r = encode_event e \<and> ev_workflow_id r = event_workflow_id e)"

definition lease_row_ok :: "step_row \<Rightarrow> bool" where
  "lease_row_ok r \<longleftrightarrow>
     (row_status r = ''leased'' \<longrightarrow>
        (\<exists>h t. row_worker_id r = Some h \<and> clock_ok t \<and>
           row_expires_at_secs r = Some (fst (system_time_parts t)) \<and>
           row_expires_at_nanos r = Some (snd (system_time_parts t))))"

definition db_ok :: "db \<Rightarrow> bool" where
  "db_ok d \<longleftrightarrow>
     (\<forall>r \<in> set (events_rows d). event_row_ok r) \<and>
     (\<forall>(k, r) \<in> set (steps_rows d). lease_row_ok r \<and> (\<exists>i. snd k = u64_as_i64 i)) \<and>
     distinct (map fst (steps_rows d))"

definition decoded :: "string \<Rightarrow> event" where
  "decoded payload = (case decode_event payload of Ok e \<Rightarrow> e | _ \<Rightarrow> WorkflowStarted [])"

definition event_log :: "string \<Rightarrow> db \<Rightarrow> event list" where
  "event_log w d =
     map (\<lambda>r. decoded (ev_payload r)) (filter (\<lambda>r. ev_workflow_id r = w) (events_rows d))"

definition row_expires_at :: "step_row \<Rightarrow> system_time" where
  "row_expires_at r =
     (case system_time_from_parts (row_expires_at_secs r) (row_expires_at_nanos r)
        :: (system_time, unit) result of
        Ok t \<Rightarrow> t | _ \<Rightarrow> 0)"

definition lease_of :: "string \<Rightarrow> usize \<Rightarrow> db \<Rightarrow> lease_view" where
  "lease_of w i d =
     (case select_step w i d of
        None \<Rightarrow> Unclaimed
      | Some r \<Rightarrow>
          (if row_status r = ''completed'' then Done
           else if row_status r = ''waiting'' then Suspended
           else if row_status r = ''leased'' then
             Held (case row_worker_id r of Some h \<Rightarrow> h | None \<Rightarrow> []) (row_expires_at r)
           else Unclaimed))"

lemma decoded_encode [simp]: "decoded (encode_event e) = e"
  by (simp add: decoded_def)

lemma from_parts_of_parts:
  "clock_ok t \<Longrightarrow>
     system_time_from_parts (Some (fst (system_time_parts t))) (Some (snd (system_time_parts t))) = Ok t"
  unfolding clock_ok_def by (rule system_time_parts_roundtrip) auto

lemma lease_row_okE:
  assumes "lease_row_ok r" and "row_status r = ''leased''"
  obtains h t where "row_worker_id r = Some h" "clock_ok t"
    "row_expires_at_secs r = Some (fst (system_time_parts t))"
    "row_expires_at_nanos r = Some (snd (system_time_parts t))"
    "row_expires_at r = t"
  using assms unfolding lease_row_ok_def row_expires_at_def by (auto simp: from_parts_of_parts)

lemma lease_row_ok_plain [simp]: "st \<noteq> ''leased'' \<Longrightarrow> lease_row_ok (plain_row st out rs a)"
  by (simp add: lease_row_ok_def plain_row_def)

lemma lease_row_ok_leased [simp]: "clock_ok t \<Longrightarrow> lease_row_ok (leased_row v (system_time_parts t) a)"
  by (auto simp: lease_row_ok_def leased_row_def)

lemma upsert_step_fields [simp]:
  "events_rows (upsert_step w i r d) = events_rows d"
  "events_rows (projected e d) = events_rows d"
  by (cases e; simp add: upsert_step_def)+

lemma select_upsert [simp]:
  "select_step w' i' (upsert_step w i r d) =
     (if w' = w \<and> i' = i then Some r else select_step w' i' d)"
  by (simp add: select_step_def upsert_step_def update_conv')

lemma select_insert_event [simp]: "select_step w i (insert_event w' p ts d) = select_step w i d"
  by (simp add: select_step_def insert_event_def)

lemma attempt_of_insert_event [simp]: "attempt_of w i (insert_event w' p ts d) = attempt_of w i d"
  by (simp add: attempt_of_def)

lemma db_ok_upsert: "db_ok d \<Longrightarrow> lease_row_ok r \<Longrightarrow> db_ok (upsert_step w i r d)"
proof -
  assume ok: "db_ok d" and r: "lease_row_ok r"
  have "distinct (map fst (AList.update (w, u64_as_i64 i) r (steps_rows d)))"
    using ok by (simp add: db_ok_def distinct_update)
  moreover have "\<forall>(k, r') \<in> set (AList.update (w, u64_as_i64 i) r (steps_rows d)).
      lease_row_ok r' \<and> (\<exists>i. snd k = u64_as_i64 i)"
  proof (rule ballI, clarify)
    fix w' n r'
    assume "((w', n), r') \<in> set (AList.update (w, u64_as_i64 i) r (steps_rows d))"
    with calculation have "map_of (AList.update (w, u64_as_i64 i) r (steps_rows d)) (w', n) = Some r'"
      by (simp add: map_of_is_SomeI)
    then have "(w', n) = (w, u64_as_i64 i) \<and> r' = r \<or> ((w', n), r') \<in> set (steps_rows d)"
      by (auto simp: update_conv' split: if_splits dest: map_of_SomeD)
    with ok r show "lease_row_ok r' \<and> (\<exists>i. snd (w', n) = u64_as_i64 i)"
      unfolding db_ok_def by auto
  qed
  ultimately show ?thesis using ok by (simp add: db_ok_def upsert_step_def)
qed

lemma db_ok_projected: "db_ok d \<Longrightarrow> db_ok (projected e d)"
  by (cases e) (auto intro: db_ok_upsert)

lemma db_ok_appended: "db_ok d \<Longrightarrow> db_ok (appended e now d)"
  unfolding appended_def
  by (rule db_ok_projected) (auto simp: db_ok_def insert_event_def event_row_ok_def)

lemma event_log_appended [simp]: "event_log w (appended e now d) = event_log w d @ own_event w e"
  by (simp add: appended_def event_log_def insert_event_def own_event_def)

lemma event_log_upsert [simp]: "event_log w (upsert_step w' i r d) = event_log w d"
  by (simp add: event_log_def)

lemma select_step_ok: "db_ok d \<Longrightarrow> select_step w i d = Some r \<Longrightarrow> lease_row_ok r"
  by (auto simp: db_ok_def select_step_def dest: map_of_SomeD)

section \<open>Loading\<close>

lemma runs_decode_rows:
  "list_all2 (\<lambda>p e. p = encode_event e) ps es \<Longrightarrow>
     sq_runs d (decode_rows ps) (\<lambda>out d'. d' = d \<and> out = es) (\<lambda>d'. d' = d)"
proof (induction ps arbitrary: es)
  case Nil
  then show ?case by (simp add: runs_return)
next
  case (Cons p ps)
  then obtain e es' where es: "es = e # es'" "p = encode_event e"
    "list_all2 (\<lambda>p e. p = encode_event e) ps es'"
    by (auto simp: list_all2_Cons1)
  show ?case unfolding es decode_rows.simps decode_encode
    by (rule runs_bind_backend_query runs_bind_lift refl runs_bind [OF Cons.IH [OF es(3)]])+
      (simp add: runs_return)
qed

lemma runs_decode_rows_ts:
  "list_all2 (\<lambda>p e. fst p = encode_event (fst e) \<and> snd p = snd e) ps es \<Longrightarrow>
     sq_runs d (decode_rows_ts ps) (\<lambda>out d'. d' = d \<and> out = es) (\<lambda>d'. d' = d)"
proof (induction ps arbitrary: es)
  case Nil
  then show ?case by (simp add: runs_return)
next
  case (Cons p ps)
  then obtain e ts es' where es: "es = (e, ts) # es'" "p = (encode_event e, ts)"
    "list_all2 (\<lambda>p e. fst p = encode_event (fst e) \<and> snd p = snd e) ps es'"
    by (auto simp: list_all2_Cons1 prod_eq_iff)
  show ?case unfolding es decode_rows_ts.simps decode_encode
    by (rule runs_bind_backend_query runs_bind_lift refl runs_bind [OF Cons.IH [OF es(3)]])+
      (simp add: runs_return)
qed

lemma event_rows_encode:
  "db_ok d \<Longrightarrow> r \<in> set (events_rows d) \<Longrightarrow> ev_payload r = encode_event (decoded (ev_payload r))"
  by (auto simp: db_ok_def event_row_ok_def)

lemma runs_load_events:
  assumes ok: "db_ok d"
  shows "sq_runs d (sqlite_load_events w) (\<lambda>es d'. d' = d \<and> es = event_log w d) (\<lambda>d'. d' = d)"
  unfolding sqlite_load_events_def
  by (intro runs_lock_conn runs_bind_backend_query runs_decode_rows)
    (auto simp: select_events_def event_log_def list_all2_map1 list_all2_map2 list_all2_same
      intro: event_rows_encode [OF ok])

definition timed_log :: "string \<Rightarrow> db \<Rightarrow> (event \<times> int) list" where
  "timed_log w d =
     map (\<lambda>r. (decoded (ev_payload r), ev_ts_millis r)) (filter (\<lambda>r. ev_workflow_id r = w) (events_rows d))"

lemma runs_load_events_with_timestamps:
  assumes ok: "db_ok d"
  shows "sq_runs d (load_events_with_timestamps w) (\<lambda>es d'. d' = d \<and> es = timed_log w d) (\<lambda>d'. d' = d)"
  unfolding load_events_with_timestamps_def
  by (intro runs_lock_conn runs_bind_backend_query runs_decode_rows_ts)
    (auto simp: select_events_def timed_log_def list_all2_map1 list_all2_map2 list_all2_same
      intro: event_rows_encode [OF ok])

section \<open>Leases\<close>

definition leased_db :: "string \<Rightarrow> usize \<Rightarrow> string \<Rightarrow> duration \<Rightarrow> system_time \<Rightarrow> db \<Rightarrow> db" where
  "leased_db w i v ttl now d =
     upsert_step w i
       (leased_row v (system_time_parts (lease_expiry now ttl)) (attempt_of w i d)) d"

lemma runs_claim_tx:
  assumes ok: "db_ok d" and now: "clock_ok now"
  shows "sq_runs d (claim_step_tx w i v ttl now)
    (\<lambda>c d'. expected_claim v now (lease_of w i d) c \<and>
            d' = (if c = Claimed then leased_db w i v ttl now d else d)) (\<lambda>_. True)"
proof (cases "select_step w i d")
  case None
  then show ?thesis
    unfolding claim_step_tx_def load_step_row_def
    by (intro runs_bind_query)
      (auto simp: lease_of_def leased_db_def attempt_of_def intro!: runs_rules)
next
  case (Some r)
  show ?thesis
  proof (cases "row_status r = ''leased''")
    case True
    then obtain h t where ht: "row_worker_id r = Some h" "clock_ok t"
      "row_expires_at_secs r = Some (fst (system_time_parts t))"
      "row_expires_at_nanos r = Some (snd (system_time_parts t))" "row_expires_at r = t"
      using lease_row_okE select_step_ok [OF ok Some] by metis
    show ?thesis
      unfolding claim_step_tx_def load_step_row_def
      by (intro runs_bind_query)
        (use True Some ht in \<open>auto simp: lease_of_def leased_db_def attempt_of_def from_parts_of_parts
          intro!: runs_rules\<close>)
  next
    case False
    with Some show ?thesis
      unfolding claim_step_tx_def load_step_row_def
      by (intro runs_bind_query)
        (auto simp: lease_of_def leased_db_def attempt_of_def intro!: runs_rules)
  qed
qed

lemma runs_claim:
  assumes "db_ok d" and "clock_ok now"
  shows "sq_runs d (sqlite_claim_step w i v ttl now)
    (\<lambda>c d'. expected_claim v now (lease_of w i d) c \<and>
            d' = (if c = Claimed then leased_db w i v ttl now d else d)) (\<lambda>d'. d' = d)"
  unfolding sqlite_claim_step_def
  by (intro runs_lock_conn runs_transaction runs_backend runs_claim_tx assms refl)

lemma db_ok_leased_db: "db_ok d \<Longrightarrow> clock_ok now \<Longrightarrow> db_ok (leased_db w i v ttl now d)"
  unfolding leased_db_def by (intro db_ok_upsert lease_row_ok_leased clock_ok_lease_expiry)

lemma event_log_leased_db [simp]: "event_log w' (leased_db w i v ttl now d) = event_log w' d"
  by (simp add: leased_db_def)

lemma lease_of_leased_db:
  "clock_ok now \<Longrightarrow> lease_of w' i' (leased_db w i v ttl now d) =
     (if w' = w \<and> i' = i then Held v (lease_expiry now ttl) else lease_of w' i' d)"
  by (auto simp: lease_of_def leased_db_def leased_row_def row_expires_at_def from_parts_of_parts
      clock_ok_lease_expiry)

definition renewed_db :: "string \<Rightarrow> usize \<Rightarrow> duration \<Rightarrow> system_time \<Rightarrow> step_row \<Rightarrow> db \<Rightarrow> db" where
  "renewed_db w i ttl now r d =
     upsert_step w i
       (r\<lparr>row_expires_at_secs := Some (fst (system_time_parts (lease_expiry now ttl))),
          row_expires_at_nanos := Some (snd (system_time_parts (lease_expiry now ttl)))\<rparr>) d"

lemma runs_renew:
  "sq_runs d (sqlite_renew_lease w i v ttl now)
    (\<lambda>_ d'. \<exists>r. select_step w i d = Some r \<and> row_status r = ''leased'' \<and> row_worker_id r = Some v \<and>
            d' = renewed_db w i ttl now r d) (\<lambda>d'. d' = d)"
  unfolding sqlite_renew_lease_def load_step_row_def
  by (intro runs_lock_conn runs_transaction runs_bind_backend_query)
    (auto simp: update_lease_def renewed_db_def split: option.splits intro!: runs_rules)

lemma event_log_renewed_db [simp]: "event_log w' (renewed_db w i ttl now r d) = event_log w' d"
  by (simp add: renewed_db_def)

lemma lease_of_renewed_db:
  "clock_ok now \<Longrightarrow> row_status r = ''leased'' \<Longrightarrow> row_worker_id r = Some v \<Longrightarrow>
     lease_of w' i' (renewed_db w i ttl now r d) =
     (if w' = w \<and> i' = i then Held v (lease_expiry now ttl) else lease_of w' i' d)"
  by (auto simp: lease_of_def renewed_db_def row_expires_at_def from_parts_of_parts
      clock_ok_lease_expiry)

lemma db_ok_renewed_db:
  "db_ok d \<Longrightarrow> clock_ok now \<Longrightarrow> row_worker_id r = Some v \<Longrightarrow> db_ok (renewed_db w i ttl now r d)"
  unfolding renewed_db_def
  by (rule db_ok_upsert) (auto simp: lease_row_ok_def intro!: exI [of _ "lease_expiry now ttl"]
      clock_ok_lease_expiry)

section \<open>Expired leases\<close>

definition execution_of :: "step_key \<times> step_row \<Rightarrow> execution" where
  "execution_of x =
     \<lparr>exec_workflow_id = fst (fst x), exec_step_index = i64_as_u64 (snd (fst x)),
      exec_attempt = i64_as_u32 (row_attempt (snd x)),
      exec_worker_id = (case row_worker_id (snd x) of Some v \<Rightarrow> v | None \<Rightarrow> []),
      exec_lease_expires_at = row_expires_at (snd x)\<rparr>"

lemma runs_read_leases:
  "\<forall>x \<in> set rows. lease_row_ok (snd x) \<and> row_status (snd x) = ''leased'' \<Longrightarrow>
     sq_runs d (read_leases rows) (\<lambda>out d'. d' = d \<and> out = map execution_of rows) (\<lambda>d'. d' = d)"
proof (induction rows)
  case Nil
  then show ?case by (simp add: runs_return)
next
  case (Cons x rows)
  obtain w i r where x: "x = ((w, i), r)" by (metis prod.exhaust)
  with Cons.prems have "lease_row_ok r" "row_status r = ''leased''" by simp_all
  then obtain h t where ht: "clock_ok t"
      "row_expires_at_secs r = Some (fst (system_time_parts t))"
      "row_expires_at_nanos r = Some (snd (system_time_parts t))" "row_expires_at r = t"
    using lease_row_okE by metis
  have IH: "sq_runs d (read_leases rows) (\<lambda>out d'. d' = d \<and> out = map execution_of rows) (\<lambda>d'. d' = d)"
    using Cons by simp
  show ?case
    unfolding x read_leases.simps ht(2,3) from_parts_of_parts [OF ht(1)]
    by (rule runs_bind_backend_query runs_bind_lift refl runs_bind [OF IH])+
      (simp add: runs_return execution_of_def ht(4))
qed

lemma runs_expired_leases:
  assumes ok: "db_ok d"
  shows "sq_runs d (sqlite_expired_leases now)
    (\<lambda>out d'. d' = d \<and>
       out = map execution_of (filter (\<lambda>x. lease_expired (system_time_parts now) (snd x)) (steps_rows d)))
    (\<lambda>d'. d' = d)"
  unfolding sqlite_expired_leases_def split_def
  by (intro runs_lock_conn runs_bind_backend_query runs_read_leases refl)
    (use ok in \<open>auto simp: db_ok_def lease_expired_def\<close>)

lemma lease_expired_iff:
  assumes ok: "lease_row_ok r" and now: "clock_ok now"
  shows "lease_expired (system_time_parts now) r \<longleftrightarrow> row_status r = ''leased'' \<and> row_expires_at r \<le> now"
proof (cases "row_status r = ''leased''")
  case True
  then obtain h t where ht: "row_worker_id r = Some h" "clock_ok t"
      "row_expires_at_secs r = Some (fst (system_time_parts t))"
      "row_expires_at_nanos r = Some (snd (system_time_parts t))" "row_expires_at r = t"
    using ok lease_row_okE by metis
  with True now show ?thesis
    using system_time_parts_le_iff [of t now]
    by (auto simp: lease_expired_def clock_ok_def prod_eq_iff)
qed (simp add: lease_expired_def)

lemma set_steps_rows:
  "db_ok d \<Longrightarrow> x \<in> set (steps_rows d) \<longleftrightarrow>
     (\<exists>w i. fst x = (w, u64_as_i64 i) \<and> select_step w i d = Some (snd x))"
  unfolding db_ok_def select_step_def
  by (cases x) (auto simp: map_of_is_SomeI dest: map_of_SomeD)

lemma expired_execution_iff:
  assumes ok: "db_ok d" and now: "clock_ok now"
  shows "(\<exists>x \<in> set (map execution_of
        (filter (\<lambda>x. lease_expired (system_time_parts now) (snd x)) (steps_rows d))).
      exec_workflow_id x = w \<and> exec_step_index x = i) \<longleftrightarrow>
    (\<exists>h t. lease_of w i d = Held h t \<and> t \<le> now)" (is "?l \<longleftrightarrow> ?r")
proof -
  have "?l \<longleftrightarrow> (\<exists>r. select_step w i d = Some r \<and> lease_expired (system_time_parts now) r)"
  proof
    assume "\<exists>r. select_step w i d = Some r \<and> lease_expired (system_time_parts now) r"
    then obtain r where "select_step w i d = Some r" "lease_expired (system_time_parts now) r" by blast
    then have "((w, u64_as_i64 i), r) \<in> set (filter (\<lambda>x. lease_expired (system_time_parts now) (snd x)) (steps_rows d))"
      by (auto simp: set_steps_rows [OF ok])
    then show ?l
      by (intro bexI [of _ "execution_of ((w, u64_as_i64 i), r)"])
        (simp add: execution_of_def, simp only: set_map image_eqI)
  qed (auto simp: set_steps_rows [OF ok] execution_of_def)
  also have "\<dots> \<longleftrightarrow> ?r"
    using lease_expired_iff [OF select_step_ok [OF ok] now]
    by (auto simp: lease_of_def split: option.splits)
  finally show ?thesis .
qed

section \<open>The contracts hold\<close>

text \<open>A row that says completed or waiting was written by an event that is in the log.\<close>

definition rows_backed :: "db \<Rightarrow> bool" where
  "rows_backed d \<longleftrightarrow>
     (\<forall>w i r. select_step w i d = Some r \<longrightarrow>
        (row_status r = ''completed'' \<longrightarrow> (\<exists>out. StepCompleted w i out \<in> set (event_log w d))) \<and>
        (row_status r = ''waiting'' \<longrightarrow> (\<exists>rs. StepWaiting w i rs \<in> set (event_log w d))))"

lemma rows_backed_upsert:
  "rows_backed d \<Longrightarrow> row_status r = ''leased'' \<Longrightarrow> rows_backed (upsert_step w i r d)"
  by (auto simp: rows_backed_def)

lemma rows_backed_leased_db [simp]: "rows_backed d \<Longrightarrow> rows_backed (leased_db w i v ttl now d)"
  unfolding leased_db_def by (rule rows_backed_upsert) (simp_all add: leased_row_def)

lemma rows_backed_renewed_db [simp]:
  "rows_backed d \<Longrightarrow> row_status r = ''leased'' \<Longrightarrow> rows_backed (renewed_db w i ttl now r d)"
  unfolding renewed_db_def by (rule rows_backed_upsert) simp_all

lemma select_appended:
  assumes "select_step w i (appended e now d) = Some r"
  shows "select_step w i d = Some r \<or> row_status r = ''failed'' \<or> row_status r = ''pending''
    \<or> (row_status r = ''completed'' \<and> (\<exists>out. own_event w e = [StepCompleted w i out]))
    \<or> (row_status r = ''waiting'' \<and> (\<exists>rs. own_event w e = [StepWaiting w i rs]))"
  using assms by (cases e) (auto simp: appended_def plain_row_def split: if_splits)

lemma rows_backed_appended [simp]:
  assumes backed: "rows_backed d"
  shows "rows_backed (appended e now d)"
  unfolding rows_backed_def event_log_appended
proof (intro allI impI)
  fix w i r
  assume "select_step w i (appended e now d) = Some r"
  from select_appended [OF this] backed
  show "(row_status r = ''completed'' \<longrightarrow>
          (\<exists>out. StepCompleted w i out \<in> set (event_log w d @ own_event w e))) \<and>
        (row_status r = ''waiting'' \<longrightarrow>
          (\<exists>rs. StepWaiting w i rs \<in> set (event_log w d @ own_event w e)))"
    unfolding rows_backed_def by (elim disjE; fastforce)
qed

lemma claim_backed_db:
  "rows_backed d \<Longrightarrow> expected_claim v now (lease_of w i d) c \<Longrightarrow> claim_backed w i (event_log w d) c"
  by (cases c)
    (auto simp: rows_backed_def lease_of_def split: option.splits if_splits)

definition sqlite_inv :: "sqlite \<Rightarrow> bool" where
  "sqlite_inv s \<longleftrightarrow> db_ok (conn_db s) \<and> rows_backed (conn_db s)"

definition sqlite_log :: "string \<Rightarrow> sqlite \<Rightarrow> event list" where
  "sqlite_log w s = event_log w (conn_db s)"

definition sqlite_lease :: "string \<Rightarrow> usize \<Rightarrow> sqlite \<Rightarrow> lease_view" where
  "sqlite_lease w i s = lease_of w i (conn_db s)"

lemma sqlite_ops_simps [simp]:
  "append_event sqlite_ops = sqlite_append_event" "load_events sqlite_ops = sqlite_load_events"
  "claim_step sqlite_ops = sqlite_claim_step" "renew_lease sqlite_ops = sqlite_renew_lease"
  "expired_leases sqlite_ops = sqlite_expired_leases"
  by (simp_all add: sqlite_ops_def)

lemmas sqlite_views = sqlite_inv_def sqlite_log_def sqlite_lease_def


lemma sqlite_contract: "lease_store sqlite_ops sqlite_inv sqlite_log sqlite_lease"
proof (unfold_locales, goal_cases)
  case (1 s e now r s')
  then show ?case
    using sq_runsD [OF runs_append, of e now s r s']
    by (cases r) (auto simp: sqlite_views db_ok_appended)
next
  case (2 s w rl s')
  then show ?case
    using sq_runsD [OF runs_load_events, of s w rl s'] by (cases rl) (auto simp: sqlite_views)
next
  case (3 s now w i v ttl rc s')
  then show ?case
    using sq_runsD [OF runs_claim, of s now w i v ttl rc s']
    by (cases rc)
      (auto simp: sqlite_views db_ok_leased_db split: if_splits intro: claim_backed_db)
next
  case (4 s now w i v ttl ru s')
  then show ?case
    using sq_runsD [OF runs_renew, of w i v ttl now s ru s']
    by (cases ru) (auto simp: sqlite_views db_ok_renewed_db)
next
  case (5 s now rx s')
  then show ?case
    using sq_runsD [OF runs_expired_leases, of s now rx s'] by (cases rx) (auto simp: sqlite_views)
next
  case (6 s now w i v ttl c s')
  then show ?case
    using sq_runsD [OF runs_claim, of s now w i v ttl "Ok c" s']
    by (auto simp: sqlite_views lease_of_leased_db split: if_splits)
next
  case (7 s w i a now r s' w' i')
  then show ?case
    using sq_runsD [OF runs_append, of "StepStarted w i a" now s r s']
    by (cases r) (auto simp: sqlite_views appended_def lease_of_def)
next
  case (8 s w i out now u s' w' i')
  then show ?case
    using sq_runsD [OF runs_append, of "StepCompleted w i out" now s "Ok u" s']
    by (auto simp: sqlite_views appended_def lease_of_def plain_row_def)
next
  case (9 s w i now u s' w' i')
  then show ?case
    using sq_runsD [OF runs_append, of "WorkerRecovered w i" now s "Ok u" s']
    by (auto simp: sqlite_views appended_def lease_of_def plain_row_def)
next
  case (10 s now xs s' w i)
  then show ?case
    using sq_runsD [OF runs_expired_leases, of s now "Ok xs" s'] expired_execution_iff [of "conn_db s" now w i]
    by (simp add: sqlite_views)
qed

interpretation sq: lease_store sqlite_ops sqlite_inv sqlite_log sqlite_lease
  by (rule sqlite_contract)

end
