(* ===== verification/StepsProjection.thy ===== *)
theory StepsProjection
  imports SqliteStore Transition
begin

text \<open>
  The \<open>steps\<close> table of \<open>SqliteStore\<close> against the event log it is a projection of, and the
  opening and migration of a database file.  A store is driven by its operations in any order, with
  any failures; the one thing asked of its users is what \<open>run_step\<close> does, to record
  \<open>StepStarted\<close> only for a step that is not finished, failed or waiting in the table.
\<close>

section \<open>Opening a database\<close>

definition migrated :: "db \<Rightarrow> db" where
  "migrated d =
     (if ''ts_millis'' \<in> set (events_columns (create_schema d)) then create_schema d
      else add_ts_millis_column (create_schema d))"

lemma runs_find_column:
  "sq_runs d (find_column c names) (\<lambda>b d'. d' = d \<and> b = (c \<in> set names)) (\<lambda>d'. d' = d)"
  by (induction names) (auto intro!: runs_rules)

lemma runs_ensure_column:
  "sq_runs d ensure_events_ts_millis_column
     (\<lambda>_ d'. d' = (if ''ts_millis'' \<in> set (events_columns d) then d else add_ts_millis_column d))
     (\<lambda>d'. d' = d)"
  unfolding ensure_events_ts_millis_column_def
  by (intro runs_bind_backend_query runs_bind [OF runs_find_column] refl)
    (auto intro!: runs_rules)

lemma runs_new:
  "sq_runs d sqlite_new (\<lambda>_ d'. d' = migrated d) (\<lambda>d'. d' = d \<or> d' = create_schema d)"
proof -
  have e: "sq_runs (create_schema d) ensure_events_ts_millis_column (\<lambda>_ d'. d' = migrated d)
      (\<lambda>d'. d' = d \<or> d' = create_schema d)"
    using runs_ensure_column [of "create_schema d"]
    unfolding sq_runs_def migrated_def by (auto elim!: returns_mono)
  show ?thesis
    unfolding sqlite_new_def by (intro runs_bind_backend_query runs_bind_backend_execute e) simp_all
qed

lemma has_ts_create_schema:
  "''ts_millis'' \<in> set (events_columns (create_schema d)) \<longleftrightarrow>
     events_columns d = [] \<or> ''ts_millis'' \<in> set (events_columns d)"
  by (simp add: create_schema_def new_events_columns_def)

lemma migrated_fields:
  "''ts_millis'' \<in> set (events_columns (migrated d))"
  "steps_rows (migrated d) = steps_rows d"
  "event_log w (migrated d) = event_log w d"
  "select_step w i (migrated d) = select_step w i d"
  "db_ok (migrated d) \<longleftrightarrow> db_ok d"
  "migrated (migrated d) = migrated d"
  by (auto simp: migrated_def create_schema_def add_ts_millis_column_def event_log_def
      select_step_def filter_map comp_def db_ok_def event_row_ok_def new_events_columns_def
      new_steps_columns_def)

section \<open>Driving a store\<close>

datatype store_op =
    OAppend event system_time
  | OLoad string
  | OClaim string usize string duration system_time
  | ORenew string usize string duration system_time
  | OExpired system_time

definition startable :: "step_row option \<Rightarrow> bool" where
  "startable row =
     (case row of None \<Rightarrow> True
      | Some r \<Rightarrow> row_status r = ''pending'' \<or> row_status r = ''leased'')"

text \<open>One operation of the store; \<open>None\<close> where a user would break the rule above.\<close>

fun store_exec :: "store_op \<Rightarrow> sqlite \<Rightarrow> sqlite option" where
  "store_exec (OAppend (StepStarted w i a) now) s =
     (if startable (select_step w i (conn_db s)) then
        Some (snd (append_event sqlite_ops (StepStarted w i a) now s))
      else None)"
| "store_exec (OAppend e now) s = Some (snd (append_event sqlite_ops e now s))"
| "store_exec (OLoad w) s = Some (snd (load_events sqlite_ops w s))"
| "store_exec (OClaim w i v ttl now) s =
     (if clock_ok now then Some (snd (claim_step sqlite_ops w i v ttl now s)) else None)"
| "store_exec (ORenew w i v ttl now) s =
     (if clock_ok now then Some (snd (renew_lease sqlite_ops w i v ttl now s)) else None)"
| "store_exec (OExpired now) s =
     (if clock_ok now then Some (snd (expired_leases sqlite_ops now s)) else None)"

definition empty_db :: db where
  "empty_db = \<lparr>events_columns = [], events_rows = [], steps_columns = [], steps_rows = []\<rparr>"

definition opened :: "sqlite \<Rightarrow> bool" where
  "opened s \<longleftrightarrow>
     (\<exists>fs. sqlite_new \<lparr>conn_db = empty_db, poisoned = False, fates = fs\<rparr> = (Ok (), s))"

section \<open>The projection\<close>

text \<open>What the row of a step says against what the log of its workflow says.\<close>

definition row_agrees :: "step_row option \<Rightarrow> step_status \<Rightarrow> bool" where
  "row_agrees row st =
     (case row of
        None \<Rightarrow> st = StPending
      | Some r \<Rightarrow>
          (if row_status r = ''completed'' then (\<exists>out. row_output r = Some out \<and> st = StCompleted out)
           else if row_status r = ''waiting'' then (\<exists>rs. row_reason r = Some rs \<and> st = StWaiting rs)
           else if row_status r = ''failed'' then (\<exists>rs a. row_reason r = Some rs \<and> st = StFailed rs a)
           else if row_status r = ''pending'' then st = StPending
           else row_status r = ''leased'' \<and> (st = StPending \<or> (\<exists>rs a. st = StFailed rs a))))"

definition projection_inv :: "sqlite \<Rightarrow> bool" where
  "projection_inv s \<longleftrightarrow> sqlite_inv s \<and>
     (\<forall>w i. row_agrees (select_step w i (conn_db s)) (step_status_from_events (sqlite_log w s) i))"

lemma step_status_own_event:
  "step_status_from_events (es @ own_event w e) i =
     (if event_workflow_id e = w
      then fst (status_after i e (step_status_from_events es i, current_attempt_from_events es i))
      else step_status_from_events es i)"
  by (simp add: own_event_def step_status_snoc)

lemma row_agrees_plain [simp]:
  "row_agrees (Some (plain_row ''completed'' (Some out) None a)) st \<longleftrightarrow> st = StCompleted out"
  "row_agrees (Some (plain_row ''waiting'' None (Some rs) a)) st \<longleftrightarrow> st = StWaiting rs"
  "row_agrees (Some (plain_row ''failed'' None (Some rs) a)) st \<longleftrightarrow> (\<exists>n. st = StFailed rs n)"
  "row_agrees (Some (plain_row ''pending'' None None a)) st \<longleftrightarrow> st = StPending"
  by (simp_all add: row_agrees_def plain_row_def)

lemma row_agrees_startable: "startable row \<Longrightarrow> row_agrees row StPending"
  by (auto simp: startable_def row_agrees_def split: option.splits)

lemma row_agrees_projected:
  assumes agree: "row_agrees (select_step w i d) st"
    and rule: "\<And>a. e = StepStarted w i a \<Longrightarrow> startable (select_step w i d)"
  shows "row_agrees (select_step w i (projected e d))
    (if event_workflow_id e = w then fst (status_after i e (st, a)) else st)"
  by (cases e) (use agree rule in \<open>auto intro: row_agrees_startable\<close>)

lemma projection_inv_append:
  assumes inv: "projection_inv s"
    and rule: "\<And>w i a. e = StepStarted w i a \<Longrightarrow> startable (select_step w i (conn_db s))"
    and run: "sqlite_append_event e now s = (r, s')"
  shows "projection_inv s'"
proof -
  have ok: "sqlite_inv s'"
    using sq.append_law [of s e now r s'] inv run by (simp add: projection_inv_def)
  have "conn_db s' = appended e now (conn_db s) \<or> conn_db s' = conn_db s"
    using sq_runsD [OF runs_append run] by (cases r) auto
  then show ?thesis
  proof
    assume s': "conn_db s' = appended e now (conn_db s)"
    have "row_agrees (select_step w i (conn_db s')) (step_status_from_events (sqlite_log w s') i)" for w i
    proof -
      let ?d = "insert_event (event_workflow_id e) (encode_event e) (ts_millis_of now) (conn_db s)"
      have "row_agrees (select_step w i ?d) (step_status_from_events (sqlite_log w s) i)"
        using inv by (simp add: projection_inv_def)
      from row_agrees_projected [OF this, of e "current_attempt_from_events (sqlite_log w s) i"] rule
      have "row_agrees (select_step w i (projected e ?d))
          (step_status_from_events (sqlite_log w s @ own_event w e) i)"
        by (simp add: step_status_own_event)
      then show ?thesis by (simp add: s' sqlite_log_def) (simp add: appended_def)
    qed
    with ok show ?thesis by (simp add: projection_inv_def)
  next
    assume "conn_db s' = conn_db s"
    with inv show ?thesis by (simp add: projection_inv_def sqlite_views)
  qed
qed

text \<open>Operations that only touch leases of steps that are neither finished nor waiting.\<close>

lemma projection_inv_lease:
  assumes inv: "projection_inv s" and ok: "sqlite_inv s'"
    and log: "\<And>w. sqlite_log w s' = sqlite_log w s"
    and rows: "\<And>w i. select_step w i (conn_db s') = select_step w i (conn_db s) \<or>
      (\<exists>r. select_step w i (conn_db s') = Some r \<and> row_status r = ''leased'' \<and>
        lease_of w i (conn_db s) \<noteq> Done \<and> lease_of w i (conn_db s) \<noteq> Suspended)"
  shows "projection_inv s'"
proof -
  have "row_agrees (select_step w i (conn_db s')) (step_status_from_events (sqlite_log w s) i)" for w i
    using rows [of w i]
  proof
    assume "\<exists>r. select_step w i (conn_db s') = Some r \<and> row_status r = ''leased'' \<and>
        lease_of w i (conn_db s) \<noteq> Done \<and> lease_of w i (conn_db s) \<noteq> Suspended"
    moreover have "row_agrees (select_step w i (conn_db s)) (step_status_from_events (sqlite_log w s) i)"
      using inv by (simp add: projection_inv_def)
    ultimately show ?thesis
      by (auto simp: row_agrees_def lease_of_def split: option.splits if_splits)
  qed (use inv in \<open>simp add: projection_inv_def\<close>)
  with ok show ?thesis by (simp add: projection_inv_def log)
qed

lemma expected_claim_Claimed: "expected_claim v now l Claimed \<Longrightarrow> l \<noteq> Done \<and> l \<noteq> Suspended"
  by (cases l) auto

lemma projection_inv_claim:
  assumes inv: "projection_inv s" and now: "clock_ok now"
    and run: "sqlite_claim_step w i v ttl now s = (r, s')"
  shows "projection_inv s'"
proof -
  have sinv: "sqlite_inv s" using inv by (simp add: projection_inv_def)
  have law: "sqlite_inv s' \<and> (\<forall>w'. sqlite_log w' s' = sqlite_log w' s)"
    using sq.claim_law [of s now w i v ttl r s'] sinv now run by simp
  from sinv have "db_ok (conn_db s)" by (simp add: sqlite_inv_def)
  from sq_runsD [OF runs_claim [OF this now] run]
  have "conn_db s' = conn_db s \<or>
      conn_db s' = leased_db w i v ttl now (conn_db s) \<and>
      lease_of w i (conn_db s) \<noteq> Done \<and> lease_of w i (conn_db s) \<noteq> Suspended"
    by (cases r) (auto split: if_splits dest: expected_claim_Claimed)
  then show ?thesis
  proof
    assume "conn_db s' = conn_db s"
    with law show ?thesis by (intro projection_inv_lease [OF inv]) auto
  next
    assume *: "conn_db s' = leased_db w i v ttl now (conn_db s) \<and>
      lease_of w i (conn_db s) \<noteq> Done \<and> lease_of w i (conn_db s) \<noteq> Suspended"
    with law show ?thesis
      by (intro projection_inv_lease [OF inv]) (auto simp: leased_db_def leased_row_def)
  qed
qed

lemma projection_inv_renew:
  assumes inv: "projection_inv s" and now: "clock_ok now"
    and run: "sqlite_renew_lease w i v ttl now s = (r, s')"
  shows "projection_inv s'"
proof -
  have law: "sqlite_inv s' \<and> (\<forall>w'. sqlite_log w' s' = sqlite_log w' s)"
    using sq.renew_law [of s now w i v ttl r s'] inv now run by (simp add: projection_inv_def)
  have "conn_db s' = conn_db s \<or>
      (\<exists>x. select_step w i (conn_db s) = Some x \<and> row_status x = ''leased'' \<and>
         conn_db s' = renewed_db w i ttl now x (conn_db s))"
    using sq_runsD [OF runs_renew run] by (cases r) auto
  then show ?thesis
  proof (elim disjE exE conjE)
    assume "conn_db s' = conn_db s"
    with law show ?thesis by (intro projection_inv_lease [OF inv]) auto
  next
    fix x
    assume "select_step w i (conn_db s) = Some x" "row_status x = ''leased''"
      "conn_db s' = renewed_db w i ttl now x (conn_db s)"
    with law show ?thesis
      by (intro projection_inv_lease [OF inv]) (simp_all add: renewed_db_def lease_of_def)
  qed
qed

lemma projection_inv_same_db:
  "projection_inv s \<Longrightarrow> conn_db s' = conn_db s \<Longrightarrow> projection_inv s'"
  by (simp add: projection_inv_def sqlite_views)

lemma projection_inv_load:
  assumes inv: "projection_inv s" and run: "sqlite_load_events w s = (r, s')"
  shows "projection_inv s'"
proof (rule projection_inv_same_db [OF inv])
  have "db_ok (conn_db s)" using inv by (simp add: projection_inv_def sqlite_inv_def)
  from sq_runsD [OF runs_load_events [OF this] run] show "conn_db s' = conn_db s" by (cases r) auto
qed

lemma projection_inv_expired:
  assumes inv: "projection_inv s" and run: "sqlite_expired_leases now s = (r, s')"
  shows "projection_inv s'"
proof (rule projection_inv_same_db [OF inv])
  have "db_ok (conn_db s)" using inv by (simp add: projection_inv_def sqlite_inv_def)
  from sq_runsD [OF runs_expired_leases [OF this] run] show "conn_db s' = conn_db s" by (cases r) auto
qed

lemma projection_inv_opened: "opened s \<Longrightarrow> projection_inv s"
proof -
  assume "opened s"
  then obtain fs where run: "sqlite_new \<lparr>conn_db = empty_db, poisoned = False, fates = fs\<rparr> = (Ok (), s)"
    by (auto simp: opened_def)
  have "conn_db s = migrated empty_db"
    using sq_runsD [OF runs_new run] by simp
  then show ?thesis
    by (simp add: projection_inv_def sqlite_views migrated_fields)
      (simp add: empty_db_def db_ok_def rows_backed_def migrated_fields select_step_def event_log_def row_agrees_def
        step_status_from_events_def)
qed

lemma projection_inv_snd:
  assumes "projection_inv s"
  shows "(\<And>w i a. e = StepStarted w i a \<Longrightarrow> startable (select_step w i (conn_db s))) \<Longrightarrow>
      projection_inv (snd (sqlite_append_event e now s))"
    and "projection_inv (snd (sqlite_load_events w s))"
    and "clock_ok now \<Longrightarrow> projection_inv (snd (sqlite_claim_step w i v ttl now s))"
    and "clock_ok now \<Longrightarrow> projection_inv (snd (sqlite_renew_lease w i v ttl now s))"
    and "projection_inv (snd (sqlite_expired_leases now s))"
  using assms projection_inv_append projection_inv_load projection_inv_claim projection_inv_renew
    projection_inv_expired by (metis prod.collapse)+

lemma projection_inv_exec: "projection_inv s \<Longrightarrow> store_exec l s = Some s' \<Longrightarrow> projection_inv s'"
  by (induction l s rule: store_exec.induct) (auto split: if_splits intro!: projection_inv_snd)

interpretation projection: invariant_system store_exec opened projection_inv
  by unfold_locales (fact projection_inv_opened, fact projection_inv_exec)

end
