(* ===== verification/MemStores.thy ===== *)
theory MemStores
  imports StoreContract "HOL-Library.AList"
begin

text \<open>
  The two in-memory stores of the crate's own tests: the one of \<open>src/recovery.rs\<close>, with a table
  of step leases, and the one of \<open>src/engine.rs\<close>, which only keeps the log and grants every
  claim.  The first meets the lease contract, the second the log contract, so what the tests of the
  engine run against is an instance of what the engine's lemmas assume.
\<close>

section \<open>The store of the recovery tests\<close>

record step_projection =
  proj_status :: step_status
  proj_attempt :: u32

text \<open>The hash map of steps is a list in its iteration order.\<close>

record mem_store =
  mem_events :: "event list"
  mem_steps :: "((string \<times> usize) \<times> step_projection) list"

definition mem_new :: mem_store where
  "mem_new = \<lparr>mem_events = [], mem_steps = []\<rparr>"

definition mem_step :: "string \<Rightarrow> usize \<Rightarrow> mem_store \<Rightarrow> step_projection option" where
  "mem_step w i s = map_of (mem_steps s) (w, i)"

definition mem_put :: "string \<Rightarrow> usize \<Rightarrow> step_projection \<Rightarrow> mem_store \<Rightarrow> mem_store" where
  "mem_put w i p s = s\<lparr>mem_steps := AList.update (w, i) p (mem_steps s)\<rparr>"

definition mem_step_status :: "string \<Rightarrow> usize \<Rightarrow> mem_store \<Rightarrow> step_status option" where
  "mem_step_status w i s = map_option proj_status (mem_step w i s)"

definition seed_expired_lease ::
    "string \<Rightarrow> usize \<Rightarrow> u32 \<Rightarrow> string \<Rightarrow> system_time \<Rightarrow> mem_store \<Rightarrow> mem_store" where
  "seed_expired_lease w i attempt worker now s =
     (let expired_at = (if system_time_ok (now - 60000000000) then now - 60000000000 else 0) in
      mem_put w i \<lparr>proj_status = StLeased worker expired_at, proj_attempt = attempt\<rparr> s)"

fun mem_project :: "event \<Rightarrow> mem_store \<Rightarrow> mem_store" where
  "mem_project (WorkerRecovered w i) s =
     (case mem_step w i s of
        Some row \<Rightarrow> mem_put w i (row\<lparr>proj_status := StPending\<rparr>) s
      | None \<Rightarrow> s)"
| "mem_project (StepCompleted w i out) s =
     mem_put w i \<lparr>proj_status = StCompleted out, proj_attempt = 0\<rparr> s"
| "mem_project e s = s"

definition mem_append_event ::
    "event \<Rightarrow> system_time \<Rightarrow> mem_store \<Rightarrow> (unit, store_error) result \<times> mem_store" where
  "mem_append_event e now s = (Ok (), mem_project e (s\<lparr>mem_events := mem_events s @ [e]\<rparr>))"

definition mem_load_events ::
    "string \<Rightarrow> mem_store \<Rightarrow> (event list, store_error) result \<times> mem_store" where
  "mem_load_events w s = (Ok (filter (\<lambda>e. event_workflow_id e = w) (mem_events s)), s)"

definition mem_claim_step ::
    "string \<Rightarrow> usize \<Rightarrow> string \<Rightarrow> duration \<Rightarrow> system_time \<Rightarrow> mem_store
     \<Rightarrow> (claim_result, store_error) result \<times> mem_store" where
  "mem_claim_step w i worker ttl now s =
     (let row = mem_step w i s;
          attempt = (case row of Some r \<Rightarrow> proj_attempt r | None \<Rightarrow> 0);
          lease = (Ok Claimed,
                   mem_put w i \<lparr>proj_status = StLeased worker (lease_expiry now ttl),
                                proj_attempt = attempt\<rparr> s)
      in case map_option proj_status row of
           Some (StCompleted out) \<Rightarrow> (Ok (AlreadyCompleted []), s)
         | Some (StWaiting reason) \<Rightarrow> (Ok AlreadyWaiting, s)
         | Some (StLeased holder expires_at) \<Rightarrow>
             (if holder \<noteq> worker \<and> now < expires_at then (Ok HeldByOther, s) else lease)
         | _ \<Rightarrow> lease)"

definition mem_renew_lease ::
    "string \<Rightarrow> usize \<Rightarrow> string \<Rightarrow> duration \<Rightarrow> system_time \<Rightarrow> mem_store
     \<Rightarrow> (unit, store_error) result \<times> mem_store" where
  "mem_renew_lease w i worker ttl now s = (Ok (), s)"

fun mem_expired :: "system_time \<Rightarrow> ((string \<times> usize) \<times> step_projection) list \<Rightarrow> execution list" where
  "mem_expired now [] = []"
| "mem_expired now (((w, i), row) # rows) =
     (case proj_status row of
        StLeased worker expires_at \<Rightarrow>
          (if expires_at \<le> now then
             \<lparr>exec_workflow_id = w, exec_step_index = i, exec_attempt = proj_attempt row,
              exec_worker_id = worker, exec_lease_expires_at = expires_at\<rparr> # mem_expired now rows
           else mem_expired now rows)
      | _ \<Rightarrow> mem_expired now rows)"

definition mem_expired_leases ::
    "system_time \<Rightarrow> mem_store \<Rightarrow> (execution list, store_error) result \<times> mem_store" where
  "mem_expired_leases now s = (Ok (mem_expired now (mem_steps s)), s)"

definition mem_ops :: "mem_store durable_ops" where
  "mem_ops =
     \<lparr>append_event = mem_append_event, load_events = mem_load_events, claim_step = mem_claim_step,
      renew_lease = mem_renew_lease, expired_leases = mem_expired_leases\<rparr>"

section \<open>The store of the engine tests\<close>

type_synonym log_store = "event list"

definition log_append_event ::
    "event \<Rightarrow> system_time \<Rightarrow> log_store \<Rightarrow> (unit, store_error) result \<times> log_store" where
  "log_append_event e now s = (Ok (), s @ [e])"

definition log_load_events ::
    "string \<Rightarrow> log_store \<Rightarrow> (event list, store_error) result \<times> log_store" where
  "log_load_events w s = (Ok (filter (\<lambda>e. event_workflow_id e = w) s), s)"

definition log_claim_step ::
    "string \<Rightarrow> usize \<Rightarrow> string \<Rightarrow> duration \<Rightarrow> system_time \<Rightarrow> log_store
     \<Rightarrow> (claim_result, store_error) result \<times> log_store" where
  "log_claim_step w i worker ttl now s = (Ok Claimed, s)"

definition log_renew_lease ::
    "string \<Rightarrow> usize \<Rightarrow> string \<Rightarrow> duration \<Rightarrow> system_time \<Rightarrow> log_store
     \<Rightarrow> (unit, store_error) result \<times> log_store" where
  "log_renew_lease w i worker ttl now s = (Ok (), s)"

definition log_expired_leases ::
    "system_time \<Rightarrow> log_store \<Rightarrow> (execution list, store_error) result \<times> log_store" where
  "log_expired_leases now s = (Ok [], s)"

definition log_ops :: "log_store durable_ops" where
  "log_ops =
     \<lparr>append_event = log_append_event, load_events = log_load_events, claim_step = log_claim_step,
      renew_lease = log_renew_lease, expired_leases = log_expired_leases\<rparr>"

section \<open>The contracts hold\<close>

definition mem_log :: "string \<Rightarrow> mem_store \<Rightarrow> event list" where
  "mem_log w s = filter (\<lambda>e. event_workflow_id e = w) (mem_events s)"

definition mem_backed :: "mem_store \<Rightarrow> bool" where
  "mem_backed s \<longleftrightarrow>
     (\<forall>w i row. mem_step w i s = Some row \<longrightarrow>
        (\<forall>out. proj_status row = StCompleted out \<longrightarrow> (\<exists>out'. StepCompleted w i out' \<in> set (mem_log w s))) \<and>
        (\<forall>r. proj_status row = StWaiting r \<longrightarrow> (\<exists>r'. StepWaiting w i r' \<in> set (mem_log w s))))"

definition mem_inv :: "mem_store \<Rightarrow> bool" where
  "mem_inv s \<longleftrightarrow> distinct (map fst (mem_steps s)) \<and> mem_backed s"

definition mem_lease :: "string \<Rightarrow> usize \<Rightarrow> mem_store \<Rightarrow> lease_view" where
  "mem_lease w i s =
     (case map_option proj_status (mem_step w i s) of
        Some (StCompleted out) \<Rightarrow> Done
      | Some (StWaiting reason) \<Rightarrow> Suspended
      | Some (StLeased holder expires_at) \<Rightarrow> Held holder expires_at
      | _ \<Rightarrow> Unclaimed)"

lemma mem_ops_simps [simp]:
  "append_event mem_ops = mem_append_event" "load_events mem_ops = mem_load_events"
  "claim_step mem_ops = mem_claim_step" "renew_lease mem_ops = mem_renew_lease"
  "expired_leases mem_ops = mem_expired_leases"
  by (simp_all add: mem_ops_def)

lemma log_ops_simps [simp]:
  "append_event log_ops = log_append_event" "load_events log_ops = log_load_events"
  "claim_step log_ops = log_claim_step" "renew_lease log_ops = log_renew_lease"
  "expired_leases log_ops = log_expired_leases"
  by (simp_all add: log_ops_def)

lemma mem_put_simps [simp]:
  "mem_events (mem_put w i p s) = mem_events s"
  "mem_log w' (mem_put w i p s) = mem_log w' s"
  "mem_step w' i' (mem_put w i p s) = (if w' = w \<and> i' = i then Some p else mem_step w' i' s)"
  "distinct (map fst (mem_steps s)) \<Longrightarrow> distinct (map fst (mem_steps (mem_put w i p s)))"
  by (simp_all add: mem_put_def mem_log_def mem_step_def update_conv' distinct_update)

lemma mem_step_events [simp]: "mem_step w i (s\<lparr>mem_events := es\<rparr>) = mem_step w i s"
  by (simp add: mem_step_def)

lemma mem_project_events [simp]: "mem_events (mem_project e s) = mem_events s"
  by (cases e) (simp_all split: option.splits)

lemma mem_inv_put_leased [simp]:
  "mem_inv s \<Longrightarrow> mem_inv (mem_put w i \<lparr>proj_status = StLeased v t, proj_attempt = a\<rparr> s)"
  by (auto simp: mem_inv_def mem_backed_def)

lemma mem_log_appended:
  "mem_log w (mem_project e (s\<lparr>mem_events := mem_events s @ [e]\<rparr>)) = mem_log w s @ own_event w e"
  by (simp add: mem_log_def own_event_def)

lemma mem_inv_appended: "mem_inv s \<Longrightarrow> mem_inv (mem_project e (s\<lparr>mem_events := mem_events s @ [e]\<rparr>))"
proof -
  assume inv: "mem_inv s"
  let ?s = "s\<lparr>mem_events := mem_events s @ [e]\<rparr>"
  have d: "distinct (map fst (mem_steps (mem_project e ?s)))"
    using inv by (cases e) (auto simp: mem_inv_def split: option.splits)
  have "mem_backed (mem_project e ?s)"
    unfolding mem_backed_def mem_log_appended
    using inv by (cases e) (fastforce simp: mem_inv_def mem_backed_def split: option.splits if_splits)+
  with d show ?thesis by (simp add: mem_inv_def)
qed

lemma mem_expired_iff:
  "x \<in> set (mem_expired now rows) \<longleftrightarrow>
     (\<exists>row t. ((exec_workflow_id x, exec_step_index x), row) \<in> set rows \<and>
        proj_status row = StLeased (exec_worker_id x) t \<and> t \<le> now \<and>
        exec_attempt x = proj_attempt row \<and> exec_lease_expires_at x = t)"
proof (induction now rows rule: mem_expired.induct)
  case (1 now)
  show ?case by simp
next
  case (2 now w i row rows)
  show ?case
  proof (cases "proj_status row")
    case (StLeased h t)
    have "x = \<lparr>exec_workflow_id = w, exec_step_index = i, exec_attempt = proj_attempt row,
          exec_worker_id = h, exec_lease_expires_at = t\<rparr> \<longleftrightarrow>
        exec_workflow_id x = w \<and> exec_step_index x = i \<and> exec_attempt x = proj_attempt row \<and>
        exec_worker_id x = h \<and> exec_lease_expires_at x = t"
      by (cases x) simp
    with StLeased 2 show ?thesis by (cases "t \<le> now") auto
  qed (use 2 in auto)
qed

lemma mem_steps_set:
  "mem_inv s \<Longrightarrow> ((w, i), row) \<in> set (mem_steps s) \<longleftrightarrow> mem_step w i s = Some row"
  by (auto simp: mem_inv_def mem_step_def map_of_is_SomeI dest: map_of_SomeD)

lemma mem_lease_Held:
  "mem_lease w i s = Held h t \<longleftrightarrow> (\<exists>row. mem_step w i s = Some row \<and> proj_status row = StLeased h t)"
  by (auto simp: mem_lease_def split: option.splits step_status.splits)

lemma mem_claim_law:
  assumes inv: "mem_inv s" and run: "mem_claim_step w i v ttl now s = (r, s')"
  shows "mem_inv s'" and "mem_log w' s' = mem_log w' s"
    and "\<exists>c. r = Ok c \<and> expected_claim v now (mem_lease w i s) c \<and>
      (\<forall>w' i'. mem_lease w' i' s' =
         (if c = Claimed \<and> w' = w \<and> i' = i then Held v (lease_expiry now ttl) else mem_lease w' i' s))"
proof -
  obtain a where *: "r = Ok Claimed \<and> expected_claim v now (mem_lease w i s) Claimed \<and>
        s' = mem_put w i \<lparr>proj_status = StLeased v (lease_expiry now ttl), proj_attempt = a\<rparr> s
      \<or> (\<exists>c. c \<noteq> Claimed \<and> r = Ok c \<and> expected_claim v now (mem_lease w i s) c \<and> s' = s)"
  proof (cases "mem_step w i s")
    case None
    with run that [of 0] show thesis by (auto simp: mem_claim_step_def mem_lease_def)
  next
    case (Some row)
    with run that show thesis
      by (cases "proj_status row") (auto simp: mem_claim_step_def mem_lease_def split: if_splits)
  qed
  then show "mem_inv s'" and "mem_log w' s' = mem_log w' s" using inv by auto
  from * show "\<exists>c. r = Ok c \<and> expected_claim v now (mem_lease w i s) c \<and>
      (\<forall>w' i'. mem_lease w' i' s' =
         (if c = Claimed \<and> w' = w \<and> i' = i then Held v (lease_expiry now ttl) else mem_lease w' i' s))"
  proof
    assume "r = Ok Claimed \<and> expected_claim v now (mem_lease w i s) Claimed \<and>
        s' = mem_put w i \<lparr>proj_status = StLeased v (lease_expiry now ttl), proj_attempt = a\<rparr> s"
    then show ?thesis by (intro exI [of _ Claimed]) (simp add: mem_lease_def)
  next
    assume "\<exists>c. c \<noteq> Claimed \<and> r = Ok c \<and> expected_claim v now (mem_lease w i s) c \<and> s' = s"
    then show ?thesis by auto
  qed
qed

lemma mem_claim_backed:
  "mem_inv s \<Longrightarrow> expected_claim v now (mem_lease w i s) c \<Longrightarrow> claim_backed w i (mem_log w s) c"
  by (cases c)
    (auto simp: mem_inv_def mem_backed_def mem_lease_def split: option.splits step_status.splits if_splits)

lemma mem_lease_project:
  "mem_lease w' i' (mem_project (StepStarted w i a) s) = mem_lease w' i' s"
  "mem_lease w' i' (mem_project (StepCompleted w i out) s) =
     (if w' = w \<and> i' = i then Done else mem_lease w' i' s)"
  "mem_lease w' i' (mem_project (WorkerRecovered w i) s) =
     (if w' = w \<and> i' = i then Unclaimed else mem_lease w' i' s)"
  by (simp_all add: mem_lease_def split: option.splits)

lemma mem_lease_events [simp]: "mem_lease w i (s\<lparr>mem_events := es\<rparr>) = mem_lease w i s"
  by (simp add: mem_lease_def)

lemma mem_expired_lease_iff:
  assumes inv: "mem_inv s"
  shows "(\<exists>x \<in> set (mem_expired now (mem_steps s)). exec_workflow_id x = w \<and> exec_step_index x = i) \<longleftrightarrow>
    (\<exists>h t. mem_lease w i s = Held h t \<and> t \<le> now)" (is "?l \<longleftrightarrow> ?r")
proof
  assume ?l
  then show ?r unfolding mem_lease_Held by (auto simp: mem_expired_iff mem_steps_set [OF inv])
next
  assume ?r
  then obtain h t row where
    "mem_step w i s = Some row" "proj_status row = StLeased h t" "t \<le> now"
    unfolding mem_lease_Held by blast
  then show ?l
    by (intro bexI [of _ "\<lparr>exec_workflow_id = w, exec_step_index = i,
          exec_attempt = proj_attempt row, exec_worker_id = h, exec_lease_expires_at = t\<rparr>"])
      (simp_all add: mem_expired_iff mem_steps_set [OF inv])
qed

lemma mem_contract: "lease_store mem_ops mem_inv mem_log mem_lease"
proof (unfold_locales, goal_cases)
  case (1 s e now r s')
  then show ?case by (auto simp: mem_append_event_def mem_log_appended mem_inv_appended)
next
  case (3 s now w i v ttl rc s')
  then show ?case using mem_claim_law [of s w i v ttl now rc s'] by (auto intro: mem_claim_backed)
next
  case (6 s now w i v ttl c s')
  then show ?case using mem_claim_law [of s w i v ttl now "Ok c" s'] by simp
next
  case (10 s now xs s' w i)
  then show ?case using mem_expired_lease_iff [of s now w i] by (auto simp: mem_expired_leases_def)
next
  case (7 s w i a now r s' w' i')
  then show ?case by (auto simp: mem_append_event_def mem_lease_project simp del: mem_project.simps)
next
  case (8 s w i out now u s' w' i')
  then show ?case by (auto simp: mem_append_event_def mem_lease_project simp del: mem_project.simps)
next
  case (9 s w i now u s' w' i')
  then show ?case by (auto simp: mem_append_event_def mem_lease_project simp del: mem_project.simps)
qed (auto simp: mem_load_events_def mem_log_def mem_renew_lease_def mem_expired_leases_def)

interpretation mem: lease_store mem_ops mem_inv mem_log mem_lease
  by (rule mem_contract)

definition log_of :: "string \<Rightarrow> log_store \<Rightarrow> event list" where
  "log_of w s = filter (\<lambda>e. event_workflow_id e = w) s"

lemma log_contract: "durable_store log_ops (\<lambda>_. True) log_of"
  by unfold_locales
    (auto simp: log_append_event_def log_load_events_def log_claim_step_def log_renew_lease_def
      log_expired_leases_def log_of_def own_event_def)

interpretation plain_log: durable_store log_ops "\<lambda>_. True" log_of
  by (rule log_contract)

end
