(* ===== verification/QueueResults.thy ===== *)
theory QueueResults
  imports QueueSafety
begin

text \<open>
  What a resolved handle says.  A success a handle reports is the recorded result of its key, then
  and ever after, so \<open>push_and_wait\<close> never returns an output that is not the key's cached one.  A
  failure gives no such guarantee: between the two halves of \<open>JobGuard::drop\<close> the key may have been
  claimed again.
\<close>

section \<open>Recorded successes\<close>

definition recorded_true :: "queue \<Rightarrow> bool" where
  "recorded_true q \<longleftrightarrow>
     (\<forall>u \<in> set (tasks q). \<forall>out. task_phase u = Recorded (OCompleted out) \<longrightarrow>
        statemap q (job_key (task_job u)) = Some (SCompleted out))"

lemma statemap_completed_qexec:
  assumes inv: "queue_inv q" and step: "qexec l q = Some q'"
    and "statemap q k = Some (SCompleted out)"
  shows "statemap q' k = Some (SCompleted out)"
proof -
  have "(key_step (is_LClose l))\<^sup>*\<^sup>* (abs_queue q) (abs_queue q')"
    using inv step by (intro abs_qexec) (simp_all add: queue_inv_def)
  moreover have "key_inv (abs_queue q)" using inv by (simp add: queue_inv_def)
  ultimately show ?thesis
    using assms(3) key_steps_completed [of "is_LClose l" "abs_queue q" "abs_queue q'" k out]
    by (simp add: abs_queue_def)
qed

text \<open>A recorded outcome of a task was there before the step, or the step has just recorded it.\<close>

lemma recorded_qexec:
  assumes wf: "queue_wf q" and step: "qexec l q = Some q'"
    and u': "u' \<in> set (tasks q')" "task_phase u' = Recorded oc"
  shows "u' \<in> set (tasks q) \<or> statemap q' (job_key (task_job u')) = Some (state_of_outcome oc)"
proof (cases l)
  case (LPush j)
  with step u' show ?thesis by (cases rule: push_claim_cases [of q j]) auto
next
  case (LSend rx)
  with step obtain r where "push_send rx q = Some (r, q')" by auto
  with wf show ?thesis by (cases rule: push_send_cases) (use u' in auto)
next
  case (LCancel rx)
  with step have "push_drop rx q = Some q'" by simp
  with wf show ?thesis by (cases rule: push_drop_cases) (use u' in auto)
next
  case (LRecv i)
  with step have "worker_recv i q = Some q'" by simp
  then show ?thesis by (cases rule: worker_recv_cases) (use u' in auto)
next
  case (LSpawn i)
  with step have "worker_spawn i q = Some q'" by simp
  then show ?thesis by (cases rule: worker_spawn_cases) (use u' in auto)
next
  case (LStart t)
  with step have "task_start t q = Some q'" by simp
  with wf show ?thesis by (cases rule: task_start_cases) (use u' in auto)
next
  case (LFinish t r)
  with step have "task_finish t r q = Some q'" by simp
  with wf show ?thesis by (cases rule: task_finish_cases) (use u' in auto)
next
  case (LNotify t)
  with step have "task_notify t q = Some q'" by simp
  with wf show ?thesis by (cases rule: task_notify_cases) (use u' in auto)
next
  case (LExit t)
  with step have "task_exit t q = Some q'" by simp
  with wf show ?thesis by (cases rule: task_exit_cases) (use u' in auto)
next
  case (LClose i)
  with step u' show ?thesis by (auto simp: lane_close_def split: if_splits)
qed

lemma recorded_true_qexec:
  assumes inv: "queue_inv q" and rt: "recorded_true q" and step: "qexec l q = Some q'"
  shows "recorded_true q'"
  unfolding recorded_true_def
proof (intro ballI allI impI)
  fix u out
  assume u: "u \<in> set (tasks q')" "task_phase u = Recorded (OCompleted out)"
  have wf: "queue_wf q" using inv by (simp add: queue_inv_def)
  from recorded_qexec [OF wf step u]
  show "statemap q' (job_key (task_job u)) = Some (SCompleted out)"
    using rt u(2) statemap_completed_qexec [OF inv step] by (auto simp: recorded_true_def)
qed

definition results_inv :: "queue \<Rightarrow> bool" where
  "results_inv q \<longleftrightarrow> queue_inv q \<and> recorded_true q"

interpretation queue_results: invariant_system qexec queue_init results_inv
proof unfold_locales
  show "results_inv q" if "queue_init q" for q
    using that queue_inv_init [OF that]
    by (auto simp: results_inv_def recorded_true_def queue_init_def dest!: start_eq)
  show "results_inv q'" if "results_inv q" "qexec l q = Some q'" for q l q'
    using that queue_inv_qexec recorded_true_qexec unfolding results_inv_def by blast
qed

lemma results_inv_qstep: "results_inv q \<Longrightarrow> results_inv (qstep l q)"
  by (auto simp: qstep_def queue_results.step_inv split: option.splits)

section \<open>The answer of a handle\<close>

definition answer_ok :: "key \<Rightarrow> nat \<Rightarrow> queue \<Rightarrow> bool" where
  "answer_ok k rx q \<longleftrightarrow>
     rx < length (oneshots q) \<and>
     (oneshots q ! rx = Unresolved \<longrightarrow> rx \<in> set (waiters_of k q)) \<and>
     (\<forall>out. oneshots q ! rx = Resolved (OCompleted out) \<longrightarrow> statemap q k = Some (SCompleted out))"

text \<open>What a step does to a handle: nothing, or its key's waiters are dropped or answered.\<close>

definition handle_kept :: "nat \<Rightarrow> queue \<Rightarrow> queue \<Rightarrow> bool" where
  "handle_kept rx q q' \<longleftrightarrow>
     oneshots q' ! rx = oneshots q ! rx \<and> (\<forall>k. rx \<in> set (waiters_of k q) \<longrightarrow> rx \<in> set (waiters_of k q'))"

definition handle_answered :: "nat \<Rightarrow> queue \<Rightarrow> queue \<Rightarrow> bool" where
  "handle_answered rx q q' \<longleftrightarrow>
     (\<exists>k. rx \<in> set (waiters_of k q) \<and>
        (oneshots q' ! rx = SenderDropped \<or>
         (\<exists>u \<in> set (tasks q). \<exists>oc. job_key (task_job u) = k \<and> task_phase u = Recorded oc \<and>
            oneshots q' ! rx = Resolved oc)))"

lemma handle_same:
  "oneshots q' = oneshots q \<Longrightarrow> waiters q' = waiters q \<Longrightarrow> handle_kept rx q q'"
  by (simp add: handle_kept_def waiters_of_def)

lemma handle_add_waiter: "rx < length (oneshots q) \<Longrightarrow> handle_kept rx q (snd (add_waiter k q))"
  by (auto simp: handle_kept_def nth_append)

lemma handle_cleared:
  assumes rx: "rx < length (oneshots q)"
    and os: "oneshots q' = set_oneshots (waiters_of k q) v (oneshots q)"
    and ws: "waiters q' = (waiters q)(k := None)"
    and v: "v = SenderDropped \<or> (\<exists>u \<in> set (tasks q). \<exists>oc. job_key (task_job u) = k \<and>
      task_phase u = Recorded oc \<and> v = Resolved oc)"
  shows "handle_kept rx q q' \<or> handle_answered rx q q'"
proof (cases "rx \<in> set (waiters_of k q)")
  case True
  with rx os v have "handle_answered rx q q'"
    unfolding handle_answered_def by (intro exI [of _ k]) (auto simp: nth_set_oneshots)
  then show ?thesis ..
next
  case False
  with rx os ws have "handle_kept rx q q'"
    by (auto simp: handle_kept_def nth_set_oneshots waiters_of_def)
  then show ?thesis ..
qed

lemma qexec_handle:
  assumes wf: "queue_wf q" and step: "qexec l q = Some q'" and rx: "rx < length (oneshots q)"
  shows "rx < length (oneshots q') \<and> (handle_kept rx q q' \<or> handle_answered rx q q')"
proof (cases l)
  case (LPush j)
  with step have q': "q' = snd (push_claim j q)" by simp
  show ?thesis
  proof (cases rule: push_claim_cases [of q j])
    case cached
    with q' rx show ?thesis by (simp add: handle_same)
  next
    case join
    with q' rx show ?thesis by (simp add: handle_add_waiter)
  next
    case (fresh q0)
    have "handle_kept rx q q0"
      unfolding fresh(3)
      using rx handle_add_waiter [of rx "q\<lparr>statemap := (statemap q)(job_key j \<mapsto> SPending)\<rparr>" "job_key j"]
      by (simp add: handle_kept_def)
    with fresh q' rx show ?thesis by (simp add: handle_kept_def)
  qed
next
  case (LSend rx')
  with step obtain r where "push_send rx' q = Some (r, q')" by auto
  with wf show ?thesis
  proof (cases rule: push_send_cases)
    case (sent j as bs)
    have "oneshots q' = oneshots q" "waiters q' = waiters q"
      unfolding sent(5) by (simp_all add: remove_push_def update_lane_def)
    with rx show ?thesis by (simp add: handle_same)
  next
    case (refused j as bs)
    have "oneshots q' = set_oneshots (waiters_of (job_key j) q) SenderDropped (oneshots q)"
      "waiters q' = (waiters q)(job_key j := None)"
      unfolding refused(4) by (simp_all add: drop_waiters_def remove_push_def waiters_of_def)
    with handle_cleared [OF rx this] rx show ?thesis by simp
  qed
next
  case (LCancel rx')
  with step have "push_drop rx' q = Some q'" by simp
  with wf show ?thesis
  proof (cases rule: push_drop_cases)
    case (1 j as bs)
    have "oneshots q' = set_oneshots (waiters_of (job_key j) q) SenderDropped (oneshots q)"
      "waiters q' = (waiters q)(job_key j := None)"
      unfolding 1(2) by (simp_all add: drop_waiters_def remove_push_def waiters_of_def)
    with handle_cleared [OF rx this] rx show ?thesis by simp
  qed
next
  case (LNotify t)
  with step have "task_notify t q = Some q'" by simp
  with wf show ?thesis
  proof (cases rule: task_notify_cases)
    case (1 u oc as bs)
    have "oneshots q' = set_oneshots (waiters_of (job_key (task_job u)) q) (Resolved oc) (oneshots q)"
      "waiters q' = (waiters q)(job_key (task_job u) := None)"
      unfolding 1(5) by (simp_all add: set_phase_def)
    from handle_cleared [OF rx this] 1(1,2) this(1) rx show ?thesis by auto
  qed
next
  case (LRecv i)
  with step have "worker_recv i q = Some q'" by simp
  then have "oneshots q' = oneshots q" "waiters q' = waiters q"
    by (cases rule: worker_recv_cases; simp add: update_lane_def)+
  with rx show ?thesis by (simp add: handle_same)
next
  case (LSpawn i)
  with step have "worker_spawn i q = Some q'" by simp
  then have "oneshots q' = oneshots q" "waiters q' = waiters q"
    by (cases rule: worker_spawn_cases; simp add: update_lane_def)+
  with rx show ?thesis by (simp add: handle_same)
next
  case (LStart t)
  with step have "task_start t q = Some q'" by simp
  with wf have "oneshots q' = oneshots q" "waiters q' = waiters q"
    by (cases rule: task_start_cases; simp add: set_phase_def)+
  with rx show ?thesis by (simp add: handle_same)
next
  case (LFinish t r)
  with step have "task_finish t r q = Some q'" by simp
  with wf have "oneshots q' = oneshots q" "waiters q' = waiters q"
    by (cases rule: task_finish_cases; simp add: set_phase_def)+
  with rx show ?thesis by (simp add: handle_same)
next
  case (LExit t)
  with step have "task_exit t q = Some q'" by simp
  with wf have "oneshots q' = oneshots q" "waiters q' = waiters q"
    by (cases rule: task_exit_cases; simp add: update_lane_def)+
  with rx show ?thesis by (simp add: handle_same)
next
  case (LClose i)
  with step have "oneshots q' = oneshots q" "waiters q' = waiters q"
    by (auto simp: lane_close_def update_lane_def split: if_splits)
  with rx show ?thesis by (simp add: handle_same)
qed

lemma answer_ok_qexec:
  assumes inv: "results_inv q" and ok: "answer_ok k rx q" and step: "qexec l q = Some q'"
  shows "answer_ok k rx q'"
proof -
  have wf: "queue_wf q" and reg: "registered_ok q" and qinv: "queue_inv q" and rt: "recorded_true q"
    using inv by (simp_all add: results_inv_def queue_inv_def)
  have rx: "rx < length (oneshots q)" using ok by (simp add: answer_ok_def)
  note h = qexec_handle [OF wf step rx]
  note keep = statemap_completed_qexec [OF qinv step]
  from h show ?thesis
  proof (elim conjE disjE)
    assume "rx < length (oneshots q')" "handle_kept rx q q'"
    then show ?thesis using ok keep by (auto simp: answer_ok_def handle_kept_def)
  next
    assume len: "rx < length (oneshots q')" and "handle_answered rx q q'"
    then obtain k' where k': "rx \<in> set (waiters_of k' q)"
      and v: "oneshots q' ! rx = SenderDropped \<or>
         (\<exists>u \<in> set (tasks q). \<exists>oc. job_key (task_job u) = k' \<and> task_phase u = Recorded oc \<and>
            oneshots q' ! rx = Resolved oc)"
      by (auto simp: handle_answered_def)
    have "oneshots q ! rx = Unresolved" using registered_okD(2) [OF reg k'] .
    then have "rx \<in> set (waiters_of k q)" using ok by (simp add: answer_ok_def)
    then have "k' = k" using registered_okD(3) [OF reg k'] by simp
    with v len rt keep show ?thesis by (auto simp: answer_ok_def recorded_true_def)
  qed
qed

lemma answer_ok_qstep: "results_inv q \<Longrightarrow> answer_ok k rx q \<Longrightarrow> answer_ok k rx (qstep l q)"
  by (auto simp: qstep_def answer_ok_qexec split: option.splits)

section \<open>Waiting for a result\<close>

lemma await_handle_answer:
  "results_inv q \<Longrightarrow> answer_ok k rx q \<Longrightarrow> await_handle rx s q = (r, s', q') \<Longrightarrow>
     results_inv q' \<and> answer_ok k rx q' \<and> r = poll_handle rx q'"
proof (induction s arbitrary: q)
  case Nil
  then show ?case by auto
next
  case (Cons a as)
  show ?case
  proof (cases "poll_handle rx q")
    case Blocked
    with Cons.prems(3) have "await_handle rx as (qstep a q) = (r, s', q')" by simp
    with Cons.IH [OF results_inv_qstep answer_ok_qstep] Cons.prems show ?thesis by blast
  next
    case (Ready h)
    with Cons show ?thesis by auto
  qed
qed

lemma push_claim_answer:
  assumes inv: "results_inv q" and run: "push_claim j q = (s, q')"
  shows "results_inv q'"
    and "s = PushReturn (Cached out) \<Longrightarrow> statemap q' (job_key j) = Some (SCompleted out)"
    and "s = PushReturn (InFlight rx) \<Longrightarrow> answer_ok (job_key j) rx q'"
    and "s = PushReturn (Queued rx) \<Longrightarrow> answer_ok (job_key j) rx q'"
    and "s = PushClaimed rx \<Longrightarrow> answer_ok (job_key j) rx q'"
proof -
  have "qexec (LPush j) q = Some q'" using run by simp
  then show "results_inv q'" using inv queue_results.step_inv by blast
  have "(\<forall>out. s = PushReturn (Cached out) \<longrightarrow> statemap q' (job_key j) = Some (SCompleted out)) \<and>
    (\<forall>rx. s = PushReturn (InFlight rx) \<longrightarrow> answer_ok (job_key j) rx q') \<and>
    (\<forall>rx. s \<noteq> PushReturn (Queued rx)) \<and>
    (\<forall>rx. s = PushClaimed rx \<longrightarrow> answer_ok (job_key j) rx q')"
    by (cases rule: push_claim_cases [of q j]) (use run in \<open>auto simp: answer_ok_def\<close>)
  then show "s = PushReturn (Cached out) \<Longrightarrow> statemap q' (job_key j) = Some (SCompleted out)"
    and "s = PushReturn (InFlight rx) \<Longrightarrow> answer_ok (job_key j) rx q'"
    and "s = PushReturn (Queued rx) \<Longrightarrow> answer_ok (job_key j) rx q'"
    and "s = PushClaimed rx \<Longrightarrow> answer_ok (job_key j) rx q'"
    by blast+
qed

lemma push_send_answer:
  assumes inv: "results_inv q" and ok: "answer_ok k rx q" and run: "push_send rx q = Some (r, q')"
  shows "results_inv q' \<and> answer_ok k rx q' \<and> (\<forall>acc. r = Ok acc \<longrightarrow> acc = Queued rx)"
proof -
  have step: "qexec (LSend rx) q = Some q'" using run by simp
  have wf: "queue_wf q" using inv by (simp add: results_inv_def queue_inv_def)
  have "\<forall>acc. r = Ok acc \<longrightarrow> acc = Queued rx"
    using wf run by (cases rule: push_send_cases) auto
  with queue_results.step_inv [OF inv step] answer_ok_qexec [OF inv ok step] show ?thesis by simp
qed

lemma await_send_answer:
  "results_inv q \<Longrightarrow> answer_ok k rx q \<Longrightarrow>
     await_send (\<lambda>q. q) (\<lambda>q _. q) qstep rx s q = (r, s', q') \<Longrightarrow>
     results_inv q' \<and> answer_ok k rx q' \<and> (\<forall>acc. r = Ready (Ok acc) \<longrightarrow> acc = Queued rx)"
proof (induction s arbitrary: q)
  case Nil
  then show ?case
    by (auto split: option.splits dest: push_send_answer)
next
  case (Cons a as)
  show ?case
  proof (cases "push_send rx q")
    case None
    with Cons.prems(3) have "await_send (\<lambda>q. q) (\<lambda>q _. q) qstep rx as (qstep a q) = (r, s', q')" by simp
    with Cons.IH [OF results_inv_qstep answer_ok_qstep] Cons.prems show ?thesis by blast
  next
    case (Some x)
    with Cons show ?thesis
      by (cases x) (auto dest: push_send_answer)
  qed
qed

lemma wait_result_Ok: "wait_result h = Ok out \<longleftrightarrow> h = Ok (OCompleted out)"
  by (cases h rule: wait_result.cases) auto

lemma queue_push_answer:
  assumes inv: "results_inv q" and run: "queue_push j s q = (r, s', q')"
  shows "results_inv q'"
    and "r = Ready (Ok (Cached out)) \<Longrightarrow> statemap q' (job_key j) = Some (SCompleted out)"
    and "r = Ready (Ok (Queued rx)) \<Longrightarrow> answer_ok (job_key j) rx q'"
    and "r = Ready (Ok (InFlight rx)) \<Longrightarrow> answer_ok (job_key j) rx q'"
proof -
  obtain c q1 where c: "push_claim j q = (c, q1)" by (metis prod.exhaust)
  note claim = push_claim_answer [OF inv c]
  have "results_inv q' \<and>
    (\<forall>out. r = Ready (Ok (Cached out)) \<longrightarrow> statemap q' (job_key j) = Some (SCompleted out)) \<and>
    (\<forall>rx. r = Ready (Ok (Queued rx)) \<longrightarrow> answer_ok (job_key j) rx q') \<and>
    (\<forall>rx. r = Ready (Ok (InFlight rx)) \<longrightarrow> answer_ok (job_key j) rx q')"
  proof (cases c)
    case (PushReturn acc)
    with run c claim show ?thesis by (auto simp: queue_push_def push_def)
  next
    case (PushClaimed rx)
    with run c claim await_send_answer [of q1 "job_key j" rx s r s' q'] show ?thesis
      by (auto simp: queue_push_def push_def)
  qed
  then show "results_inv q'"
    and "r = Ready (Ok (Cached out)) \<Longrightarrow> statemap q' (job_key j) = Some (SCompleted out)"
    and "r = Ready (Ok (Queued rx)) \<Longrightarrow> answer_ok (job_key j) rx q'"
    and "r = Ready (Ok (InFlight rx)) \<Longrightarrow> answer_ok (job_key j) rx q'"
    by blast+
qed

lemma push_and_wait_success:
  assumes inv: "results_inv q" and run: "push_and_wait j s q = (Ready (Ok out), s', q')"
  shows "statemap q' (job_key j) = Some (SCompleted out)"
proof -
  obtain r s1 q1 where p: "queue_push j s q = (r, s1, q1)" by (metis prod.exhaust)
  note push = queue_push_answer [OF inv p]
  have wait: "statemap q' (job_key j) = Some (SCompleted out)"
    if ok: "answer_ok (job_key j) rx q1" and
      w: "(case await_handle rx s1 q1 of (Blocked, s', q'') \<Rightarrow> (Blocked, s', q'')
           | (Ready r, s', q'') \<Rightarrow> (Ready (wait_result r), s', q'')) = (Ready (Ok out), s', q')" for rx
  proof -
    obtain h s2 q2 where h: "await_handle rx s1 q1 = (h, s2, q2)" by (metis prod.exhaust)
    from await_handle_answer [OF push(1) ok h] w h show ?thesis
      by (auto split: async.splits simp: wait_result_Ok poll_handle_def answer_ok_def
          split: oneshot.splits)
  qed
  show ?thesis
  proof (cases r)
    case Blocked
    with run p show ?thesis by (simp add: push_and_wait_def)
  next
    case (Ready rr)
    show ?thesis
    proof (cases rr)
      case (Ok acc)
      with run p Ready push wait show ?thesis
        by (cases acc) (auto simp: push_and_wait_def)
    qed (use run p Ready in \<open>auto simp: push_and_wait_def\<close>)
  qed
qed

end
