(* ===== verification/EngineSystem.thy ===== *)
theory EngineSystem
  imports EngineTrace EngineProgress StepsProjection MemStores QueueResults
begin

text \<open>
  The engine over each of the crate's stores, and the system they form with the queue: calls of the
  engine and actions of other tasks in any order, started from a fresh queue and a freshly opened
  database.
\<close>

section \<open>Engines over the stores\<close>

definition engine_with :: "'s durable_ops \<Rightarrow> string \<Rightarrow> duration \<Rightarrow> priority \<Rightarrow> 's engine" where
  "engine_with ops worker ttl prio =
     \<lparr>eng_ops = ops, eng_worker_id = worker, eng_lease_ttl = ttl, eng_priority = prio\<rparr>"

interpretation sqlite_eng: engine_on sqlite_ops sqlite_inv sqlite_log "engine_with sqlite_ops worker ttl prio"
  for worker ttl prio
  by unfold_locales (simp add: engine_with_def)

interpretation mem_eng: engine_on mem_ops mem_inv mem_log "engine_with mem_ops worker ttl prio"
  for worker ttl prio
  by unfold_locales (simp add: engine_with_def)

interpretation log_eng: engine_on log_ops "\<lambda>_. True" log_of "engine_with log_ops worker ttl prio"
  for worker ttl prio
  by unfold_locales (simp add: engine_with_def)

section \<open>Calls in sequence\<close>

text \<open>The public calls of \<open>WorkflowEngine\<close> that change state, and \<open>recover\<close>.\<close>

datatype engine_call =
    CallRegister workflow "func list"
  | CallRun workflow "func list"
  | CallCancel string string
  | CallResume string usize string
  | CallRecover

fun perform :: "'s engine \<Rightarrow> engine_call \<Rightarrow> (unit, 's) prog" where
  "perform E (CallRegister wflow bodies) = register_workflow E wflow bodies"
| "perform E (CallRun wflow bodies) = run E wflow bodies"
| "perform E (CallCancel wid reason) = cancel E wid reason"
| "perform E (CallResume wid i inp) = resume E wid i inp"
| "perform E CallRecover = ebind (recover E) (\<lambda>_. eret ())"

datatype world_label = WAct env_action | WCall engine_call sched

fun world_exec :: "'s engine \<Rightarrow> world_label \<Rightarrow> 's world \<Rightarrow> 's world option" where
  "world_exec E (WAct a) w = Some (env_act E a w)"
| "world_exec E (WCall c sc) w = Some (snd (snd (perform E c sc w)))"

definition world_init :: "sqlite world \<Rightarrow> bool" where
  "world_init w \<longleftrightarrow>
     (\<exists>q s now. queue_init q \<and> opened s \<and> clock_ok now \<and> w = engine_new q s now)"

definition closed_once ::
    "('s \<Rightarrow> bool) \<Rightarrow> (string \<Rightarrow> 's \<Rightarrow> event list) \<Rightarrow> 's world \<Rightarrow> bool" where
  "closed_once invar log w \<longleftrightarrow>
     world_ok invar w \<and> (\<forall>wid. locked_count (log wid (store w)) \<le> 1)"

context engine_on begin

lemma keeps_perform:
  assumes P: "kept P"
  shows "ltriple invar log ok wid (\<lambda>_. P) (perform E c) (\<lambda>_ _. P) (safely (\<lambda>_. P))"
  by (cases c)
    (auto simp: kept_stable [OF P]
      intro!: lt_register keeps_run keeps_cancel keeps_resume lt_bind [OF keeps_recover] lt_ret P)

lemma sched_ok_all: "sched_ok (\<lambda>_. True) sc"
  by (simp add: sched_ok_def list_all_iff)

lemma keeps_perform_world:
  assumes P: "kept P" and w: "world_ok invar w" "P (log wid (store w))"
    and run: "perform E c sc w = (r, sc', w')"
  shows "world_ok invar w' \<and> P (log wid (store w')) \<and> r \<noteq> Ready Panic"
proof -
  have "logged invar log wid (\<lambda>_. P) w" using w by (simp add: logged_def)
  from etripleD [OF keeps_perform [OF P, unfolded ltriple_def] sched_ok_all this run]
  show ?thesis by (cases r rule: call_cases) (auto simp: logged_def)
qed

lemma closed_once_exec:
  "closed_once invar log w \<Longrightarrow> world_exec E l w = Some w' \<Longrightarrow> closed_once invar log w'"
proof (cases l)
  case (WAct a)
  assume inv: "closed_once invar log w" and step: "world_exec E l w = Some w'"
  have "logged invar log wid (\<lambda>_ l. locked_count l \<le> 1) (env_act E a w)" for wid
    using logged_stable [OF kept_stable [OF kept_locked_count], of "\<lambda>_. True" wid] inv
    by (auto simp: estable_def logged_def closed_once_def)
  then show ?thesis using step WAct by (auto simp: closed_once_def logged_def)
next
  case (WCall c sc)
  assume inv: "closed_once invar log w" and step: "world_exec E l w = Some w'"
  obtain r sc' where run: "perform E c sc w = (r, sc', w')"
    using step WCall by (cases "perform E c sc w") auto
  have "world_ok invar w' \<and> locked_count (log wid (store w')) \<le> 1 \<and> r \<noteq> Ready Panic" for wid
    using keeps_perform_world [OF kept_locked_count _ _ run, of wid] inv by (simp add: closed_once_def)
  then show ?thesis by (auto simp: closed_once_def)
qed

end

lemma opened_db: "opened s \<Longrightarrow> conn_db s = migrated empty_db"
proof -
  assume "opened s"
  then obtain fs where "sqlite_new \<lparr>conn_db = empty_db, poisoned = False, fates = fs\<rparr> = (Ok (), s)"
    by (auto simp: opened_def)
  from sq_runsD [OF runs_new this] show ?thesis by simp
qed

lemma opened_log: "opened s \<Longrightarrow> sqlite_log wid s = []"
  by (simp add: sqlite_log_def opened_db migrated_fields) (simp add: event_log_def empty_db_def)

lemma engine_new_fields [simp]:
  "store (engine_new q s now) = s" "wqueue (engine_new q s now) = q" "wall (engine_new q s now) = now"
  "in_flight (engine_new q s now) = Map.empty" "terminal_locked (engine_new q s now) = False"
  by (simp_all add: engine_new_def)

lemma world_init_closed: "world_init w \<Longrightarrow> closed_once sqlite_inv sqlite_log w"
  using projection_inv_opened queue_inv_init
  by (auto simp: world_init_def closed_once_def world_ok_def projection_inv_def mounts_ok_def opened_log)

interpretation engine_sys: invariant_system
    "world_exec (engine_with sqlite_ops worker ttl prio)" world_init "closed_once sqlite_inv sqlite_log"
  for worker ttl prio
  by unfold_locales (fact world_init_closed, fact sqlite_eng.closed_once_exec)

end
