(* ===== verification/QueueLiveness.thy ===== *)
theory QueueLiveness
  imports QueueSafety
begin

text \<open>
  The queue comes to rest.  The steps the queue takes on its own (sends into lanes, the worker
  loops, the job tasks, with every closure eventually returning something) decrease a weight, and
  as long as the weight is not zero and the lanes are alive one of them is enabled.
\<close>

fun phase_weight :: "phase \<Rightarrow> nat" where
  "phase_weight Spawned = 4"
| "phase_weight Running = 3"
| "phase_weight (Recorded oc) = 2"
| "phase_weight Notified = 1"

definition tasks_weight :: "task list \<Rightarrow> nat" where
  "tasks_weight ts = sum_list (map (\<lambda>u. phase_weight (task_phase u)) ts)"

definition lane_weight :: "lane \<Rightarrow> nat" where
  "lane_weight l = 6 * length (lane_buf l) + (case lane_held l of None \<Rightarrow> 0 | Some _ \<Rightarrow> 5)"

definition queue_weight :: "queue \<Rightarrow> nat" where
  "queue_weight q =
     7 * length (pushes q) + sum_list (map lane_weight (lanes q)) + tasks_weight (tasks q)"

fun internal_label :: "qlabel \<Rightarrow> bool" where
  "internal_label (LPush j) = False"
| "internal_label (LCancel rx) = False"
| "internal_label (LClose i) = False"
| "internal_label l = True"

text \<open>Lanes that can make progress: open, with room for a job and a permit to run it.\<close>

definition lane_alive :: "bool \<times> lane_config \<Rightarrow> bool" where
  "lane_alive s \<longleftrightarrow> fst s \<and> capacity (snd s) \<noteq> 0 \<and> permits (snd s) \<noteq> 0"

definition queue_alive :: "queue \<Rightarrow> bool" where
  "queue_alive q \<longleftrightarrow> list_all lane_alive (map lane_static (lanes q))"

lemma tasks_weight_simps [simp]:
  "tasks_weight [] = 0" "tasks_weight (u # ts) = phase_weight (task_phase u) + tasks_weight ts"
  "tasks_weight (ts @ ts') = tasks_weight ts + tasks_weight ts'"
  by (simp_all add: tasks_weight_def)

lemma lanes_weight_update:
  assumes "i < length ls"
  shows "sum_list (map lane_weight (ls[i := l])) + lane_weight (ls ! i) =
    sum_list (map lane_weight ls) + lane_weight l"
proof -
  obtain as bs where s: "ls = as @ ls ! i # bs" "\<forall>y. ls[i := y] = as @ y # bs"
    using list_update_split [OF assms] by blast
  have "sum_list (map lane_weight ls) =
      sum_list (map lane_weight as) + lane_weight (ls ! i) + sum_list (map lane_weight bs)"
    by (subst s(1)) simp
  then show ?thesis by (simp add: s(2))
qed

lemma is_LClose_internal: "internal_label l \<Longrightarrow> \<not> is_LClose l"
  by (cases l) auto

lemma queue_alive_open: "queue_alive q \<Longrightarrow> all_open q"
  by (auto simp: queue_alive_def all_open_static list_all_iff lane_alive_def)

lemma queue_alive_step:
  "queue_wf q \<Longrightarrow> internal_label l \<Longrightarrow> qexec l q = Some q' \<Longrightarrow> queue_alive q \<Longrightarrow> queue_alive q'"
  using lanes_static_qexec [of q l q'] by (simp add: queue_alive_def is_LClose_internal)

lemma queue_alive_lane:
  assumes "queue_alive q" and "i < length (lanes q)"
  shows "lane_open (lanes q ! i)" "0 < unat (capacity (lane_config (lanes q ! i)))"
    "0 < unat (permits (lane_config (lanes q ! i)))"
  using assms by (auto simp: queue_alive_def list_all_length lane_alive_def lane_static_def unat_gt_0)

lemma weight_send:
  assumes wf: "queue_wf q" and step: "push_send rx q = Some (r, q')"
  shows "queue_weight q' < queue_weight q"
  using wf step
proof (cases rule: push_send_cases)
  case (sent j as bs)
  let ?i = "priority_index (job_priority j)"
  have "sum_list (map lane_weight (lanes q')) = sum_list (map lane_weight (lanes q)) + 6"
    using lanes_weight_update [of ?i "lanes q" "lane_buf_update (\<lambda>b. b @ [j]) (lanes q ! ?i)"]
      queue_wfD(1) [OF wf] sent(5)
    by (simp add: lane_weight_def)
  moreover have "tasks q' = tasks q" using sent(5) by simp
  ultimately show ?thesis using sent(1,6) by (simp add: queue_weight_def)
next
  case (refused j as bs)
  have "lanes q' = lanes q" "tasks q' = tasks q" using refused(4) by simp_all
  then show ?thesis using refused(1,5) by (simp add: queue_weight_def)
qed

lemma weight_internal:
  assumes wf: "queue_wf q" and l: "internal_label l" and step: "qexec l q = Some q'"
  shows "queue_weight q' < queue_weight q"
proof (cases l)
  case (LSend rx)
  with step obtain r where "push_send rx q = Some (r, q')" by auto
  with wf show ?thesis by (rule weight_send)
next
  case (LRecv i)
  with step have "worker_recv i q = Some q'" by simp
  then show ?thesis
  proof (cases rule: worker_recv_cases)
    case (1 j rest)
    then show ?thesis
      using lanes_weight_update [OF 1(1), of "(lanes q ! i)\<lparr>lane_buf := rest, lane_held := Some j\<rparr>"]
      by (simp add: queue_weight_def lane_weight_def)
  qed
next
  case (LSpawn i)
  with step have "worker_spawn i q = Some q'" by simp
  then show ?thesis
  proof (cases rule: worker_spawn_cases)
    case (1 j)
    then show ?thesis
      using lanes_weight_update [OF 1(1), of "(lanes q ! i)\<lparr>lane_held := None, lane_free := lane_free (lanes q ! i) - 1\<rparr>"]
      by (simp add: queue_weight_def lane_weight_def)
  qed
next
  case (LStart t)
  with step have "task_start t q = Some q'" by simp
  with wf show ?thesis by (cases rule: task_start_cases) (simp add: queue_weight_def)
next
  case (LFinish t r)
  with step have "task_finish t r q = Some q'" by simp
  with wf show ?thesis by (cases rule: task_finish_cases) (simp add: queue_weight_def)
next
  case (LNotify t)
  with step have "task_notify t q = Some q'" by simp
  with wf show ?thesis by (cases rule: task_notify_cases) (simp add: queue_weight_def)
next
  case (LExit t)
  with step have "task_exit t q = Some q'" by simp
  with wf show ?thesis
  proof (cases rule: task_exit_cases)
    case (1 u as bs)
    have "task_lane u < length (lanes q)" using queue_wfD(1,6) [OF wf] 1(1) by simp
    from lanes_weight_update [OF this, of "(lanes q ! task_lane u)\<lparr>lane_free := Suc (lane_free (lanes q ! task_lane u))\<rparr>"] 1
    show ?thesis by (simp add: queue_weight_def lane_weight_def)
  qed
qed (use l in simp_all)

lemma find_task_member:
  assumes "queue_wf q" and "u \<in> set (tasks q)"
  shows "find_task (task_id u) q = Some u"
proof -
  from assms(2) obtain v where v: "find_task (task_id u) q = Some v"
    by (cases "find_task (task_id u) q") (auto simp: find_task_def find_None_iff)
  then have "v \<in> set (tasks q)" "task_id v = task_id u" by (auto simp: find_task_def find_Some_iff)
  then have "v = u" using assms queue_wfD(4) [OF assms(1)] by (auto simp: distinct_map inj_on_def)
  with v show ?thesis by simp
qed

text \<open>A task can always take its next step; without tasks a worker or a sender can.\<close>

lemma task_progress:
  assumes wf: "queue_wf q" and u: "u \<in> set (tasks q)"
  shows "\<exists>l q'. internal_label l \<and> qexec l q = Some q'"
proof -
  note f = find_task_member [OF wf u]
  show ?thesis
  proof (cases "task_phase u")
    case Spawned
    with f show ?thesis by (intro exI [of _ "LStart (task_id u)"]) (simp add: task_start_def)
  next
    case Running
    with f show ?thesis by (intro exI [of _ "LFinish (task_id u) Panic"]) (simp add: task_finish_def)
  next
    case (Recorded oc)
    with f show ?thesis by (intro exI [of _ "LNotify (task_id u)"]) (simp add: task_notify_def Let_def)
  next
    case Notified
    with f show ?thesis by (intro exI [of _ "LExit (task_id u)"]) (simp add: task_exit_def Let_def)
  qed
qed

lemma lane_progress:
  assumes wf: "queue_wf q" and alive: "queue_alive q" and i: "i < length (lanes q)"
    and none: "tasks q = []" and w: "lane_weight (lanes q ! i) \<noteq> 0"
  shows "\<exists>l q'. internal_label l \<and> qexec l q = Some q'"
proof (cases "lane_held (lanes q ! i)")
  case None
  with w obtain j rest where "lane_buf (lanes q ! i) = j # rest"
    by (cases "lane_buf (lanes q ! i)") (auto simp: lane_weight_def)
  with None i show ?thesis
    using queue_alive_lane(1) [OF alive i] by (intro exI [of _ "LRecv i"]) (simp add: worker_recv_def)
next
  case (Some j)
  have "0 < lane_free (lanes q ! i)"
    using lane_okD(2) [OF queue_wfD(7) [OF wf, of i]] queue_alive_lane(3) [OF alive i]
      queue_wfD(1) [OF wf] i none by simp
  with Some i show ?thesis by (intro exI [of _ "LSpawn i"]) (simp add: worker_spawn_def Let_def)
qed

lemma push_progress:
  assumes wf: "queue_wf q" and alive: "queue_alive q" and idle: "sum_list (map lane_weight (lanes q)) = 0"
    and p: "(rx, j) \<in> set (pushes q)"
  shows "\<exists>l q'. internal_label l \<and> qexec l q = Some q'"
proof -
  let ?i = "priority_index (job_priority j)"
  have i: "?i < length (lanes q)" using queue_wfD(1) [OF wf] by simp
  then have "lane_weight (lanes q ! ?i) = 0" using idle by (simp add: sum_list_eq_0_iff)
  then have "lane_buf (lanes q ! ?i) = []" by (simp add: lane_weight_def split: option.splits)
  moreover have "map_of (pushes q) rx = Some j" using p queue_wfD(2) [OF wf] by simp
  ultimately show ?thesis
    using queue_alive_lane(1,2) [OF alive i]
    by (intro exI [of _ "LSend rx"]) (simp add: push_send_def Let_def)
qed

lemma queue_progress:
  assumes wf: "queue_wf q" and alive: "queue_alive q" and w: "queue_weight q \<noteq> 0"
  shows "\<exists>l q'. internal_label l \<and> qexec l q = Some q'"
proof (cases "tasks q")
  case (Cons u ts)
  then show ?thesis using task_progress [OF wf, of u] by simp
next
  case Nil
  show ?thesis
  proof (cases "sum_list (map lane_weight (lanes q)) = 0")
    case False
    then obtain l where "l \<in> set (lanes q)" "lane_weight l \<noteq> 0" by auto
    then obtain i where "i < length (lanes q)" "lane_weight (lanes q ! i) \<noteq> 0"
      by (auto simp: in_set_conv_nth)
    then show ?thesis using lane_progress [OF wf alive _ Nil] by blast
  next
    case True
    with w Nil have "pushes q \<noteq> []" by (auto simp: queue_weight_def)
    then obtain rx j where "(rx, j) \<in> set (pushes q)" by (metis list.set_intros(1) neq_Nil_conv surj_pair)
    then show ?thesis by (rule push_progress [OF wf alive True])
  qed
qed

interpretation queue_rest: resting_system qexec queue_init queue_inv internal_label queue_weight queue_alive
proof unfold_locales
  fix q l q'
  assume inv: "queue_inv q"
  then have wf: "queue_wf q" by (simp add: queue_inv_def)
  show "queue_weight q' < queue_weight q" if "internal_label l" "qexec l q = Some q'"
    using wf that by (rule weight_internal)
  show "queue_alive q'" if "internal_label l" "qexec l q = Some q'" "queue_alive q"
    using wf that by (rule queue_alive_step)
  show "\<exists>l s'. internal_label l \<and> qexec l q = Some s'" if "queue_alive q" "queue_weight q \<noteq> 0"
    using wf that by (rule queue_progress)
qed

text \<open>At rest nothing is claimed any more, and nobody waits.\<close>

lemma weight_zero_idle:
  assumes inv: "queue_inv q" and alive: "queue_alive q" and w: "queue_weight q = 0"
  shows "\<not> claimed (statemap q k)" and "rx < length (oneshots q) \<Longrightarrow> oneshots q ! rx \<noteq> Unresolved"
proof -
  have emp: "pushes q = []" "sum_list (map lane_weight (lanes q)) = 0" "tasks_weight (tasks q) = 0"
    using w by (simp_all add: queue_weight_def)
  have pos: "phase_weight ph \<noteq> 0" for ph by (cases ph) auto
  have tk: "tasks q = []" using emp(3) pos by (cases "tasks q") auto
  have "lane_jobs l = []" if "l \<in> set (lanes q)" for l
    using emp(2) that by (auto simp: lane_weight_def lane_jobs_def split: option.splits)
  then have "lanes_jobs (lanes q) = {#}" by (simp add: lanes_jobs_def)
  then have none: "waiting_jobs q = {#}" "running_jobs q = {#}"
    using emp tk by (simp_all add: waiting_jobs_def running_jobs_def)
  have backed: "key_backed (abs_queue q)" and ki: "key_inv (abs_queue q)"
    using inv queue_alive_open [OF alive] by (simp_all add: queue_inv_def)
  have nc: "\<not> claimed (statemap q k)" for k
    using backed key_invD(5) [OF ki, of k] none
    by (auto simp: claimed_def key_backed_def abs_queue_def)
  then show "\<not> claimed (statemap q k)" .
  show "oneshots q ! rx \<noteq> Unresolved" if rx: "rx < length (oneshots q)"
  proof
    assume "oneshots q ! rx = Unresolved"
    then obtain k where "rx \<in> set (waiters_of k q)"
      using inv rx registered_okD(4) by (auto simp: queue_inv_def)
    then have "waiters_of k q \<noteq> []" by auto
    then have "claimed (statemap q k) \<or> recorded k q"
      using inv by (simp add: queue_inv_def waited_ok_def)
    then show False using nc tk by (simp add: recorded_def)
  qed
qed

end
