(* ===== verification/QueueProperties.thy ===== *)
theory QueueProperties
  imports QueueResults QueueLiveness
begin

text \<open>
  The properties of the queue, each stated of every state reachable from a started queue by atomic
  operations in any order, with a concrete run that meets its hypotheses.
\<close>

section \<open>A concrete run\<close>

definition demo_tokio :: tokio where
  "demo_tokio =
     \<lparr>channel_panics = (\<lambda>_. False), semaphore_panics = (\<lambda>_. False), send_error_display = ''channel closed''\<rparr>"

definition demo_queue :: queue where
  "demo_queue =
     (case start demo_tokio builder_default of
        Ok q \<Rightarrow> q
      | _ \<Rightarrow> \<lparr>statemap = Map.empty, waiters = Map.empty, oneshots = [], lanes = [], pushes = [], tasks = [],
             next_task = 0, send_error_text = []\<rparr>)"

definition demo_job :: job where
  "demo_job = new_job ''k'' High 7"

definition demo_after :: "qlabel list \<Rightarrow> queue" where
  "demo_after ls = (case run_labels qexec ls demo_queue of Some q \<Rightarrow> q | None \<Rightarrow> demo_queue)"

definition demo_running :: queue where
  "demo_running = demo_after [LPush demo_job, LSend 0, LRecv 2, LSpawn 2, LStart 0]"

definition demo_done :: queue where
  "demo_done = demo_after [LPush demo_job, LSend 0, LRecv 2, LSpawn 2, LStart 0, LFinish 0 (Ok ''out'')]"

lemma demo_queue_init: "queue_init demo_queue"
  unfolding queue_init_def demo_queue_def
  by (intro exI [of _ demo_tokio] exI [of _ builder_default])
    (simp add: start_def demo_tokio_def builder_default_def list_ex_iff)

lemma demo_reach: "reach qexec demo_queue (demo_after ls)"
  unfolding demo_after_def by (auto simp: reach_start intro: run_labels_reach split: option.splits)

lemma queue_reach_inv: "queue_init q0 \<Longrightarrow> reach qexec q0 q \<Longrightarrow> queue_inv q"
  by (rule queue_sys.reach_inv)

lemmas demo_defs = demo_running_def demo_done_def

section \<open>One execution per key\<close>

text \<open>
  C8: At any time at most one job of a key is accepted and not finished, over the \<open>push\<close> calls that
  wait for room, the lane buffers, the workers and the tasks together; and a body of the key runs
  exactly while its recorded state is \<open>Processing\<close>.
\<close>

lemma one_job_per_key:
  assumes "queue_init q0" and "reach qexec q0 q"
  shows "occurrences k (waiting_jobs q + running_jobs q) \<le> 1 \<and>
    (occurrences k (running_jobs q) = 1 \<longleftrightarrow> statemap q k = Some SProcessing)"
proof -
  have inv: "key_inv (abs_queue q)" using queue_reach_inv [OF assms] by (simp add: queue_inv_def)
  have "occurrences k (running_jobs q) = 1 \<Longrightarrow> statemap q k = Some SProcessing"
    using key_invD(2) [OF inv] occurrences_eq_0_iff [of k "running_jobs q"] by (auto simp: abs_queue_def)
  then show ?thesis
    using key_inv_at_most_one [OF inv, of k] key_invD(5) [OF inv, of k] by (auto simp: abs_queue_def)
qed

lemma one_job_per_key_witness:
  "occurrences ''k'' (waiting_jobs demo_running + running_jobs demo_running) \<le> 1 \<and>
   (occurrences ''k'' (running_jobs demo_running) = 1 \<longleftrightarrow> statemap demo_running ''k'' = Some SProcessing)"
  unfolding demo_defs by (rule one_job_per_key [OF demo_queue_init demo_reach])

text \<open>
  C7: The queue implements the contract of its keys: every run, seen through the recorded states and
  the jobs that wait or run, is a run of \<open>key_step\<close> from the empty specification.
\<close>

lemma queue_refines_keys:
  assumes "queue_init q0" and "reach qexec q0 q"
  shows "abs_queue q0 = \<lparr>ks_state = Map.empty, ks_waiting = {#}, ks_running = {#}\<rparr> \<and>
    (key_step True)\<^sup>*\<^sup>* (abs_queue q0) (abs_queue q)"
proof
  show "abs_queue q0 = \<lparr>ks_state = Map.empty, ks_waiting = {#}, ks_running = {#}\<rparr>"
    using assms(1)
    by (auto simp: queue_init_def abs_queue_def waiting_jobs_def running_jobs_def dest!: start_eq)
  show "(key_step True)\<^sup>*\<^sup>* (abs_queue q0) (abs_queue q)"
    using assms queue_sys.reach_simulates queue_inv_init by blast
qed

lemma queue_refines_keys_witness:
  "abs_queue demo_queue = \<lparr>ks_state = Map.empty, ks_waiting = {#}, ks_running = {#}\<rparr> \<and>
   (key_step True)\<^sup>*\<^sup>* (abs_queue demo_queue) (abs_queue demo_running)"
  unfolding demo_defs by (rule queue_refines_keys [OF demo_queue_init demo_reach])

text \<open>
  C23: A completed key stays completed: from then on every \<open>push\<close> of a job with that key, however
  often and whenever it comes, is answered with the cached output and changes nothing.
\<close>

lemma completed_key_is_cached:
  assumes "queue_init q0" and "reach qexec q0 q" and "statemap q (job_key j) = Some (SCompleted out)"
    and "reach qexec q q'"
  shows "queue_push j s q' = (Ready (Ok (Cached out)), s, q')"
proof -
  have kinv: "key_inv (abs_queue q)" and qinv: "queue_inv q"
    using queue_reach_inv [OF assms(1,2)] by (simp_all add: queue_inv_def)
  have "(key_step True)\<^sup>*\<^sup>* (abs_queue q) (abs_queue q')"
    using assms(4) qinv by (rule queue_sys.reach_simulates)
  then have "statemap q' (job_key j) = Some (SCompleted out)"
    using key_steps_completed [OF _ kinv, of True "abs_queue q'" "job_key j" out] assms(3)
    by (simp add: abs_queue_def)
  then show ?thesis by (simp add: queue_push_def push_def push_claim_def)
qed

lemma demo_done_completed: "statemap demo_done (job_key demo_job) = Some (SCompleted ''out'')"
  by code_simp

lemma completed_key_is_cached_witness:
  "queue_push demo_job [LPush demo_job] demo_done = (Ready (Ok (Cached ''out'')), [LPush demo_job], demo_done)"
proof (rule completed_key_is_cached [OF demo_queue_init])
  show "reach qexec demo_queue demo_done" by (simp add: demo_done_def demo_reach)
qed (rule demo_done_completed reach_start)+

section \<open>Bounds\<close>

text \<open>
  C36: A lane's buffer never holds more jobs than its capacity, and the tasks of a lane together with
  its free permits are exactly its permits, so no more than \<open>permits\<close> bodies of a lane run at once.
\<close>

lemma lanes_bounded:
  assumes "queue_init q0" and "reach qexec q0 q" and "i < length (lanes q)"
  shows "length (lane_buf (lanes q ! i)) \<le> unat (capacity (lane_config (lanes q ! i))) \<and>
    lane_free (lanes q ! i) + length (filter (\<lambda>u. task_lane u = i) (tasks q)) =
      unat (permits (lane_config (lanes q ! i)))"
proof -
  have wf: "queue_wf q" using queue_reach_inv [OF assms(1,2)] by (simp add: queue_inv_def)
  show ?thesis using queue_wfD(1,7) [OF wf] assms(3) by (simp add: lane_ok_def)
qed

lemma lanes_bounded_witness:
  "length (lane_buf (lanes demo_running ! 2)) \<le> unat (capacity (lane_config (lanes demo_running ! 2))) \<and>
    lane_free (lanes demo_running ! 2) + length (filter (\<lambda>u. task_lane u = 2) (tasks demo_running)) =
      unat (permits (lane_config (lanes demo_running ! 2)))"
  unfolding demo_defs by (rule lanes_bounded [OF demo_queue_init demo_reach]) code_simp

section \<open>Handles\<close>

text \<open>
  C32: A handle that is not answered yet is registered under exactly one key, and that key is claimed
  or its outcome is recorded and about to be sent: no handle is forgotten while nothing is going on
  for its key.
\<close>

lemma unresolved_handle_registered:
  assumes "queue_init q0" and "reach qexec q0 q"
    and "rx < length (oneshots q)" and "oneshots q ! rx = Unresolved"
  shows "\<exists>!k. rx \<in> set (waiters_of k q) \<and> (claimed (statemap q k) \<or> recorded k q)"
proof -
  have reg: "registered_ok q" and wait: "waited_ok q"
    using queue_reach_inv [OF assms(1,2)] by (simp_all add: queue_inv_def)
  obtain k where k: "rx \<in> set (waiters_of k q)" using registered_okD(4) [OF reg assms(3,4)] by blast
  then have "waiters_of k q \<noteq> []" by auto
  with k wait registered_okD(3) [OF reg k] show ?thesis unfolding waited_ok_def by blast
qed

lemma unresolved_handle_registered_witness:
  "\<exists>!k. 0 \<in> set (waiters_of k demo_running) \<and> (claimed (statemap demo_running k) \<or> recorded k demo_running)"
  unfolding demo_defs by (rule unresolved_handle_registered [OF demo_queue_init demo_reach]) code_simp+

text \<open>
  C33: \<open>push_and_wait\<close> never returns a stale success: when it returns an output, on any schedule, that
  output is the recorded result of the job's key.
\<close>

lemma push_and_wait_output_recorded:
  assumes "queue_init q0" and "reach qexec q0 q"
    and "push_and_wait j s q = (Ready (Ok out), s', q')"
  shows "statemap q' (job_key j) = Some (SCompleted out)"
  using queue_results.reach_inv [OF assms(1,2)] assms(3) by (rule push_and_wait_success)

definition demo_sched :: "qlabel list" where
  "demo_sched = [LRecv 2, LSpawn 2, LStart 0, LFinish 0 (Ok ''out''), LNotify 0, LExit 0]"

lemma demo_push_and_wait:
  "fst (push_and_wait demo_job demo_sched demo_queue) = Ready (Ok ''out'')"
  by code_simp

lemma push_and_wait_output_recorded_witness:
  "statemap (snd (snd (push_and_wait demo_job demo_sched demo_queue))) ''k'' = Some (SCompleted ''out'')"
proof -
  have "push_and_wait demo_job demo_sched demo_queue =
      (Ready (Ok ''out''), fst (snd (push_and_wait demo_job demo_sched demo_queue)),
       snd (snd (push_and_wait demo_job demo_sched demo_queue)))"
    using demo_push_and_wait by (metis prod.collapse)
  from push_and_wait_output_recorded [OF demo_queue_init reach_start this]
  show ?thesis by (simp add: demo_job_def new_job_def)
qed


section \<open>Every handle is answered\<close>

text \<open>
  C11: While every lane is open and has room and permits, the queue always can finish: some run of
  its own steps (sends, workers, tasks) leads to a state where no key is claimed and every handle
  is answered.
\<close>

lemma queue_drains:
  assumes "queue_init q0" and "reach qexec q0 q" and "queue_alive q"
  shows "\<exists>ls q'. list_all internal_label ls \<and> run_labels qexec ls q = Some q' \<and>
    (\<forall>k. \<not> claimed (statemap q' k)) \<and> (\<forall>rx < length (oneshots q'). oneshots q' ! rx \<noteq> Unresolved)"
proof -
  have inv: "queue_inv q" by (rule queue_reach_inv [OF assms(1,2)])
  obtain ls q' where ls: "list_all internal_label ls" "run_labels qexec ls q = Some q'" "queue_weight q' = 0"
    using queue_rest.comes_to_rest [OF inv assms(3)] by blast
  have inv': "queue_inv q'" using run_labels_reach [OF ls(2)] inv by (rule queue_sys.reach_from_inv)
  have "queue_alive q'"
    using ls(1,2) inv assms(3)
  proof (induction ls arbitrary: q)
    case (Cons l ls)
    then obtain t where t: "qexec l q = Some t" "run_labels qexec ls t = Some q'"
      by (auto split: option.splits)
    have "internal_label l" "list_all internal_label ls" using Cons.prems(1) by simp_all
    with Cons.IH [OF _ t(2)] t(1) Cons.prems(3,4) show ?case
      using queue_sys.step_inv queue_rest.internal_live by blast
  qed simp
  with weight_zero_idle [OF inv' _ ls(3)] ls show ?thesis by blast
qed

lemma demo_running_alive: "queue_alive demo_running"
  by code_simp

lemma queue_drains_witness:
  "\<exists>ls q'. list_all internal_label ls \<and> run_labels qexec ls demo_running = Some q' \<and>
    (\<forall>k. \<not> claimed (statemap q' k)) \<and> (\<forall>rx < length (oneshots q'). oneshots q' ! rx \<noteq> Unresolved)"
  using queue_drains [OF demo_queue_init, of demo_running] demo_running_alive
  by (simp add: demo_running_def demo_reach)






section \<open>Errors\<close>

lemma find_task_set_phase:
  assumes "find_task t q = Some u"
  shows "find_task t (set_phase t ph q') = map_option (\<lambda>v. v\<lparr>task_phase := ph\<rparr>) (find_task t q')"
proof -
  have "find (\<lambda>v. task_id v = t) (map (\<lambda>v. if task_id v = t then v\<lparr>task_phase := ph\<rparr> else v) ts) =
      map_option (\<lambda>v. v\<lparr>task_phase := ph\<rparr>) (find (\<lambda>v. task_id v = t) ts)" for ts :: "task list"
    by (induction ts) auto
  then show ?thesis by (simp add: find_task_def set_phase_def)
qed

lemma find_task_fields [simp]:
  "find_task t (q\<lparr>statemap := m\<rparr>) = find_task t q" "find_task t (q\<lparr>waiters := w\<rparr>) = find_task t q"
  "find_task t (q\<lparr>oneshots := os\<rparr>) = find_task t q"
  by (simp_all add: find_task_def)

lemma set_phase_fields [simp]:
  "statemap (set_phase t ph q) = statemap q" "waiters (set_phase t ph q) = waiters q"
  "oneshots (set_phase t ph q) = oneshots q" "lanes (set_phase t ph q) = lanes q"
  by (simp_all add: set_phase_def)

text \<open>
  C39: A panicking body is contained: its key is recorded as failed with \<open>job panicked\<close>, every waiter
  of the key is sent that failure, and the permit is given back.
\<close>

lemma panicking_body_contained:
  assumes "queue_init q0" and "reach qexec q0 q"
    and "find_task t q = Some u" and "task_phase u = Running"
  shows "\<exists>q'. run_labels qexec [LFinish t Panic, LNotify t, LExit t] q = Some q' \<and>
    statemap q' (job_key (task_job u)) = Some (SFailed ''job panicked'') \<and>
    waiters_of (job_key (task_job u)) q' = [] \<and>
    (\<forall>rx \<in> set (waiters_of (job_key (task_job u)) q). poll_handle rx q' = Ready (Ok (OFailed ''job panicked''))) \<and>
    lane_free (lanes q' ! task_lane u) = Suc (lane_free (lanes q ! task_lane u))"
proof -
  have inv: "queue_inv q" by (rule queue_reach_inv [OF assms(1,2)])
  then have wf: "queue_wf q" and reg: "registered_ok q" by (simp_all add: queue_inv_def)
  have u: "u \<in> set (tasks q)" "task_id u = t" using assms(3) by (auto simp: find_task_def find_Some_iff)
  then have lane: "task_lane u < length (lanes q)" using wf by (auto simp: queue_wf_def)
  have os: "rx < length (oneshots q)" if "rx \<in> set (waiters_of k q)" for rx k
    using registered_okD(1) [OF reg that] .
  note find = find_task_set_phase [OF assms(3)]
  show ?thesis
    using assms(3,4) lane os
    by (simp add: task_finish_def task_notify_def task_exit_def find Let_def update_lane_def
        poll_handle_def nth_set_oneshots) (simp add: waiters_of_def)
qed

lemma demo_running_task:
  "find_task 0 demo_running =
     Some \<lparr>task_id = 0, task_lane = 2, task_job = demo_job, task_phase = Running\<rparr>"
  by code_simp

lemma panicking_body_contained_witness:
  "\<exists>q'. run_labels qexec [LFinish 0 Panic, LNotify 0, LExit 0] demo_running = Some q' \<and>
    statemap q' ''k'' = Some (SFailed ''job panicked'') \<and> waiters_of ''k'' q' = [] \<and>
    (\<forall>rx \<in> set (waiters_of ''k'' demo_running). poll_handle rx q' = Ready (Ok (OFailed ''job panicked''))) \<and>
    lane_free (lanes q' ! 2) = Suc (lane_free (lanes demo_running ! 2))"
  using panicking_body_contained [OF demo_queue_init _ demo_running_task]
  by (simp add: demo_running_def demo_reach) (simp add: demo_job_def new_job_def)

text \<open>
  C40: A \<open>push\<close> that finds its lane closed returns \<open>LaneClosed\<close> and leaves nothing behind that blocks
  the key: it is recorded as failed with the message of the send error, its waiters are released,
  and the next \<open>push\<close> claims it again.
\<close>

lemma refused_push_releases_key:
  assumes "queue_init q0" and "reach qexec q0 q" and "map_of (pushes q) rx = Some j"
    and "\<not> lane_open (lanes q ! priority_index (job_priority j))"
  shows "\<exists>q'. push_send rx q = Some (Err LaneClosed, q') \<and>
    statemap q' (job_key j) = Some (SFailed (send_error_text q)) \<and>
    (\<forall>rx' \<in> set (waiters_of (job_key j) q). poll_handle rx' q' = Ready (Err JobLost)) \<and>
    fst (push_claim j q') = PushClaimed (length (oneshots q'))"
proof -
  have reg: "registered_ok q" using queue_reach_inv [OF assms(1,2)] by (simp add: queue_inv_def)
  have os: "rx' < length (oneshots q)" if "rx' \<in> set (waiters_of k q)" for rx' k
    using registered_okD(1) [OF reg that] .
  show ?thesis
    using os assms(3,4)
    by (simp add: push_send_def Let_def remove_push_def drop_waiters_def poll_handle_def
        nth_set_oneshots push_claim_def add_waiter_def waiters_of_def)
qed

lemma refused_push_releases_key_witness:
  "\<exists>q'. push_send 0 (demo_after [LPush demo_job, LClose 2]) = Some (Err LaneClosed, q') \<and>
    statemap q' (job_key demo_job) = Some (SFailed (send_error_text (demo_after [LPush demo_job, LClose 2]))) \<and>
    (\<forall>rx' \<in> set (waiters_of (job_key demo_job) (demo_after [LPush demo_job, LClose 2])).
       poll_handle rx' q' = Ready (Err JobLost)) \<and>
    fst (push_claim demo_job q') = PushClaimed (length (oneshots q'))"
  by (rule refused_push_releases_key [OF demo_queue_init demo_reach]) code_simp+

text \<open>
  Dropping a \<open>push\<close> future that still waits for room gives the key back: its state entry is gone,
  the handles that joined it report \<open>JobLost\<close>, and the next \<open>push\<close> claims the key.
\<close>

lemma dropped_push_releases_key:
  assumes "queue_init q0" and "reach qexec q0 q" and "map_of (pushes q) rx = Some j"
  shows "\<exists>q'. push_drop rx q = Some q' \<and> queue_state (job_key j) q' = None \<and>
    (\<forall>rx' \<in> set (waiters_of (job_key j) q). poll_handle rx' q' = Ready (Err JobLost)) \<and>
    fst (push_claim j q') = PushClaimed (length (oneshots q'))"
proof -
  have reg: "registered_ok q" using queue_reach_inv [OF assms(1,2)] by (simp add: queue_inv_def)
  have os: "rx' < length (oneshots q)" if "rx' \<in> set (waiters_of k q)" for rx' k
    using registered_okD(1) [OF reg that] .
  show ?thesis
    using os assms(3)
    by (simp add: push_drop_def Let_def remove_push_def drop_waiters_def poll_handle_def queue_state_def
        nth_set_oneshots push_claim_def add_waiter_def waiters_of_def)
qed

lemma dropped_push_releases_key_witness:
  "\<exists>q'. push_drop 0 (demo_after [LPush demo_job, LPush demo_job]) = Some q' \<and>
    queue_state (job_key demo_job) q' = None \<and>
    (\<forall>rx' \<in> set (waiters_of (job_key demo_job) (demo_after [LPush demo_job, LPush demo_job])).
       poll_handle rx' q' = Ready (Err JobLost)) \<and>
    fst (push_claim demo_job q') = PushClaimed (length (oneshots q'))"
  by (rule dropped_push_releases_key [OF demo_queue_init demo_reach]) code_simp

end
