(* ===== verification/SqliteProgress.thy ===== *)
theory SqliteProgress
  imports SqliteStore
begin

text \<open>
  That \<open>SqliteStore\<close> makes progress: on a database whose calls all succeed and a mutex that is not
  poisoned, every operation returns a value.  Together with the characterisation of the tables in
  \<open>SqliteStore\<close> this says what the operation returns, not only what it returns if it does.
\<close>

section \<open>The judgement\<close>

definition smooth :: "sqlite \<Rightarrow> bool" where
  "smooth s \<longleftrightarrow> fates s = [] \<and> \<not> poisoned s"

lemma smooth_eqI: "smooth s \<Longrightarrow> smooth s' \<Longrightarrow> conn_db s' = d \<Longrightarrow> s' = s\<lparr>conn_db := d\<rparr>"
  by (cases s; cases s') (simp add: smooth_def)

definition sq_total :: "db \<Rightarrow> ('a, 'e) sq \<Rightarrow> ('a \<Rightarrow> db \<Rightarrow> bool) \<Rightarrow> bool" where
  "sq_total d m R \<longleftrightarrow>
     (\<forall>s. conn_db s = d \<longrightarrow> smooth s \<longrightarrow>
        (\<exists>a s'. m s = (Ok a, s') \<and> R a (conn_db s') \<and> smooth s'))"

lemma sq_totalD:
  "sq_total (conn_db s) m R \<Longrightarrow> smooth s \<Longrightarrow> \<exists>a s'. m s = (Ok a, s') \<and> R a (conn_db s') \<and> smooth s'"
  by (simp add: sq_total_def)

lemma total_return: "R a d \<Longrightarrow> sq_total d (sq_return a) R"
  by (simp add: sq_total_def sq_return_def)

lemma total_bind:
  assumes m: "sq_total d m R'" and f: "\<And>a d'. R' a d' \<Longrightarrow> sq_total d' (f a) R"
  shows "sq_total d (sq_bind m f) R"
  unfolding sq_total_def
proof (intro allI impI)
  fix s
  assume "conn_db s = d" "smooth s"
  with m obtain a s1 where 1: "m s = (Ok a, s1)" "R' a (conn_db s1)" "smooth s1"
    by (auto simp: sq_total_def)
  from sq_totalD [OF f [OF 1(2)] 1(3)]
  show "\<exists>a s'. sq_bind m f s = (Ok a, s') \<and> R a (conn_db s') \<and> smooth s'"
    by (simp add: sq_bind_def 1(1))
qed

lemma total_backend: "sq_total d m R \<Longrightarrow> sq_total d (backend m) R"
  unfolding sq_total_def backend_def by (fastforce split: prod.splits)

lemma total_rusqlite: "R (fst (f d)) (snd (f d)) \<Longrightarrow> sq_total d (rusqlite f) R"
  by (simp add: sq_total_def rusqlite_def smooth_def split_def)

lemma total_query: "R (f d) d \<Longrightarrow> sq_total d (query f) R"
  unfolding query_def by (rule total_rusqlite) simp

lemma total_execute: "R () (f d) \<Longrightarrow> sq_total d (execute f) R"
  unfolding execute_def by (rule total_rusqlite) simp

lemma total_bind_return: "sq_total d (k a) R \<Longrightarrow> sq_total d (sq_bind (sq_return a) k) R"
  by (simp add: sq_total_def sq_bind_def sq_return_def)

lemma total_bind_lift: "sq_total d (k a) R \<Longrightarrow> sq_total d (sq_bind (sq_lift (Ok a)) k) R"
  by (simp add: sq_total_def sq_bind_def sq_lift_def)

lemma total_bind_query: "sq_total d (k (f d)) R \<Longrightarrow> sq_total d (sq_bind (query f) k) R"
  by (rule total_bind [where R' = "\<lambda>a d'. d' = d \<and> a = f d"]) (auto intro: total_query)

lemma total_bind_backend_query:
  "sq_total d (k (f d)) R \<Longrightarrow> sq_total d (sq_bind (backend (query f)) k) R"
  by (rule total_bind [where R' = "\<lambda>a d'. d' = d \<and> a = f d"]) (auto intro: total_backend total_query)

lemma total_bind_execute: "sq_total (f d) (k ()) R \<Longrightarrow> sq_total d (sq_bind (execute f) k) R"
  by (rule total_bind [where R' = "\<lambda>a d'. d' = f d"]) (auto intro: total_execute)

lemma total_bind_backend_execute:
  "sq_total (f d) (k ()) R \<Longrightarrow> sq_total d (sq_bind (backend (execute f)) k) R"
  by (rule total_bind [where R' = "\<lambda>a d'. d' = f d"]) (auto intro: total_backend total_execute)

lemmas total_rules =
  total_return total_query total_execute total_backend total_bind_return total_bind_lift
  total_bind_query total_bind_backend_query total_bind_execute total_bind_backend_execute

lemma total_transaction: "sq_total d body (\<lambda>_ _. True) \<Longrightarrow> sq_total d (transaction body) (\<lambda>_ _. True)"
  unfolding transaction_def
proof (rule total_bind_backend_query)
  assume body: "sq_total d body (\<lambda>_ _. True)"
  have "sq_total d (sq_bind body (\<lambda>a. sq_bind (backend (query (\<lambda>d. ()))) (\<lambda>_. sq_return a))) (\<lambda>_ _. True)"
    by (rule total_bind [OF body]) (intro total_rules TrueI)
  then show "sq_total d (\<lambda>s.
      case sq_bind body (\<lambda>a. sq_bind (backend (query (\<lambda>d. ()))) (\<lambda>_. sq_return a)) s of
        (Ok a, s') \<Rightarrow> (Ok a, s')
      | (Err e, s') \<Rightarrow> (Err e, s'\<lparr>conn_db := d\<rparr>)
      | (Panic, s') \<Rightarrow> (Panic, s'\<lparr>conn_db := d\<rparr>)) (\<lambda>_ _. True)"
    unfolding sq_total_def by fastforce
qed

lemma total_lock_conn: "sq_total d body R \<Longrightarrow> sq_total d (lock_conn body) R"
  unfolding sq_total_def lock_conn_def by (fastforce simp: smooth_def)

section \<open>The operations\<close>

lemma total_upsert_status:
  "sq_total d (upsert_step_status w i st worker secs nanos out rs a) (\<lambda>_ _. True)"
  unfolding upsert_step_status_def current_attempt_def
  by (rule total_bind [where R' = "\<lambda>_ _. True"])
    (auto intro!: total_rules split: option.splits)

lemma total_projection: "sq_total d (apply_event_projection e) (\<lambda>_ _. True)"
  by (cases e) (auto intro!: total_rules total_upsert_status simp: current_attempt_def)

lemma total_append: "sq_total d (sqlite_append_event e now) (\<lambda>_ _. True)"
  unfolding sqlite_append_event_def Let_def
  by (intro total_lock_conn total_transaction total_bind_backend_execute total_backend total_projection)

lemma total_decode_rows:
  "list_all (\<lambda>p. \<exists>e. p = encode_event e) ps \<Longrightarrow> sq_total d (decode_rows ps) (\<lambda>_ _. True)"
proof (induction ps)
  case Nil
  then show ?case by (simp add: total_return)
next
  case (Cons p ps)
  then show ?case
    by (auto intro!: total_bind_backend_query total_bind_lift total_bind [OF Cons.IH] total_return)
qed

lemma total_load:
  assumes ok: "db_ok d"
  shows "sq_total d (sqlite_load_events w) (\<lambda>_ _. True)"
  unfolding sqlite_load_events_def
  by (intro total_lock_conn total_bind_backend_query total_decode_rows)
    (use event_rows_encode [OF ok] in \<open>auto simp: select_events_def list_all_iff\<close>)

lemma total_load_ts:
  assumes ok: "db_ok d"
  shows "sq_total d (load_events_with_timestamps w) (\<lambda>_ _. True)"
proof -
  have rows: "list_all (\<lambda>p. \<exists>e. fst p = encode_event e) ps \<Longrightarrow>
      sq_total d' (decode_rows_ts ps) (\<lambda>_ _. True)" for ps d'
    by (induction ps arbitrary: d')
      (auto intro!: total_rules total_bind [where R' = "\<lambda>_ _. True"])
  show ?thesis
    unfolding load_events_with_timestamps_def
    by (intro total_lock_conn total_bind_backend_query rows)
      (use event_rows_encode [OF ok] in \<open>auto simp: select_events_def list_all_iff\<close>)
qed

lemma total_claim:
  assumes ok: "db_ok d"
  shows "sq_total d (sqlite_claim_step w i v ttl now) (\<lambda>_ _. True)"
proof -
  have "sq_total d (claim_step_tx w i v ttl now) (\<lambda>_ _. True)"
  proof (cases "select_step w i d")
    case None
    then show ?thesis
      unfolding claim_step_tx_def load_step_row_def
      by (intro total_bind_query) (simp add: Let_def, intro total_rules TrueI)
  next
    case (Some r)
    show ?thesis
    proof (cases "row_status r = ''leased''")
      case True
      obtain h t where "row_worker_id r = Some h" "clock_ok t"
          "row_expires_at_secs r = Some (fst (system_time_parts t))"
          "row_expires_at_nanos r = Some (snd (system_time_parts t))"
        using lease_row_okE [OF select_step_ok [OF ok Some] True] by metis
      with True Some show ?thesis
        unfolding claim_step_tx_def load_step_row_def
        by (intro total_bind_query)
          (auto simp: Let_def from_parts_of_parts intro!: total_rules)
    next
      case False
      with Some show ?thesis
        unfolding claim_step_tx_def load_step_row_def
        by (intro total_bind_query) (auto simp: Let_def intro!: total_rules)
    qed
  qed
  then show ?thesis
    unfolding sqlite_claim_step_def by (intro total_lock_conn total_transaction total_backend)
qed

lemma total_read_leases:
  "\<forall>x \<in> set rows. lease_row_ok (snd x) \<and> row_status (snd x) = ''leased'' \<Longrightarrow>
     sq_total d (read_leases rows) (\<lambda>_ _. True)"
proof (induction rows)
  case Nil
  then show ?case by (simp add: total_return)
next
  case (Cons x rows)
  obtain w i r where x: "x = ((w, i), r)" by (metis prod.exhaust)
  with Cons.prems obtain t where t: "clock_ok t"
      "row_expires_at_secs r = Some (fst (system_time_parts t))"
      "row_expires_at_nanos r = Some (snd (system_time_parts t))"
    using lease_row_okE [of r] by (metis list.set_intros(1) snd_conv)
  have IH: "sq_total d' (read_leases rows) (\<lambda>_ _. True)" if "d' = d" for d'
    using Cons that by simp
  show ?case
    by (simp add: x t from_parts_of_parts)
      (intro total_bind_backend_query total_bind_lift total_bind [OF IH [OF refl]] total_return TrueI)
qed

lemma total_expired:
  assumes ok: "db_ok d"
  shows "sq_total d (sqlite_expired_leases now) (\<lambda>_ _. True)"
  unfolding sqlite_expired_leases_def split_def
  by (intro total_lock_conn total_bind_backend_query total_read_leases)
    (use ok in \<open>auto simp: db_ok_def lease_expired_def\<close>)

lemma total_renew:
  assumes "select_step w i d = Some r" and "row_status r = ''leased''" and "row_worker_id r = Some v"
  shows "sq_total d (sqlite_renew_lease w i v ttl now) (\<lambda>_ _. True)"
  unfolding sqlite_renew_lease_def load_step_row_def
proof (intro total_lock_conn total_transaction total_bind_backend_query)
  have "sq_total d (backend (rusqlite (update_lease w i v (system_time_parts (lease_expiry now ttl)))))
      (\<lambda>n _. n = 1)"
    by (intro total_backend total_rusqlite) (simp add: update_lease_def assms)
  then show "sq_total d (case select_step w i d of
        None \<Rightarrow> sq_fail NotFound
      | Some r \<Rightarrow>
          if row_status r \<noteq> ''leased'' \<or> row_worker_id r \<noteq> Some v
          then sq_fail (Backend ''lease not held by worker'')
          else sq_bind (backend (rusqlite (update_lease w i v (system_time_parts (lease_expiry now ttl)))))
            (\<lambda>updated. if updated = 0 then sq_fail (Backend ''lease not held by worker'') else sq_return ()))
      (\<lambda>_ _. True)"
    by (simp add: assms) (rule total_bind, assumption, simp add: total_return)
qed

end
