(* ===== verification/StoreProperties.thy ===== *)
theory StoreProperties
  imports StepsProjection SqliteProgress MemStores
begin

text \<open>
  The properties of the stores: of \<open>SqliteStore\<close> under any failures of its \<open>rusqlite\<close> calls, of its
  encodings, and of the in-memory store of the recovery tests beside it.
\<close>

section \<open>A concrete store\<close>

definition demo_ttl :: duration where
  "demo_ttl = Duration 1 0"

definition demo_store :: sqlite where
  "demo_store = \<lparr>conn_db = migrated empty_db, poisoned = False, fates = []\<rparr>"

definition demo_claimed :: sqlite where
  "demo_claimed = snd (sqlite_claim_step ''wf'' 0 ''a'' demo_ttl 0 demo_store)"

definition demo_started :: sqlite where
  "demo_started = snd (sqlite_append_event (StepStarted ''wf'' 0 0) 1 demo_claimed)"

lemma demo_store_opened: "opened demo_store"
proof -
  have "sqlite_new \<lparr>conn_db = empty_db, poisoned = False, fates = []\<rparr> = (Ok (), demo_store)"
    unfolding demo_store_def by code_simp
  then show ?thesis by (auto simp: opened_def)
qed

lemma demo_store_inv: "sqlite_inv demo_store"
  using projection_inv_opened [OF demo_store_opened] by (simp add: projection_inv_def)

lemma demo_time [simp]: "clock_ok 0" "clock_ok 1" "clock_ok 7" "clock_ok 2000000000"
  by (simp_all add: clock_ok_def system_time_ok_def)

lemma demo_expiry: "lease_expiry 0 demo_ttl = 1000000000"
  by (simp add: lease_expiry_def demo_ttl_def system_time_checked_add_def nanos_of_def system_time_ok_def)

lemma demo_claim: "sqlite_claim_step ''wf'' 0 ''a'' demo_ttl 0 demo_store = (Ok Claimed, demo_claimed)"
proof -
  have "smooth demo_store" by (simp add: smooth_def demo_store_def)
  from sq_totalD [OF total_claim this] demo_store_inv obtain c s where
    run: "sqlite_claim_step ''wf'' 0 ''a'' demo_ttl 0 demo_store = (Ok c, s)"
    by (fastforce simp: sqlite_inv_def)
  have "sqlite_lease ''wf'' 0 demo_store = Unclaimed"
    by (simp add: sqlite_lease_def lease_of_def demo_store_def migrated_fields)
      (simp add: select_step_def empty_db_def)
  with sq.claim_lease [OF demo_store_inv, of 0 "''wf''" 0 "''a''" demo_ttl c s] run
  show ?thesis by (simp add: demo_claimed_def)
qed

lemma demo_claimed_inv: "sqlite_inv demo_claimed"
  using sq.claim_law [OF demo_store_inv, of 0 "''wf''" 0 "''a''"] demo_claim by simp

lemma demo_claimed_lease: "sqlite_lease ''wf'' 0 demo_claimed = Held ''a'' 1000000000"
  using sq.claim_lease [OF demo_store_inv, of 0 "''wf''" 0 "''a''"] demo_claim by (simp add: demo_expiry)

lemma demo_smooth: "smooth demo_store" "smooth demo_claimed" "smooth demo_started"
proof -
  show 1: "smooth demo_store" by (simp add: smooth_def demo_store_def)
  have db: "db_ok (conn_db demo_store)" using demo_store_inv by (simp add: sqlite_inv_def)
  have "\<exists>a s'. sqlite_claim_step ''wf'' 0 ''a'' demo_ttl 0 demo_store = (Ok a, s') \<and> True \<and> smooth s'"
    by (rule sq_totalD [OF total_claim [OF db] 1])
  then show 2: "smooth demo_claimed" by (simp add: demo_claim)
  from sq_totalD [OF total_append 2] show "smooth demo_started"
    unfolding demo_started_def by (metis snd_conv)
qed

lemma demo_start: "sqlite_append_event (StepStarted ''wf'' 0 0) 1 demo_claimed = (Ok (), demo_started)"
  using sq_totalD [OF total_append demo_smooth(2), of "StepStarted ''wf'' 0 0" 1]
  by (auto simp: demo_started_def)

lemma demo_started_inv: "sqlite_inv demo_started"
  using sq.append_law [OF demo_claimed_inv] demo_start by simp

lemma demo_started_lease: "sqlite_lease ''wf'' 0 demo_started = Held ''a'' 1000000000"
  using sq.started_lease [OF demo_claimed_inv] demo_start demo_claimed_lease by simp

section \<open>Appending and reading back\<close>

text \<open>
  C6: \<open>append_event\<close> is all or nothing under every failure of the calls to SQLite: it returns \<open>Ok\<close>
  and the event row and the projected step row are both there, or it returns an error and both tables
  are as before; it never panics.
\<close>

lemma append_all_or_nothing:
  "case sqlite_append_event e now s of
     (Ok u, s') \<Rightarrow>
       conn_db s' = projected e
         (insert_event (event_workflow_id e) (encode_event e) (ts_millis_of now) (conn_db s))
   | (Err x, s') \<Rightarrow> conn_db s' = conn_db s
   | (Panic, s') \<Rightarrow> False"
proof -
  obtain r s' where run: "sqlite_append_event e now s = (r, s')" by (cases "sqlite_append_event e now s")
  from sq_runsD [OF runs_append run] run show ?thesis by (cases r) (simp_all add: appended_def)
qed

text \<open>
  C29: What \<open>load_events_with_timestamps\<close> and \<open>load_events\<close> read after an append is what they read
  before, followed by the event and its time if the append succeeded and was for this workflow.
\<close>

lemma load_after_append:
  assumes "sqlite_inv s" and "sqlite_append_event e now s = (r, s1)"
    and "load_events_with_timestamps w s1 = (Ok es, s2)" and "sqlite_load_events w s1 = (Ok es', s3)"
  shows "es = timed_log w (conn_db s) @
      (if r = Ok () \<and> event_workflow_id e = w then [(e, ts_millis_of now)] else []) \<and> es' = map fst es"
proof -
  have ok: "db_ok (conn_db s1)"
    using sq.append_law [OF assms(1), of e now r s1] assms(2) by (simp add: sqlite_inv_def)
  from sq_runsD [OF runs_load_events_with_timestamps [OF ok] assms(3)]
    sq_runsD [OF runs_load_events [OF ok] assms(4)]
  have es: "es = timed_log w (conn_db s1)" "es' = event_log w (conn_db s1)" by simp_all
  have "timed_log w (appended e now (conn_db s)) = timed_log w (conn_db s) @
      (if event_workflow_id e = w then [(e, ts_millis_of now)] else [])"
    by (simp add: timed_log_def appended_def) (simp add: insert_event_def)
  with es(1) sq_runsD [OF runs_append assms(2)]
  have "es = timed_log w (conn_db s) @
      (if r = Ok () \<and> event_workflow_id e = w then [(e, ts_millis_of now)] else [])"
    by (cases r) auto
  moreover have "event_log w d = map fst (timed_log w d)" for d
    by (simp add: event_log_def timed_log_def)
  ultimately show ?thesis using es by simp
qed

lemma load_after_append_witness:
  "\<exists>es es' s2 s3. load_events_with_timestamps ''wf'' demo_started = (Ok es, s2) \<and>
     sqlite_load_events ''wf'' demo_started = (Ok es', s3) \<and>
     es = timed_log ''wf'' (conn_db demo_claimed) @ [(StepStarted ''wf'' 0 0, ts_millis_of 1)] \<and>
     es' = map fst es"
proof -
  have db: "db_ok (conn_db demo_started)" using demo_started_inv by (simp add: sqlite_inv_def)
  obtain es s2 es' s3 where
    "load_events_with_timestamps ''wf'' demo_started = (Ok es, s2)"
    "sqlite_load_events ''wf'' demo_started = (Ok es', s3)"
    using sq_totalD [OF total_load_ts [OF db] demo_smooth(3)] sq_totalD [OF total_load [OF db] demo_smooth(3)]
    by blast
  with load_after_append [OF demo_claimed_inv demo_start this] show ?thesis by auto
qed

section \<open>Leases\<close>

text \<open>
  C16: Claiming decides from what the store knows of the step: a fresh, released or failed step and an
  expired or own lease are \<open>Claimed\<close>, another worker's running lease is \<open>HeldByOther\<close>, a finished
  step is \<open>AlreadyCompleted\<close>, a waiting one \<open>AlreadyWaiting\<close>; and exactly a granted claim writes the
  lease, until \<open>now + ttl\<close>, leaving the log and every other step alone.
\<close>

lemma claim_step_decision:
  assumes "sqlite_inv s" and "clock_ok now" and "sqlite_claim_step w i v ttl now s = (Ok c, s')"
  shows "expected_claim v now (sqlite_lease w i s) c \<and>
    (\<forall>w' i'. sqlite_lease w' i' s' =
       (if c = Claimed \<and> w' = w \<and> i' = i then Held v (lease_expiry now ttl) else sqlite_lease w' i' s)) \<and>
    (\<forall>w'. sqlite_log w' s' = sqlite_log w' s)"
  using sq.claim_lease [OF assms(1,2), of w i v ttl c s'] sq.claim_law [OF assms(1,2), of w i v ttl "Ok c" s']
    assms(3) by simp

lemma claim_step_decision_witness:
  "expected_claim ''a'' 0 (sqlite_lease ''wf'' 0 demo_store) Claimed \<and>
    (\<forall>w' i'. sqlite_lease w' i' demo_claimed =
       (if Claimed = Claimed \<and> w' = ''wf'' \<and> i' = 0 then Held ''a'' (lease_expiry 0 demo_ttl)
        else sqlite_lease w' i' demo_store)) \<and>
    (\<forall>w'. sqlite_log w' demo_claimed = sqlite_log w' demo_store)"
  by (rule claim_step_decision [OF demo_store_inv _ demo_claim]) simp






lemma expired_listing:
  assumes "sqlite_inv s" and "clock_ok now" and "sqlite_expired_leases now s = (Ok xs, s')"
  shows "conn_db s' = conn_db s \<and>
    distinct (map (\<lambda>x. (exec_workflow_id x, exec_step_index x)) xs) \<and>
    (\<forall>w i. (\<exists>x \<in> set xs. exec_workflow_id x = w \<and> exec_step_index x = i) \<longleftrightarrow>
       (\<exists>h t. sqlite_lease w i s = Held h t \<and> t \<le> now)) \<and>
    list_all (\<lambda>x. exec_attempt x = i64_as_u32 (attempt_of (exec_workflow_id x) (exec_step_index x) (conn_db s))) xs"
proof -
  have ok: "db_ok (conn_db s)" using assms(1) by (simp add: sqlite_inv_def)
  from sq_runsD [OF runs_expired_leases [OF ok] assms(3)]
  have xs: "xs = map execution_of
      (filter (\<lambda>x. lease_expired (system_time_parts now) (snd x)) (steps_rows (conn_db s)))"
    and same: "conn_db s' = conn_db s" by simp_all
  have key: "(exec_workflow_id (execution_of x), exec_step_index (execution_of x)) =
      (fst (fst x), i64_as_u64 (snd (fst x)))" for x by (simp add: execution_of_def)
  have "inj_on (\<lambda>k. (fst k, i64_as_u64 (snd k))) (fst ` set (steps_rows (conn_db s)))"
  proof (rule inj_onI)
    fix k k' :: step_key
    assume "k \<in> fst ` set (steps_rows (conn_db s))" "k' \<in> fst ` set (steps_rows (conn_db s))"
    then obtain i i' where "snd k = u64_as_i64 i" "snd k' = u64_as_i64 i'"
      using ok by (fastforce simp: db_ok_def)
    then show "(fst k, i64_as_u64 (snd k)) = (fst k', i64_as_u64 (snd k')) \<Longrightarrow> k = k'"
      by (simp add: prod_eq_iff)
  qed
  moreover have "distinct (map fst (steps_rows (conn_db s)))" using ok by (simp add: db_ok_def)
  ultimately have "distinct (map (\<lambda>k. (fst k, i64_as_u64 (snd k))) (map fst (steps_rows (conn_db s))))"
    by (simp only: distinct_map set_map)
  then have dist: "distinct (map (\<lambda>x. (exec_workflow_id x, exec_step_index x)) xs)"
    unfolding xs by (simp add: comp_def key distinct_map_filter)
  have "\<forall>x \<in> set xs. exec_attempt x = i64_as_u32 (attempt_of (exec_workflow_id x) (exec_step_index x) (conn_db s))"
  proof
    fix x assume "x \<in> set xs"
    then obtain y where y: "y \<in> set (steps_rows (conn_db s))" "x = execution_of y" by (auto simp: xs)
    with set_steps_rows [OF ok] obtain w i where "fst y = (w, u64_as_i64 i)"
      "select_step w i (conn_db s) = Some (snd y)" by blast
    with y(2) show "exec_attempt x = i64_as_u32 (attempt_of (exec_workflow_id x) (exec_step_index x) (conn_db s))"
      by (simp add: execution_of_def attempt_of_def)
  qed
  with same dist expired_execution_iff [OF ok assms(2)] show ?thesis
    unfolding xs [symmetric] by (auto simp: list_all_iff sqlite_lease_def)
qed

text \<open>
  C30: \<open>expired_leases\<close> lists exactly the steps whose lease has run out, each once, with the attempt
  of its row, and changes nothing.
\<close>

lemma expired_leases_exact:
  assumes "sqlite_inv s" and "clock_ok now" and "sqlite_expired_leases now s = (Ok xs, s')"
  shows "conn_db s' = conn_db s \<and>
    distinct (map (\<lambda>x. (exec_workflow_id x, exec_step_index x)) xs) \<and>
    (\<forall>w i. (\<exists>x \<in> set xs. exec_workflow_id x = w \<and> exec_step_index x = i) \<longleftrightarrow>
       (\<exists>h t. sqlite_lease w i s = Held h t \<and> t \<le> now)) \<and>
    list_all (\<lambda>x. exec_attempt x = i64_as_u32 (attempt_of (exec_workflow_id x) (exec_step_index x) (conn_db s))) xs"
  by (rule expired_listing [OF assms])

lemma expired_leases_exact_witness:
  "\<exists>xs s. sqlite_expired_leases 2000000000 demo_started = (Ok xs, s) \<and>
     (\<exists>x \<in> set xs. exec_workflow_id x = ''wf'' \<and> exec_step_index x = 0)"
proof -
  obtain xs s where run: "sqlite_expired_leases 2000000000 demo_started = (Ok xs, s)"
    using sq_totalD [OF total_expired demo_smooth(3)] demo_started_inv by (fastforce simp: sqlite_inv_def)
  from expired_leases_exact [OF demo_started_inv _ run] run demo_started_lease show ?thesis by auto
qed

section \<open>The steps table against the log\<close>

lemma system_time_from_parts_case:
  "(\<exists>t. system_time_from_parts x y = Ok t) \<or> system_time_from_parts x y = Panic"
  by (auto simp: system_time_from_parts_def Let_def split: option.splits)









section \<open>Encodings and migration\<close>

text \<open>
  C26: Every event is read back from the text it is stored as, whatever characters its fields hold;
  and decoding any text at all returns an event or an error, never a panic.
\<close>

lemma event_codec_roundtrip:
  "decode_event (encode_event e) = Ok e \<and> decode_event payload \<noteq> Panic"
  by (simp add: decode_event_not_Panic)

text \<open>
  A time written into the two integer columns is read back unchanged, and comparing the columns
  the way the SQL of \<open>expired_leases\<close> does compares the times.
\<close>

lemma time_columns_faithful:
  assumes "clock_ok t" and "clock_ok u"
  shows "system_time_from_parts (Some (fst (system_time_parts t))) (Some (snd (system_time_parts t))) = Ok t \<and>
    ((fst (system_time_parts t) < fst (system_time_parts u) \<or>
      fst (system_time_parts t) = fst (system_time_parts u) \<and>
      snd (system_time_parts t) \<le> snd (system_time_parts u)) \<longleftrightarrow> t \<le> u)"
proof
  show "system_time_from_parts (Some (fst (system_time_parts t))) (Some (snd (system_time_parts t))) = Ok t"
    by (rule from_parts_of_parts [OF assms(1)])
  show "(fst (system_time_parts t) < fst (system_time_parts u) \<or>
      fst (system_time_parts t) = fst (system_time_parts u) \<and>
      snd (system_time_parts t) \<le> snd (system_time_parts u)) \<longleftrightarrow> t \<le> u"
    using assms unfolding clock_ok_def by (intro system_time_parts_le_iff) simp_all
qed

lemma time_columns_faithful_witness:
  "system_time_from_parts (Some (fst (system_time_parts 2000000000)))
     (Some (snd (system_time_parts 2000000000))) = (Ok 2000000000 :: (system_time, string) result) \<and>
   \<not> (fst (system_time_parts 2000000000) < fst (system_time_parts 7) \<or>
      fst (system_time_parts 2000000000) = fst (system_time_parts 7) \<and>
      snd (system_time_parts 2000000000) \<le> snd (system_time_parts 7))"
  using time_columns_faithful [of 2000000000 7] by simp

text \<open>
  C38: Opening a database, old or new, leaves it with the \<open>ts_millis\<close> column, all its events and all
  its steps; opening it again changes nothing; and a failure on the way never panics and loses
  neither events nor steps.
\<close>

lemma opening_keeps_data:
  "case sqlite_new s of
     (Ok u, s') \<Rightarrow>
       conn_db s' = migrated (conn_db s) \<and> migrated (conn_db s') = conn_db s' \<and>
       ''ts_millis'' \<in> set (events_columns (conn_db s')) \<and>
       (\<forall>w. event_log w (conn_db s') = event_log w (conn_db s)) \<and>
       steps_rows (conn_db s') = steps_rows (conn_db s)
   | (Err x, s') \<Rightarrow>
       events_rows (conn_db s') = events_rows (conn_db s) \<and> steps_rows (conn_db s') = steps_rows (conn_db s)
   | (Panic, s') \<Rightarrow> False"
proof -
  obtain r s' where run: "sqlite_new s = (r, s')" by (cases "sqlite_new s")
  from sq_runsD [OF runs_new run] run show ?thesis
    by (cases r) (auto simp: migrated_fields create_schema_def)
qed

section \<open>The store of the recovery tests\<close>

text \<open>
  The in-memory store of the recovery tests stands in for \<open>SqliteStore\<close>: where the two know the
  same of every step, they give the same answer to a claim, up to the text of a completed output, and
  know the same of every step afterwards.
\<close>

lemma claim_same_in_both_stores:
  assumes "sqlite_inv s" and "mem_inv m" and "clock_ok now"
    and "\<And>w i. mem_lease w i m = sqlite_lease w i s"
    and "sqlite_claim_step w i v ttl now s = (Ok c, s')" and "mem_claim_step w i v ttl now m = (Ok c', m')"
  shows "(c = c' \<or> (\<exists>out out'. c = AlreadyCompleted out \<and> c' = AlreadyCompleted out')) \<and>
    (\<forall>w' i'. mem_lease w' i' m' = sqlite_lease w' i' s')"
proof -
  have c: "expected_claim v now (sqlite_lease w i s) c" "\<And>w' i'. sqlite_lease w' i' s' =
      (if c = Claimed \<and> w' = w \<and> i' = i then Held v (lease_expiry now ttl) else sqlite_lease w' i' s)"
    using sq.claim_lease [OF assms(1,3), of w i v ttl c s'] assms(5) by simp_all
  have c': "expected_claim v now (mem_lease w i m) c'" "\<And>w' i'. mem_lease w' i' m' =
      (if c' = Claimed \<and> w' = w \<and> i' = i then Held v (lease_expiry now ttl) else mem_lease w' i' m)"
    using mem.claim_lease [OF assms(2,3), of w i v ttl c' m'] assms(6) by simp_all
  have "c = c' \<or> (\<exists>out out'. c = AlreadyCompleted out \<and> c' = AlreadyCompleted out')"
    using c(1) c'(1) assms(4) [of w i] by (cases "sqlite_lease w i s") auto
  moreover from this have "c = Claimed \<longleftrightarrow> c' = Claimed" by auto
  ultimately show ?thesis using c(2) c'(2) assms(4) by simp
qed

lemma claim_same_in_both_stores_witness:
  "\<exists>c' m'. mem_claim_step ''wf'' 0 ''a'' demo_ttl 0 mem_new = (Ok c', m') \<and> c' = Claimed \<and>
     (\<forall>w i. mem_lease w i m' = sqlite_lease w i demo_claimed)"
proof -
  have m: "mem_inv mem_new" by (simp add: mem_inv_def mem_backed_def mem_new_def mem_step_def)
  have same: "mem_lease w i mem_new = sqlite_lease w i demo_store" for w i
    by (simp add: mem_lease_def mem_step_def mem_new_def sqlite_lease_def lease_of_def demo_store_def
        migrated_fields) (simp add: select_step_def empty_db_def)
  obtain c' m' where run: "mem_claim_step ''wf'' 0 ''a'' demo_ttl 0 mem_new = (Ok c', m')"
    using mem_claim_law(3) [OF m] by (metis prod.collapse)
  from claim_same_in_both_stores [OF demo_store_inv m _ same demo_claim run] run show ?thesis by auto
qed

end
