(* ===== verification/EngineRuns.thy ===== *)
theory EngineRuns
  imports EngineSystem QueueProperties StoreProperties
begin

text \<open>
  Concrete runs of the engine over \<open>SqliteStore\<close> and a real queue, evaluated step by step: a
  workflow that completes, one whose step fails, and the races with \<open>cancel\<close>.
\<close>

section \<open>A concrete world\<close>

definition demo_engine :: "sqlite engine" where
  "demo_engine = engine_with sqlite_ops ''w1'' demo_ttl High"

definition demo_step :: step_def where
  "demo_step =
     \<lparr>step_name = ''s'', step_retry_policy = \<lparr>max_attempts = 2, policy_backoff = Fixed (Duration 0 5)\<rparr>,
      step_timeout = None\<rparr>"

definition demo_mount :: running_workflow where
  "demo_mount = \<lparr>running_steps = [demo_step], running_bodies = [7]\<rparr>"

definition demo_world :: "sqlite world" where
  "demo_world = (engine_new demo_queue demo_store 0)\<lparr>in_flight := [''wf'' \<mapsto> demo_mount]\<rparr>"

text \<open>What happens elsewhere: the queue runs the job of the first attempt, and another workflow starts.\<close>

definition demo_schedule :: sched where
  "demo_schedule =
     [[], [EAppend (WorkflowStarted ''other'')], [], [], [EQueue (LRecv 2), EQueue (LSpawn 2), EQueue (LStart 0)],
      [EQueue (LFinish 0 (Ok ''out'')), EQueue (LNotify 0)], [EQueue (LExit 0)]]"

lemma demo_world_ok: "world_ok sqlite_inv demo_world"
  by (simp add: demo_world_def world_ok_def engine_new_def demo_store_inv mounts_ok_def demo_mount_def
      queue_inv_init demo_queue_init)

lemma demo_world_fields [simp]:
  "store demo_world = demo_store" "wall demo_world = 0" "wqueue demo_world = demo_queue"
  "in_flight demo_world = [''wf'' \<mapsto> demo_mount]" "terminal_locked demo_world = False"
  by (simp_all add: demo_world_def)

lemma demo_schedule_quiet: "sched_ok (quiet ''wf'') demo_schedule"
  by (simp add: demo_schedule_def quiet_def)

lemma demo_world_log [simp]: "sqlite_log wid demo_store = []"
  by (rule opened_log [OF demo_store_opened])

lemma end_of_simps [simp]:
  "end_of (Ready (Ok o1)) = Returned o1" "end_of (Ready (Err e)) = Halted (HErr e)"
  "end_of (Ready Panic) = Halted HPanic" "end_of Blocked = Halted HBlocked"
  by (simp_all add: end_of_def)

section \<open>Evaluating a run\<close>

lemma smooth_conn_db [simp]: "smooth (s\<lparr>conn_db := d\<rparr>) = smooth s"
  by (simp add: smooth_def)

lemma eval_append:
  assumes "smooth s"
  shows "sqlite_append_event e now s = (Ok (), s\<lparr>conn_db := appended e now (conn_db s)\<rparr>)"
proof -
  obtain s' where run: "sqlite_append_event e now s = (Ok (), s')" "smooth s'"
    using sq_totalD [OF total_append assms] by fastforce
  with sq_runsD [OF runs_append run(1)] smooth_eqI [OF assms run(2)] show ?thesis by simp
qed

lemma eval_load:
  assumes "smooth s" and ok: "db_ok (conn_db s)"
  shows "sqlite_load_events w s = (Ok (event_log w (conn_db s)), s)"
proof -
  obtain es s' where run: "sqlite_load_events w s = (Ok es, s')" "smooth s'"
    using sq_totalD [OF total_load [OF ok] assms(1)] by fastforce
  with sq_runsD [OF runs_load_events [OF ok] run(1)] smooth_eqI [OF assms(1) run(2)] show ?thesis by simp
qed

lemma eval_claim:
  assumes "smooth s" and ok: "db_ok (conn_db s)" and now: "clock_ok now"
    and "lease_of w i (conn_db s) = Unclaimed"
  shows "sqlite_claim_step w i v ttl now s =
    (Ok Claimed, s\<lparr>conn_db := leased_db w i v ttl now (conn_db s)\<rparr>)"
proof -
  obtain c s' where run: "sqlite_claim_step w i v ttl now s = (Ok c, s')" "smooth s'"
    using sq_totalD [OF total_claim [OF ok] assms(1)] by fastforce
  with sq_runsD [OF runs_claim [OF ok now] run(1)] smooth_eqI [OF assms(1) run(2)] assms(4)
  show ?thesis by simp
qed

lemma eval_queue: "env_run E (map EQueue ls) w = w\<lparr>wqueue := qrun ls (wqueue w)\<rparr>"
  by (induction ls arbitrary: w) (simp_all add: env_run_def)

text \<open>The queue's side: the job of the first attempt is sent, run and answered.\<close>

definition run_job :: job where
  "run_job = new_job (job_key_of ''wf'' 0 0) High 7"

definition claimed_queue :: queue where
  "claimed_queue = snd (push_claim run_job demo_queue)"

definition sent_queue :: queue where
  "sent_queue = (case push_send 0 claimed_queue of Some (acc, q) \<Rightarrow> q | None \<Rightarrow> claimed_queue)"

definition body_labels :: "(string, string) result \<Rightarrow> qlabel list" where
  "body_labels r = [LRecv 2, LSpawn 2, LStart 0, LFinish 0 r, LNotify 0]"

lemma queue_evals:
  "push_claim run_job demo_queue = (PushClaimed 0, claimed_queue)"
  "push_send 0 claimed_queue = Some (Ok (Queued 0), sent_queue)"
  "poll_handle 0 sent_queue = Blocked"
  "poll_handle 0 (qrun (body_labels (Ok ''out'')) sent_queue) = Ready (Ok (OCompleted ''out''))"
  "poll_handle 0 (qrun (body_labels (Err ''bad'')) sent_queue) = Ready (Ok (OFailed ''bad''))"
proof -
  have "fst (push_claim run_job demo_queue) = PushClaimed 0" by code_simp
  then show "push_claim run_job demo_queue = (PushClaimed 0, claimed_queue)"
    unfolding claimed_queue_def by (metis prod.collapse)
  have "map_option fst (push_send 0 claimed_queue) = Some (Ok (Queued 0))" by code_simp
  then show "push_send 0 claimed_queue = Some (Ok (Queued 0), sent_queue)"
    unfolding sent_queue_def by auto
qed code_simp+

text \<open>
  The effect of an atomic action at the head of a schedule, stated of complete calls only, so that
  the simplifier runs a call from its first action on and leaves the rest alone.
\<close>

lemma env_run_simps [simp]: "env_run E [] w = w" "env_run E [a] w = env_act E a w"
  by (simp_all add: env_run_def)

lemma eval_atom:
  "eatom E f [] w = (case f w of (r, w') \<Rightarrow> (Ready r, [], w'))"
  "eatom E f (c # sc) w = (case f (env_run E c w) of (r, w') \<Rightarrow> (Ready r, sc, w'))"
  by (simp_all add: eatom_def ebind_def eyield_def)

lemma eval_lock:
  "with_terminal_lock E m [] w =
     (case m [] (w\<lparr>terminal_locked := True\<rparr>) of (r, sc', w') \<Rightarrow> (r, sc', w'\<lparr>terminal_locked := False\<rparr>))"
  "with_terminal_lock E m (c # sc) w =
     (case m sc ((env_run E c w)\<lparr>terminal_locked := True\<rparr>) of
        (r, sc', w') \<Rightarrow> (r, sc', w'\<lparr>terminal_locked := False\<rparr>))"
  by (simp_all add: with_terminal_lock_def ebind_def eval_atom)

lemma eval_epush:
  "epush E j (c # sc) w =
     (case push wqueue (\<lambda>q w. w\<lparr>wqueue := q\<rparr>) (env_run E) j sc (env_run E c w) of
        (Blocked, sc', w') \<Rightarrow> (Blocked, sc', w')
      | (Ready r, sc', w') \<Rightarrow> (Ready (map_err EnginePush r), sc', w'))"
  by (simp add: epush_def ebind_def eyield_def)

lemmas engine_eval =
  ebind_def eret_def eerr_def eval_atom eval_lock eval_epush store_call_def store_append_def
  store_load_def store_claim_def drop_from_in_flight_def mounted_steps_and_bodies_def
  or_drop_def push_def run_attempt_def await_job_renewing_lease_def job_poll_def
  record_outcome_def eval_append eval_load eval_claim

definition once_step :: step_def where
  "once_step =
     \<lparr>step_name = ''s'', step_retry_policy = \<lparr>max_attempts = 1, policy_backoff = Fixed (Duration 0 5)\<rparr>,
      step_timeout = None\<rparr>"

lemma once_step_simps:
  "step_timeout once_step = None" "max_attempts (step_retry_policy once_step) = 1"
  by (simp_all add: once_step_def)

definition job_schedule :: "(string, string) result \<Rightarrow> sched" where
  "job_schedule r = [[], [], [], map EQueue (body_labels r)]"

lemma demo_engine_simps [simp]:
  "eng_ops demo_engine = sqlite_ops" "eng_worker_id demo_engine = ''w1''"
  "eng_lease_ttl demo_engine = demo_ttl" "eng_priority demo_engine = High"
  by (simp_all add: demo_engine_def engine_with_def)

lemma demo_store_simps [simp]:
  "smooth demo_store" "db_ok (conn_db demo_store)" "lease_of wid i (conn_db demo_store) = Unclaimed"
  "event_log wid (conn_db demo_store) = []"
  using demo_smooth(1) demo_store_inv demo_world_log [of wid]
  by (simp_all add: sqlite_inv_def sqlite_log_def)
   (simp add: lease_of_def demo_store_def migrated_fields, simp add: select_step_def empty_db_def)

lemma lease_of_appended [simp]:
  "lease_of w i (appended (WorkflowStarted w') now d) = lease_of w i d"
  "lease_of w i (appended (WorkflowCancelled w' r) now d) = lease_of w i d"
  "lease_of w i (appended (WorkerRecovered w' i') now d) =
     (if w = w' \<and> i = i' then Unclaimed else lease_of w i d)"
  "lease_of w i (appended (StepFailed w' i' r) now d) =
     (if w = w' \<and> i = i' then Unclaimed else lease_of w i d)"
  "lease_of w i (appended (StepStarted w' i' a) now d) = lease_of w i d"
  "lease_of w i (appended (WorkflowFailed w' r) now d) = lease_of w i d"
  by (simp_all add: lease_of_def appended_def) (simp_all add: plain_row_def)

lemma plain_reasons [simp]:
  "parse_waiting_reason ''bad'' = None" "parse_non_retryable_reason ''bad'' = None"
  by code_simp+

lemmas run_eval =
  engine_eval Let_def run_job_def [symmetric] queue_evals eval_queue once_step_simps
  db_ok_appended db_ok_leased_db is_cancelled_def is_terminal_def

section \<open>Runs\<close>

definition demo_workflow :: workflow where
  "demo_workflow = \<lparr>workflow_id = ''wf'', workflow_steps = [once_step]\<rparr>"

definition run_schedule :: sched where
  "run_schedule = [[], [], [], []] @ job_schedule (Ok ''out'')"

lemma failing_run:
  "\<exists>w. run_step demo_engine ''wf'' 0 once_step 7 0 (job_schedule (Err ''bad'')) demo_world =
       (Ready (Err (EngineWorkflowFailed ''bad'')), [], w) \<and>
     sqlite_log ''wf'' (store w) =
       [StepStarted ''wf'' 0 0, StepFailed ''wf'' 0 ''bad'', WorkflowFailed ''wf'' ''bad'']"
  by (subst run_step.simps) (simp add: run_eval job_schedule_def sqlite_log_def)

text \<open>
  A one-step workflow on a healthy database, whose body the queue runs to an output, is driven to
  the end: \<open>run\<close> returns \<open>Ok\<close> and the log is the four events of a completed workflow.
\<close>

lemma one_step_run_completes:
  "\<exists>w. run demo_engine demo_workflow [7] run_schedule (engine_new demo_queue demo_store 0) =
       (Ready (Ok ()), [], w) \<and>
     sqlite_log ''wf'' (store w) =
       [WorkflowStarted ''wf'', StepStarted ''wf'' 0 0, StepCompleted ''wf'' 0 ''out'', WorkflowCompleted ''wf'']"
  by (simp add: run_def register_workflow_def demo_workflow_def run_schedule_def drive_from_def
      run_eval job_schedule_def sqlite_log_def)
    (subst run_step.simps,
      simp add: run_eval complete_workflow_def workflow_has_terminal_event_def)

text \<open>Another task cancels the workflow between the last failure of its step and the event of its own.\<close>

definition race_schedule :: sched where
  "race_schedule = job_schedule (Err ''bad'') @ [[], [ETerminal (WorkflowCancelled ''wf'' ''stop'')]]"

text \<open>
  C21: A workflow can end with both a cancellation and a failure on its log: \<open>WorkflowFailed\<close> is
  appended without the terminal lock and without looking for a terminal event, so a \<open>cancel\<close> that
  succeeds in between is followed by it.
\<close>

lemma cancelled_and_failed:
  "\<exists>w. run_step demo_engine ''wf'' 0 once_step 7 0 race_schedule demo_world =
       (Ready (Err (EngineWorkflowFailed ''bad'')), [], w) \<and>
     sqlite_log ''wf'' (store w) =
       [StepStarted ''wf'' 0 0, StepFailed ''wf'' 0 ''bad'', WorkflowCancelled ''wf'' ''stop'',
        WorkflowFailed ''wf'' ''bad'']"
  by (subst run_step.simps)
    (simp add: run_eval job_schedule_def race_schedule_def sqlite_log_def terminal_section_def
      workflow_has_terminal_event_def)

text \<open>
  A worker claims step 0 and is lost, the workflow is cancelled, and another worker that has the
  workflow mounted recovers the step after the lease ran out.
\<close>

definition abandoned_db :: db where
  "abandoned_db =
     appended (WorkflowCancelled ''wf'' ''stop'') 1
       (leased_db ''wf'' 0 ''a'' demo_ttl 0 (conn_db demo_store))"

definition abandoned_world :: "sqlite world" where
  "abandoned_world =
     (engine_new demo_queue
        (snd (sqlite_append_event (WorkflowCancelled ''wf'' ''stop'') 1 demo_claimed)) 2000000000)
       \<lparr>in_flight := [''wf'' \<mapsto> \<lparr>running_steps = [once_step], running_bodies = [7]\<rparr>]\<rparr>"

lemma abandoned_store:
  "snd (sqlite_append_event (WorkflowCancelled ''wf'' ''stop'') 1 demo_claimed) =
     demo_store\<lparr>conn_db := abandoned_db\<rparr>"
proof -
  have eq: "demo_claimed = demo_store\<lparr>conn_db := leased_db ''wf'' 0 ''a'' demo_ttl 0 (conn_db demo_store)\<rparr>"
    unfolding demo_claimed_def by (simp add: eval_claim)
  show ?thesis unfolding eq by (simp add: eval_append abandoned_db_def)
qed

lemma eval_expired:
  assumes "smooth s" and ok: "db_ok (conn_db s)"
  shows "sqlite_expired_leases now s =
    (Ok (map execution_of (filter (\<lambda>x. lease_expired (system_time_parts now) (snd x)) (steps_rows (conn_db s)))), s)"
proof -
  obtain xs s' where run: "sqlite_expired_leases now s = (Ok xs, s')" "smooth s'"
    using sq_totalD [OF total_expired [OF ok] assms(1)] by fastforce
  with sq_runsD [OF runs_expired_leases [OF ok] run(1)] smooth_eqI [OF assms(1) run(2)] show ?thesis by simp
qed

lemma abandoned_db_simps:
  "db_ok abandoned_db" "event_log ''wf'' abandoned_db = [WorkflowCancelled ''wf'' ''stop'']"
  "steps_rows abandoned_db =
     [((''wf'', 0), leased_row ''a'' (system_time_parts 1000000000) 0)]"
  by (simp_all add: abandoned_db_def db_ok_appended db_ok_leased_db)
    (simp add: appended_def insert_event_def leased_db_def upsert_step_def demo_store_def migrated_fields
      empty_db_def attempt_of_def select_step_def demo_expiry u64_as_i64_def)

lemma demo_parts:
  "i64_as_u64 0 = 0" "i64_as_u32 0 = 0"
  "system_time_parts 1000000000 = (1, 0)" "system_time_parts 2000000000 = (2, 0)"
  by (simp_all add: system_time_parts_eq system_time_ok_def i64_as_u64_def i64_as_u32_def)

text \<open>
  C22: Recovery does not look for a cancellation: a step whose worker was lost is started again, and
  its body is run, on a workflow that was cancelled in the meantime.
\<close>

lemma recovery_runs_cancelled:
  "\<exists>w. recover demo_engine ([[], [], []] @ job_schedule (Ok ''out'')) abandoned_world = (Ready (Ok 1), [], w) \<and>
     sqlite_log ''wf'' (store w) =
       [WorkflowCancelled ''wf'' ''stop'', WorkerRecovered ''wf'' 0, StepStarted ''wf'' 0 0,
        StepCompleted ''wf'' 0 ''out'']"
  by (simp add: recover_def readmit_after_worker_recovery_def run_and_continue_def abandoned_world_def
      abandoned_store run_eval eval_expired abandoned_db_simps demo_parts lease_expired_def leased_row_def
      execution_of_def job_schedule_def sqlite_log_def)
    (subst run_step.simps,
      simp add: run_eval complete_workflow_def drive_from_def workflow_has_terminal_event_def
        abandoned_db_simps demo_parts)

section \<open>Runs that a comment of the code excludes\<close>

text \<open>
  Two leases have run out; the first step fails for good when it is run again, and \<open>recover\<close> returns
  its error without having looked at the second.
\<close>

definition two_lost_db :: db where
  "two_lost_db =
     leased_db ''wg'' 0 ''a'' demo_ttl 0 (leased_db ''wf'' 0 ''a'' demo_ttl 0 (conn_db demo_store))"

definition two_lost_world :: "sqlite world" where
  "two_lost_world =
     (engine_new demo_queue
        (snd (sqlite_claim_step ''wg'' 0 ''a'' demo_ttl 0 demo_claimed)) 2000000000)
       \<lparr>in_flight := [''wf'' \<mapsto> \<lparr>running_steps = [once_step], running_bodies = [7]\<rparr>,
                     ''wg'' \<mapsto> \<lparr>running_steps = [once_step], running_bodies = [7]\<rparr>]\<rparr>"

lemma two_lost_db_simps:
  "db_ok two_lost_db" "event_log w two_lost_db = []"
  "steps_rows two_lost_db =
     [((''wf'', 0), leased_row ''a'' (system_time_parts 1000000000) 0),
      ((''wg'', 0), leased_row ''a'' (system_time_parts 1000000000) 0)]"
  by (simp_all add: two_lost_db_def db_ok_leased_db)
    (simp add: leased_db_def upsert_step_def demo_store_def migrated_fields
      empty_db_def attempt_of_def select_step_def demo_expiry u64_as_i64_def)

lemma two_lost_lease: "lease_of ''wg'' 0 two_lost_db = Held ''a'' 1000000000"
  by (simp add: two_lost_db_def lease_of_leased_db demo_expiry)

lemma two_lost_store:
  "snd (sqlite_claim_step ''wg'' 0 ''a'' demo_ttl 0 demo_claimed) = demo_store\<lparr>conn_db := two_lost_db\<rparr>"
  unfolding demo_claimed_def by (simp add: eval_claim db_ok_leased_db lease_of_leased_db two_lost_db_def)

lemma recover_stops_at_first_error:
  "\<exists>w. recover demo_engine ([[], [], []] @ job_schedule (Err ''bad'')) two_lost_world =
       (Ready (Err (EngineWorkflowFailed ''bad'')), [], w) \<and>
     sqlite_log ''wf'' (store w) =
       [WorkerRecovered ''wf'' 0, StepStarted ''wf'' 0 0, StepFailed ''wf'' 0 ''bad'', WorkflowFailed ''wf'' ''bad''] \<and>
     sqlite_log ''wg'' (store w) = [] \<and> sqlite_lease ''wg'' 0 (store w) = Held ''a'' 1000000000"
  by (simp add: recover_def readmit_after_worker_recovery_def run_and_continue_def two_lost_world_def
      two_lost_store run_eval eval_expired two_lost_db_simps demo_parts lease_expired_def leased_row_def
      execution_of_def job_schedule_def sqlite_log_def)
    (subst run_step.simps,
      simp add: run_eval two_lost_db_simps demo_parts sqlite_lease_def two_lost_lease lease_of_leased_db)

text \<open>
  The only attempt of a step times out and the workflow fails; its body goes on and succeeds.  The
  workflow is run again: the same attempt number gives the same key, \<open>push\<close> answers with the output of
  the old body, and it is recorded as the step's, while the old failure keeps the workflow closed.
\<close>

definition timed_workflow :: workflow where
  "timed_workflow =
     \<lparr>workflow_id = ''wf'', workflow_steps = [once_step\<lparr>step_timeout := Some (Duration 0 5)\<rparr>]\<rparr>"

definition late_queue :: queue where
  "late_queue = qrun (body_labels (Ok ''late'')) sent_queue"

lemma push_claim_late: "push_claim run_job late_queue = (PushReturn (Cached ''late''), late_queue)"
proof -
  have "fst (push_claim run_job late_queue) = PushReturn (Cached ''late'')" by code_simp
  then show ?thesis
    by (auto simp: push_claim_def Let_def prod_eq_iff split: option.splits state.splits prod.splits)
qed

lemma orphan_outcome_recorded:
  "\<exists>w1 w2. run demo_engine timed_workflow [7] [[], [], [], [], [], [], [], [ETick 5]]
         (engine_new demo_queue demo_store 0) =
       (Ready (Err (EngineWorkflowFailed (timeout_reason (Duration 0 5)))), [], w1) \<and>
     run demo_engine timed_workflow [7] [map EQueue (body_labels (Ok ''late'')), [], [], [], [], [], []] w1 =
       (Ready (Ok ()), [], w2) \<and>
     sqlite_log ''wf'' (store w2) =
       [WorkflowStarted ''wf'', StepStarted ''wf'' 0 0, StepFailed ''wf'' 0 (timeout_reason (Duration 0 5)),
        WorkflowFailed ''wf'' (timeout_reason (Duration 0 5)),
        WorkflowStarted ''wf'', StepStarted ''wf'' 0 0, StepCompleted ''wf'' 0 ''late'']"
  by (simp add: run_def register_workflow_def timed_workflow_def drive_from_def run_eval sqlite_log_def)
    (subst run_step.simps, simp add: run_eval drive_from_def late_queue_def [symmetric] nanos_of_def,
     subst run_step.simps,
     simp add: run_eval push_claim_late complete_workflow_def workflow_has_terminal_event_def)

end
