(* ===== verification/EngineTiming.thy ===== *)
theory EngineTiming
  imports EngineLogic
begin

text \<open>
  The time-dependent waits of the engine: the \<open>select!\<close> loop around a job, the sleep before a
  retry, and the period of the lease renewal.
\<close>

section \<open>Waiting for a job\<close>

text \<open>How a wait for a handle with a deadline may end, as seen in the world it ends in.\<close>

definition await_end ::
    "nat \<Rightarrow> (nat \<times> duration) option \<Rightarrow> (outcome, engine_error) result async \<Rightarrow> 's world \<Rightarrow> bool" where
  "await_end rx deadline r w =
     (case r of
        Ready (Ok oc) \<Rightarrow>
          poll_handle rx (wqueue w) = Ready (Ok oc) \<or>
          (\<exists>at d. deadline = Some (at, d) \<and> at \<le> clock w \<and> oc = OFailed (timeout_reason d) \<and>
             poll_handle rx (wqueue w) = Blocked)
      | Ready (Err e) \<Rightarrow> poll_handle rx (wqueue w) = Ready (Err JobLost) \<and> e = EngineJobLost JobLost
      | Ready Panic \<Rightarrow> True
      | Blocked \<Rightarrow>
          poll_handle rx (wqueue w) = Blocked \<and>
          (case deadline of None \<Rightarrow> True | Some (at, d) \<Rightarrow> clock w < at))"

lemma poll_handle_cases:
  "poll_handle rx q = Blocked \<or> poll_handle rx q = Ready (Err JobLost) \<or>
     (\<exists>oc. poll_handle rx q = Ready (Ok oc))"
  by (auto simp: poll_handle_def split: oneshot.splits)

lemma job_poll_end:
  assumes "job_poll E wid i rx deadline w = (r, w')"
  shows "await_end rx deadline r w'"
  using poll_handle_cases [of rx "wqueue w"] assms
  by (elim disjE exE)
    (auto simp: job_poll_def await_end_def Let_def split: option.splits if_splits prod.splits result.splits)

lemma job_loop_end: "job_loop E wid i rx deadline sc w = (r, sc', w') \<Longrightarrow> await_end rx deadline r w'"
proof (induction sc arbitrary: w)
  case Nil
  then show ?case by (auto split: prod.splits dest: job_poll_end)
next
  case (Cons c cs)
  obtain r1 w1 where 1: "job_poll E wid i rx deadline w = (r1, w1)" by (metis prod.exhaust)
  with Cons show ?case by (cases r1) (auto dest: job_poll_end)
qed

lemma await_job_end:
  assumes "await_job_renewing_lease E wid i rx timeout sc w = (r, sc', w')"
  shows "await_end rx (map_option (\<lambda>t. (clock w + nanos_of t, t)) timeout) r w'"
  using assms unfolding await_job_renewing_lease_def Let_def by (rule job_loop_end)

section \<open>Sleeping\<close>

lemma sleep_end:
  assumes "sleep E d sc w = (r, sc', w')"
  shows "r = Ready (Ok ()) \<and> clock w + nanos_of d \<le> clock w' \<or>
    r = Blocked \<and> sc' = [] \<and> clock w' < clock w + nanos_of d"
proof -
  have "sleep_until E at sc w = (r, sc', w') \<Longrightarrow>
      r = Ready (Ok ()) \<and> at \<le> clock w' \<or> r = Blocked \<and> sc' = [] \<and> clock w' < at" for at w
    by (induction sc arbitrary: w) (auto split: if_splits)
  with assms show ?thesis by (simp add: sleep_def)
qed

section \<open>The renewal period\<close>

lemma nanos_of_renewal_interval:
  assumes "wf_duration ttl"
  shows "nanos_of (renewal_interval ttl) =
    (if nanos_of ttl < 3 then 1000000 else nanos_of ttl div 3)"
proof -
  have le: "nanos_of ttl div 3 \<le> nanos_of duration_max"
    using nanos_of_le_max [OF assms] by linarith
  have div: "duration_div ttl 3 = duration_of_nanos (nanos_of ttl div 3)"
    using duration_div_eq [OF assms, of 3] by simp
  have n: "nanos_of (duration_div ttl 3) = nanos_of ttl div 3"
    using nanos_of_duration_of_nanos [OF le] by (simp add: div)
  have "duration_is_zero (duration_div ttl 3) \<longleftrightarrow> nanos_of (duration_div ttl 3) = 0"
    by (auto simp: duration_is_zero_def nanos_of_def unat_eq_zero)
  moreover have "nanos_of (duration_from_millis 1) = 1000000"
    by (simp add: nanos_of_def duration_from_millis_def)
  ultimately show ?thesis by (simp add: renewal_interval_def Let_def n div_eq_0_iff)
qed

end
