(* ===== verification/EngineProperties.thy ===== *)
theory EngineProperties
  imports EngineRuns EngineTiming
begin

text \<open>
  The properties of the engine over \<open>SqliteStore\<close>, for every schedule of what other tasks do
  between its atomic actions and every failure of the database, with concrete worlds that meet the
  hypotheses.
\<close>

text \<open>From a triple on the log to a statement about the call.\<close>

lemma sqlite_call:
  assumes "ltriple sqlite_inv sqlite_log ok wid p m n x" and "sched_ok ok sc"
    and "world_ok sqlite_inv w" and "p (terminal_locked w) (sqlite_log wid (store w))"
    and "m sc w = (r, sc', w')"
  shows "world_ok sqlite_inv w' \<and>
    ends (\<lambda>a. n a (terminal_locked w') (sqlite_log wid (store w')))
      (\<lambda>h. x h (terminal_locked w') (sqlite_log wid (store w'))) r"
proof -
  have "logged sqlite_inv sqlite_log wid p w" using assms(3,4) by (simp add: logged_def)
  from etripleD [OF assms(1) [unfolded ltriple_def] assms(2) this assms(5)]
  show ?thesis by (cases r rule: call_cases) (simp_all add: logged_def)
qed

lemmas sqlite_call_exact = sqlite_call [where p = "exact L" for L, unfolded exact_def]
lemmas sqlite_call_any = sqlite_call [where p = "\<lambda>_ _. True", OF _ sqlite_eng.sched_ok_all]

lemma lasting_True [simp]: "lasting (\<lambda>_. True)"
  by (simp add: lasting_def)

section \<open>What a step records\<close>

lemma run_step_call:
  assumes "world_ok sqlite_inv w" and "sched_ok (quiet wid) sc"
    and "run_step (engine_with sqlite_ops v ttl prio) wid i step body a sc w = (r, sc', w')"
  shows "world_ok sqlite_inv w' \<and>
    (\<exists>evs. sqlite_log wid (store w') = sqlite_log wid (store w) @ evs \<and>
       step_log wid i (max_attempts (step_retry_policy step))
         (workflow_is_cancelled (sqlite_log wid (store w))) a evs (end_of r))"
  using sqlite_call [OF sqlite_eng.run_step_log [OF refl] assms(2,1) _ assms(3)]
  by (cases r rule: call_cases) (auto simp: exact_def appended_to_def)



text \<open>
  C24: \<open>run_step\<close> starts consecutive attempts, from the one it is called with, and never more than
  \<open>max_attempts\<close> allows (one if that is 0): called at attempt 0 it starts the attempts 0, 1, 2, ...
  below \<open>max_attempts\<close>.
\<close>

lemma run_step_attempts_bounded:
  assumes "world_ok sqlite_inv w" and "sched_ok (quiet wid) sc"
  shows "case run_step (engine_with sqlite_ops v ttl prio) wid i step body a sc w of (r, sc', w') \<Rightarrow>
    \<exists>evs n. sqlite_log wid (store w') = sqlite_log wid (store w) @ evs \<and>
      started_attempts i evs = attempts_from a n \<and>
      n \<le> max 1 (attempts_left (max_attempts (step_retry_policy step)) a)"
proof -
  obtain r sc' w' where run: "run_step (engine_with sqlite_ops v ttl prio) wid i step body a sc w = (r, sc', w')"
    by (metis prod.exhaust)
  from run_step_call [OF assms run] step_log_attempts show ?thesis unfolding run by fastforce
qed

lemma run_step_attempts_bounded_witness:
  "case run_step demo_engine ''wf'' 0 demo_step 7 0 demo_schedule demo_world of (r, sc', w') \<Rightarrow>
    \<exists>n. started_attempts 0 (sqlite_log ''wf'' (store w')) = attempts_from 0 n \<and> n \<le> 2"
  using run_step_attempts_bounded [OF demo_world_ok demo_schedule_quiet, where v = "''w1''" and ttl = demo_ttl
      and prio = High and i = 0 and step = demo_step and body = 7 and a = 0]
  by (auto simp: demo_engine_def demo_step_def attempts_left_def split: prod.splits)

text \<open>
  When \<open>run_step\<close> returns \<open>EngineError::WorkflowFailed\<close>, the log ends with the failure of the
  step and of the workflow, both with the reason it returns.
\<close>

lemma run_step_failure_recorded:
  assumes "world_ok sqlite_inv w" and "sched_ok (quiet wid) sc"
    and "run_step (engine_with sqlite_ops v ttl prio) wid i step body a sc w =
      (Ready (Err (EngineWorkflowFailed reason)), sc', w')"
  shows "\<exists>l. sqlite_log wid (store w') =
    sqlite_log wid (store w) @ l @ [StepFailed wid i reason, WorkflowFailed wid reason]"
  using run_step_call [OF assms] step_log_failed by fastforce

lemma run_step_failure_recorded_witness:
  "\<exists>l w. run_step demo_engine ''wf'' 0 once_step 7 0 (job_schedule (Err ''bad'')) demo_world =
       (Ready (Err (EngineWorkflowFailed ''bad'')), [], w) \<and>
     sqlite_log ''wf'' (store w) = l @ [StepFailed ''wf'' 0 ''bad'', WorkflowFailed ''wf'' ''bad'']"
proof -
  have quiet: "sched_ok (quiet ''wf'') (job_schedule (Err ''bad''))"
    by (simp add: job_schedule_def body_labels_def quiet_def)
  obtain w where run: "run_step demo_engine ''wf'' 0 once_step 7 0 (job_schedule (Err ''bad'')) demo_world =
      (Ready (Err (EngineWorkflowFailed ''bad'')), [], w)"
    using failing_run by blast
  from run_step_failure_recorded [OF demo_world_ok quiet run [unfolded demo_engine_def]]
  obtain l where "sqlite_log ''wf'' (store w) = l @ [StepFailed ''wf'' 0 ''bad'', WorkflowFailed ''wf'' ''bad'']"
    by auto
  with run show ?thesis by blast
qed

text \<open>
  C12: Whatever other tasks do meanwhile, what \<open>run_step\<close> returns is on the log: \<open>Completed\<close> only
  when the step's completion is recorded, \<open>Waiting\<close> only when the step is recorded as waiting or
  the workflow as cancelled; and it never panics.
\<close>

lemma run_step_outcome_recorded:
  assumes "world_ok sqlite_inv w"
  shows "case run_step (engine_with sqlite_ops v ttl prio) wid i step body a sc w of
      (Ready (Ok oc), sc', w') \<Rightarrow> outcome_logged wid i oc (sqlite_log wid (store w'))
    | (Ready (Err e), sc', w') \<Rightarrow> world_ok sqlite_inv w'
    | (Ready Panic, sc', w') \<Rightarrow> False
    | (Blocked, sc', w') \<Rightarrow> world_ok sqlite_inv w'"
proof -
  obtain r sc' w' where run: "run_step (engine_with sqlite_ops v ttl prio) wid i step body a sc w = (r, sc', w')"
    by (metis prod.exhaust)
  from sqlite_call_any [OF sqlite_eng.logs_run_step [OF lasting_True refl] assms _ run] show ?thesis
    unfolding run by (cases r rule: call_cases) auto
qed

lemma run_step_outcome_recorded_witness:
  "case run_step demo_engine ''wf'' 0 demo_step 7 0 demo_schedule demo_world of
      (Ready (Ok oc), sc', w') \<Rightarrow> outcome_logged ''wf'' 0 oc (sqlite_log ''wf'' (store w'))
    | (Ready (Err e), sc', w') \<Rightarrow> world_ok sqlite_inv w'
    | (Ready Panic, sc', w') \<Rightarrow> False
    | (Blocked, sc', w') \<Rightarrow> world_ok sqlite_inv w'"
  unfolding demo_engine_def by (rule run_step_outcome_recorded [OF demo_world_ok])

section \<open>Driving a workflow\<close>

text \<open>
  C3: When \<open>drive_from\<close> returns \<open>Ok\<close>, whatever other tasks did meanwhile, the log tells why: the
  workflow was cancelled, or it stopped at a waiting step after all the steps before it completed, or
  every step from the start index on is completed and the workflow has a terminal event.
\<close>

lemma drive_from_progress:
  assumes "world_ok sqlite_inv w" and "length bodies = length steps"
  shows "case drive_from (engine_with sqlite_ops v ttl prio) wid steps bodies n sc w of
      (Ready (Ok u), sc', w') \<Rightarrow> driven wid [n..<length steps] (sqlite_log wid (store w'))
    | (Ready (Err e), sc', w') \<Rightarrow> world_ok sqlite_inv w'
    | (Ready Panic, sc', w') \<Rightarrow> False
    | (Blocked, sc', w') \<Rightarrow> world_ok sqlite_inv w'"
proof -
  obtain r sc' w' where run: "drive_from (engine_with sqlite_ops v ttl prio) wid steps bodies n sc w = (r, sc', w')"
    by (metis prod.exhaust)
  from sqlite_call_any [OF sqlite_eng.logs_drive_from [OF lasting_True assms(2)] assms(1) _ run]
  show ?thesis unfolding run by (cases r rule: call_cases) auto
qed

lemma drive_from_progress_witness:
  "case drive_from demo_engine ''wf'' [demo_step] [7] 0 demo_schedule demo_world of
      (Ready (Ok u), sc', w') \<Rightarrow> driven ''wf'' [0..<length [demo_step]] (sqlite_log ''wf'' (store w'))
    | (Ready (Err e), sc', w') \<Rightarrow> world_ok sqlite_inv w'
    | (Ready Panic, sc', w') \<Rightarrow> False
    | (Blocked, sc', w') \<Rightarrow> world_ok sqlite_inv w'"
  unfolding demo_engine_def by (rule drive_from_progress [OF demo_world_ok]) simp

section \<open>Terminal events\<close>

lemma demo_init: "world_init (engine_new demo_queue demo_store 0)"
  unfolding world_init_def
  by (intro exI [of _ demo_queue] exI [of _ demo_store] exI [of _ "0 :: system_time"])
    (simp add: demo_queue_init demo_store_opened)

definition demo_cancelled :: "sqlite world" where
  "demo_cancelled = snd (snd (cancel demo_engine ''wf'' ''stop'' [] demo_world))"

lemma demo_world_reach: "reach (world_exec demo_engine) (engine_new demo_queue demo_store 0) demo_world"
  by (rule reach_step [OF reach_start, of _ "WAct (EMount ''wf'' demo_mount)"])
    (simp add: demo_world_def demo_mount_def)

lemma demo_cancelled_reach: "reach (world_exec demo_engine) (engine_new demo_queue demo_store 0) demo_cancelled"
  by (rule reach_step [OF demo_world_reach, of "WCall (CallCancel ''wf'' ''stop'') []"])
    (simp add: demo_cancelled_def)

text \<open>
  C9: In every state the engine reaches from a fresh queue and an empty database, by any calls and
  any actions of other tasks, a workflow has at most one \<open>WorkflowCompleted\<close> or \<open>WorkflowCancelled\<close>
  event, so it is never both completed and cancelled.
\<close>

lemma completed_or_cancelled_once:
  assumes "world_init w0" and "reach (world_exec (engine_with sqlite_ops v ttl prio)) w0 w"
  shows "length (filter locked_event (sqlite_log wid (store w))) \<le> 1"
  using engine_sys.reach_inv [OF assms] by (simp add: closed_once_def locked_count_def)

lemma completed_or_cancelled_once_witness:
  "length (filter locked_event (sqlite_log ''wf'' (store demo_cancelled))) \<le> 1"
  by (rule completed_or_cancelled_once [OF demo_init demo_cancelled_reach [unfolded demo_engine_def]])

text \<open>
  C19: From every such state every call of the engine, on every schedule, returns without a panic (or
  waits), and leaves the store, the mounted workflows and the queue in order.
\<close>

lemma calls_never_panic:
  assumes "world_init w0" and "reach (world_exec (engine_with sqlite_ops v ttl prio)) w0 w"
  shows "case perform (engine_with sqlite_ops v ttl prio) c sc w of (r, sc', w') \<Rightarrow>
    r \<noteq> Ready Panic \<and> world_ok sqlite_inv w'"
proof -
  have w: "world_ok sqlite_inv w" using engine_sys.reach_inv [OF assms] by (simp add: closed_once_def)
  have "kept (\<lambda>_. True)" by (simp add: kept_def)
  from sqlite_eng.keeps_perform_world [OF this w TrueI] show ?thesis by (auto split: prod.split)
qed

lemma calls_never_panic_witness:
  "case perform demo_engine (CallResume ''wf'' 0 ''in'') [] demo_cancelled of (r, sc', w') \<Rightarrow>
    r \<noteq> Ready Panic \<and> world_ok sqlite_inv w'"
  unfolding demo_engine_def
  by (rule calls_never_panic [OF demo_init demo_cancelled_reach [unfolded demo_engine_def]])

text \<open>
  C18: In every such state the tables hold only what the code can read back: each payload of
  \<open>events\<close> decodes, to an event of the workflow its row names; a step has one row; and a leased row
  names its holder and an expiry that is a representable time.
\<close>

lemma stored_rows_readable:
  assumes "world_init w0" and "reach (world_exec (engine_with sqlite_ops v ttl prio)) w0 w"
  shows "(\<forall>r \<in> set (events_rows (conn_db (store w))).
      \<exists>e. decode_event (ev_payload r) = Ok e \<and> event_workflow_id e = ev_workflow_id r) \<and>
    distinct (map fst (steps_rows (conn_db (store w)))) \<and>
    (\<forall>(k, r) \<in> set (steps_rows (conn_db (store w))). row_status r = ''leased'' \<longrightarrow>
      (\<exists>h t. row_worker_id r = Some h \<and> clock_ok t \<and>
         (system_time_from_parts (row_expires_at_secs r) (row_expires_at_nanos r) ::
            (system_time, store_error) result) = Ok t))"
proof -
  have "db_ok (conn_db (store w))"
    using engine_sys.reach_inv [OF assms] by (simp add: closed_once_def world_ok_def sqlite_inv_def)
  then show ?thesis
    by (fastforce simp: db_ok_def event_row_ok_def lease_row_ok_def from_parts_of_parts)
qed

lemma stored_rows_readable_witness:
  "distinct (map fst (steps_rows (conn_db (store demo_cancelled)))) \<and>
   list_all (\<lambda>r. \<exists>e. decode_event (ev_payload r) = Ok e \<and> event_workflow_id e = ev_workflow_id r)
     (events_rows (conn_db (store demo_cancelled)))"
  using stored_rows_readable [OF demo_init demo_cancelled_reach [unfolded demo_engine_def]]
  unfolding list_all_iff by blast



text \<open>
  C28: A cancelled workflow gets no new step from \<open>drive_from\<close> or \<open>resume\<close>: driving it returns and
  resuming it fails, both without an event; so does resuming a step that is not waiting.
\<close>

lemma cancelled_not_driven_nor_resumed:
  assumes "world_ok sqlite_inv w" and "sched_ok (quiet wid) sc"
    and "workflow_is_cancelled (sqlite_log wid (store w))"
  shows "(case drive_from (engine_with sqlite_ops v ttl prio) wid steps bodies n sc w of (r, sc', w') \<Rightarrow>
      sqlite_log wid (store w') = sqlite_log wid (store w) \<and>
      (r = Ready (Ok ()) \<or> (\<exists>e. r = Ready (Err (EngineStore e))))) \<and>
    (case resume (engine_with sqlite_ops v ttl prio) wid i inp sc w of (r, sc', w') \<Rightarrow>
      sqlite_log wid (store w') = sqlite_log wid (store w) \<and> (\<exists>e. r = Ready (Err (EngineStore e))))"
proof -
  obtain r1 sc1 w1 where 1: "drive_from (engine_with sqlite_ops v ttl prio) wid steps bodies n sc w = (r1, sc1, w1)"
    by (metis prod.exhaust)
  obtain r2 sc2 w2 where 2: "resume (engine_with sqlite_ops v ttl prio) wid i inp sc w = (r2, sc2, w2)"
    by (metis prod.exhaust)
  note drive = sqlite_call [OF sqlite_eng.cancelled_drive_log [OF assms(3)] assms(2,1) _ 1]
  note resume = sqlite_call [OF sqlite_eng.cancelled_resume_log [OF assms(3)] assms(2,1) _ 2]
  show ?thesis
    unfolding 1 2 using drive resume
    by (cases r1 rule: call_cases; cases r2 rule: call_cases) (simp_all add: exact_def)
qed

lemma demo_cancelled_log: "sqlite_log ''wf'' (store demo_cancelled) = [WorkflowCancelled ''wf'' ''stop'']"
  unfolding demo_cancelled_def
  by (simp add: cancel_def engine_eval sqlite_log_def workflow_has_terminal_event_def)

lemma demo_cancelled_ok: "world_ok sqlite_inv demo_cancelled"
  using engine_sys.reach_inv [OF demo_init demo_cancelled_reach [unfolded demo_engine_def]]
  by (simp add: closed_once_def)

lemma cancelled_not_driven_nor_resumed_witness:
  "(case drive_from demo_engine ''wf'' [demo_step] [7] 0 demo_schedule demo_cancelled of (r, sc', w') \<Rightarrow>
      sqlite_log ''wf'' (store w') = sqlite_log ''wf'' (store demo_cancelled) \<and>
      (r = Ready (Ok ()) \<or> (\<exists>e. r = Ready (Err (EngineStore e))))) \<and>
    (case resume demo_engine ''wf'' 0 ''in'' demo_schedule demo_cancelled of (r, sc', w') \<Rightarrow>
      sqlite_log ''wf'' (store w') = sqlite_log ''wf'' (store demo_cancelled) \<and>
      (\<exists>e. r = Ready (Err (EngineStore e))))"
  unfolding demo_engine_def
  by (rule cancelled_not_driven_nor_resumed [OF demo_cancelled_ok demo_schedule_quiet])
    (simp add: demo_cancelled_log is_cancelled_def)

section \<open>Jobs of the engine\<close>

text \<open>
  C35: The queue key \<open>"{workflow}:{step}:{attempt}"\<close> identifies the attempt, whatever characters the
  workflow id has; so in every reachable state at most one job per workflow, step and attempt is
  waiting or running.
\<close>

lemma one_job_per_attempt:
  assumes "world_init w0" and "reach (world_exec (engine_with sqlite_ops v ttl prio)) w0 w"
  shows "(job_key_of wid i a = job_key_of wid' i' a' \<longleftrightarrow> wid = wid' \<and> i = i' \<and> a = a') \<and>
    occurrences (job_key_of wid i a) (waiting_jobs (wqueue w) + running_jobs (wqueue w)) \<le> 1"
proof -
  have "queue_inv (wqueue w)"
    using engine_sys.reach_inv [OF assms] by (simp add: closed_once_def world_ok_def)
  then have "key_inv (abs_queue (wqueue w))" by (simp add: queue_inv_def)
  from key_inv_at_most_one [OF this] show ?thesis by (simp add: job_key_of_inject abs_queue_def)
qed

lemma one_job_per_attempt_witness:
  "(job_key_of ''a:1'' 2 3 = job_key_of ''a'' 1 2 \<longleftrightarrow> ''a:1'' = ''a'' \<and> (2 :: usize) = 1 \<and> (3 :: u32) = 2) \<and>
   occurrences (job_key_of ''a:1'' 2 3) (waiting_jobs (wqueue demo_cancelled) + running_jobs (wqueue demo_cancelled)) \<le> 1"
  by (rule one_job_per_attempt [OF demo_init demo_cancelled_reach [unfolded demo_engine_def]])


text \<open>
  C37: The sleep before a retry ends exactly when the backoff has passed; and the backoff of the
  attempt that failed is the fixed duration, or the base doubled once per earlier failure, saturated
  at the largest \<open>Duration\<close>, and capped by the maximum.
\<close>

lemma retry_waits_backoff:
  assumes "policy_backoff p = Exponential base mx" and "wf_duration base" and "wf_duration mx"
  shows "nanos_of (backoff_duration p n) = min (nanos_of base * 2 ^ unat n) (nanos_of mx) \<and>
    (case sleep E (backoff_duration p n) sc w of (r, sc', w') \<Rightarrow>
       if clock w + nanos_of (backoff_duration p n) \<le> clock w' then r = Ready (Ok ()) else r = Blocked \<and> sc' = [])"
proof
  show "nanos_of (backoff_duration p n) = min (nanos_of base * 2 ^ unat n) (nanos_of mx)"
    using backoff_loop_value [OF assms(2,3), of "unat n"] by (simp add: backoff_duration_def assms(1))
  obtain r sc' w' where run: "sleep E (backoff_duration p n) sc w = (r, sc', w')" by (metis prod.exhaust)
  from sleep_end [OF run] show "case sleep E (backoff_duration p n) sc w of (r, sc', w') \<Rightarrow>
      if clock w + nanos_of (backoff_duration p n) \<le> clock w' then r = Ready (Ok ()) else r = Blocked \<and> sc' = []"
    unfolding run by auto
qed

lemma retry_waits_backoff_witness:
  "nanos_of (backoff_duration \<lparr>max_attempts = 5, policy_backoff = Exponential (Duration 1 0) (Duration 10 0)\<rparr> 3) =
     8000000000"
  using retry_waits_backoff [where p = "\<lparr>max_attempts = 5, policy_backoff = Exponential (Duration 1 0) (Duration 10 0)\<rparr>"
      and base = "Duration 1 0" and mx = "Duration 10 0" and n = 3 and E = demo_engine and sc = "[]" and w = demo_world]
  by (simp add: wf_duration_def nanos_of_def)

section \<open>Recovery\<close>

lemma recover_listing:
  assumes w: "world_ok sqlite_inv w"
    and run: "recover (engine_with sqlite_ops v ttl prio) ([] # sc) w = (r, sc', w')"
  shows "world_ok sqlite_inv w' \<and> r \<noteq> Ready Panic \<and>
    (\<forall>n. r = Ready (Ok n) \<longrightarrow>
       n = of_nat (card {(wid, i). \<exists>h t. sqlite_lease wid i (store w) = Held h t \<and> t \<le> wall w}) \<and>
       (\<forall>wid i h t. sqlite_lease wid i (store w) = Held h t \<longrightarrow> t \<le> wall w \<longrightarrow>
          WorkerRecovered wid i \<in> set (sqlite_log wid (store w'))))"
proof -
  let ?E = "engine_with sqlite_ops v ttl prio"
  have inv: "sqlite_inv (store w)" and now: "clock_ok (wall w)" using w by (simp_all add: world_ok_def)
  obtain rx s where listing: "sqlite_expired_leases (wall w) (store w) = (rx, s)" by (metis prod.exhaust)
  have law: "sqlite_inv s" "rx \<noteq> Panic" using sq.expired_law [OF inv now] listing by simp_all
  then have w1: "world_ok sqlite_inv (w\<lparr>store := s\<rparr>)" using w by (simp add: world_ok_def)
  have eval: "recover ?E ([] # sc) w =
      (case rx of Ok xs \<Rightarrow> recover_each ?E xs 0 sc (w\<lparr>store := s\<rparr>)
       | Err e \<Rightarrow> (Ready (Err (engine_error_from_store e)), sc, w\<lparr>store := s\<rparr>)
       | Panic \<Rightarrow> (Ready Panic, sc, w\<lparr>store := s\<rparr>))"
    using listing
    by (simp add: recover_def store_call_def ebind_def eval_atom engine_with_def split: result.splits)
  show ?thesis
  proof (cases rx)
    case (Ok xs)
    then have rec: "recover_each ?E xs 0 sc (w\<lparr>store := s\<rparr>) = (r, sc', w')" using eval run by simp
    define L where "L = {(wid, i). \<exists>h t. sqlite_lease wid i (store w) = Held h t \<and> t \<le> wall w}"
    note exact = expired_listing [OF inv now listing [unfolded Ok]]
    let ?key = "\<lambda>x. (exec_workflow_id x, exec_step_index x)"
    have iff: "(\<exists>x \<in> set xs. exec_workflow_id x = wid \<and> exec_step_index x = i) \<longleftrightarrow>
        (\<exists>h t. sqlite_lease wid i (store w) = Held h t \<and> t \<le> wall w)" for wid i
      using exact [THEN conjunct2, THEN conjunct2, THEN conjunct1] by blast
    have "p \<in> set (map ?key xs) \<longleftrightarrow> p \<in> L" for p
    proof -
      obtain wid i where p: "p = (wid, i)" by (cases p)
      have "p \<in> set (map ?key xs) \<longleftrightarrow> (\<exists>x \<in> set xs. exec_workflow_id x = wid \<and> exec_step_index x = i)"
        unfolding p by (simp add: image_iff) blast
      then show ?thesis unfolding iff p L_def by simp
    qed
    then have keys: "set (map ?key xs) = L" by blast
    have "card L = length xs"
      using exact [THEN conjunct2, THEN conjunct1] distinct_card [of "map ?key xs"] unfolding keys by simp
    then have len: "length xs = card L" by simp
    have each: "world_ok sqlite_inv w' \<and> r \<noteq> Ready Panic \<and>
        (\<forall>n. r = Ready (Ok n) \<longrightarrow> n = of_nat (length xs) \<and>
           (\<forall>x \<in> set xs. exec_workflow_id x = wid \<longrightarrow>
              WorkerRecovered wid (exec_step_index x) \<in> set (sqlite_log wid (store w'))))" for wid
      using sqlite_call_any [OF sqlite_eng.logs_recover_each [OF lasting_True] w1 _ rec, of wid]
      by (cases r rule: call_cases) auto
    have listed: "\<exists>x \<in> set xs. exec_workflow_id x = wid \<and> exec_step_index x = i"
      if "sqlite_lease wid i (store w) = Held h t" "t \<le> wall w" for wid i h t
      using iff that by blast
    show ?thesis
      unfolding L_def [symmetric] len [symmetric]
    proof (intro conjI allI impI)
      fix n wid i h t
      assume "r = Ready (Ok n)" "sqlite_lease wid i (store w) = Held h t" "t \<le> wall w"
      with each [of wid] listed [of wid i h t] show "WorkerRecovered wid i \<in> set (sqlite_log wid (store w'))"
        by blast
    qed (use each in blast)+
  qed (use law w1 eval run in auto)
qed

text \<open>
  C15: When \<open>recover\<close> returns \<open>Ok\<close>, it has recorded \<open>WorkerRecovered\<close> for every step whose lease had
  run out when it looked, and the number it returns is the number of those steps; whatever happens,
  it does not panic.
\<close>

lemma recover_handles_every_expired_lease:
  assumes "world_ok sqlite_inv w"
  shows "case recover (engine_with sqlite_ops v ttl prio) ([] # sc) w of
      (Ready (Ok n), sc', w') \<Rightarrow>
        n = of_nat (card {(wid, i). \<exists>h t. sqlite_lease wid i (store w) = Held h t \<and> t \<le> wall w}) \<and>
        (\<forall>wid i h t. sqlite_lease wid i (store w) = Held h t \<longrightarrow> t \<le> wall w \<longrightarrow>
           WorkerRecovered wid i \<in> set (sqlite_log wid (store w')))
    | (Ready (Err e), sc', w') \<Rightarrow> world_ok sqlite_inv w'
    | (Ready Panic, sc', w') \<Rightarrow> False
    | (Blocked, sc', w') \<Rightarrow> world_ok sqlite_inv w'"
proof -
  obtain r sc' w' where run: "recover (engine_with sqlite_ops v ttl prio) ([] # sc) w = (r, sc', w')"
    by (metis prod.exhaust)
  from recover_listing [OF assms run] show ?thesis unfolding run by (cases r rule: call_cases) auto
qed

lemma abandoned_world_ok: "world_ok sqlite_inv abandoned_world"
proof -
  have "sqlite_inv (snd (sqlite_append_event (WorkflowCancelled ''wf'' ''stop'') 1 demo_claimed))"
    using sq.append_law [OF demo_claimed_inv, of "WorkflowCancelled ''wf'' ''stop''" 1]
    by (cases "sqlite_append_event (WorkflowCancelled ''wf'' ''stop'') 1 demo_claimed") simp
  then show ?thesis
    by (simp add: abandoned_world_def world_ok_def mounts_ok_def queue_inv_init demo_queue_init)
qed

lemma abandoned_lease: "sqlite_lease ''wf'' 0 (store abandoned_world) = Held ''a'' 1000000000"
  by (simp add: abandoned_world_def abandoned_store sqlite_lease_def abandoned_db_def
      lease_of_leased_db demo_expiry)

lemma recover_handles_every_expired_lease_witness:
  "case recover demo_engine ([] # [[], []] @ job_schedule (Ok ''out'')) abandoned_world of
      (Ready (Ok n), sc', w') \<Rightarrow> WorkerRecovered ''wf'' 0 \<in> set (sqlite_log ''wf'' (store w'))
    | (Ready (Err e), sc', w') \<Rightarrow> world_ok sqlite_inv w'
    | (Ready Panic, sc', w') \<Rightarrow> False
    | (Blocked, sc', w') \<Rightarrow> world_ok sqlite_inv w'"
proof -
  have "wall abandoned_world = 2000000000" by (simp add: abandoned_world_def)
  with recover_handles_every_expired_lease [OF abandoned_world_ok, where v = "''w1''" and ttl = demo_ttl
      and prio = High and sc = "[[], []] @ job_schedule (Ok ''out'')"] abandoned_lease
  show ?thesis
    unfolding demo_engine_def
    by (auto split: prod.splits async.splits result.splits)
      (drule spec [of _ "''wf''"], drule spec [of _ 0], simp)
qed

end
