(* ===== verification/HealthyStore.thy ===== *)
theory HealthyStore
  imports SqliteProgress MemStores
begin

text \<open>
  What a store does when none of its calls fails: an append is accepted and recorded, a load returns
  the log, and a worker is given a step that is free or that it holds itself.
\<close>

text \<open>A step stays claimable for its worker unless the event ends it or lets it wait.\<close>

definition ends_step :: "string \<Rightarrow> usize \<Rightarrow> event \<Rightarrow> bool" where
  "ends_step w i e \<longleftrightarrow> (\<exists>x. e = StepCompleted w i x \<or> e = StepWaiting w i x)"

fun open_to :: "string \<Rightarrow> lease_view \<Rightarrow> bool" where
  "open_to v Unclaimed = True"
| "open_to v (Held h t) = (h = v)"
| "open_to v Done = False"
| "open_to v Suspended = False"

lemma open_to_expected: "open_to v l \<Longrightarrow> expected_claim v now l c \<Longrightarrow> c = Claimed"
  by (cases l) auto

locale healthy_store =
  fixes ops :: "'s durable_ops"
    and healthy :: "'s \<Rightarrow> bool"
    and log :: "string \<Rightarrow> 's \<Rightarrow> event list"
    and claimable :: "string \<Rightarrow> string \<Rightarrow> usize \<Rightarrow> 's \<Rightarrow> bool"
  assumes append_healthy:
      "healthy s \<Longrightarrow> \<exists>s'. append_event ops e now s = (Ok (), s') \<and> healthy s' \<and>
         (\<forall>w. log w s' = log w s @ own_event w e) \<and>
         (\<forall>v w i. claimable v w i s \<longrightarrow> \<not> ends_step w i e \<longrightarrow> claimable v w i s') \<and>
         (\<forall>v w i. e = WorkerRecovered w i \<longrightarrow> claimable v w i s')"
    and load_healthy: "healthy s \<Longrightarrow> load_events ops w s = (Ok (log w s), s)"
    and claim_healthy:
      "healthy s \<Longrightarrow> clock_ok now \<Longrightarrow> claimable v w i s \<Longrightarrow>
         \<exists>s'. claim_step ops w i v ttl now s = (Ok Claimed, s') \<and> healthy s' \<and>
           (\<forall>w. log w s' = log w s) \<and> (\<forall>w i. claimable v w i s \<longrightarrow> claimable v w i s')"
    and expired_healthy: "healthy s \<Longrightarrow> clock_ok now \<Longrightarrow> \<exists>xs. expired_leases ops now s = (Ok xs, s)"

text \<open>
  A store that also takes a step out of waiting when it is resumed; the test store of \<open>recovery.rs\<close>
  does not, none of its tests resumes a step.
\<close>

locale resuming_store = healthy_store +
  assumes resumed_healthy:
    "healthy s \<Longrightarrow> append_event ops (StepResumed w i x) now s = (r, s') \<Longrightarrow> claimable v w i s'"

section \<open>SQLite\<close>

definition sqlite_healthy :: "sqlite \<Rightarrow> bool" where
  "sqlite_healthy s \<longleftrightarrow> smooth s \<and> sqlite_inv s"

definition sqlite_claimable :: "string \<Rightarrow> string \<Rightarrow> usize \<Rightarrow> sqlite \<Rightarrow> bool" where
  "sqlite_claimable v w i s \<longleftrightarrow> open_to v (sqlite_lease w i s)"

lemma append_keeps_open:
  "\<not> ends_step w i e \<Longrightarrow> open_to v (lease_of w i d) \<Longrightarrow> open_to v (lease_of w i (appended e now d))"
  by (cases e) (auto simp: lease_of_def appended_def plain_row_def ends_step_def)

lemma append_opens:
  "e = WorkerRecovered w i \<or> e = StepResumed w i x \<Longrightarrow> open_to v (lease_of w i (appended e now d))"
  by (auto simp: lease_of_def appended_def plain_row_def)

lemma sqlite_healthy_store: "healthy_store sqlite_ops sqlite_healthy sqlite_log sqlite_claimable"
proof (unfold_locales, goal_cases)
  case (1 s e now)
  then have sm: "smooth s" and inv: "sqlite_inv s" by (simp_all add: sqlite_healthy_def)
  obtain s' where run: "sqlite_append_event e now s = (Ok (), s')" "smooth s'"
    using sq_totalD [OF total_append sm] by fastforce
  with sq.append_law [OF inv, of e now "Ok ()" s'] sq_runsD [OF runs_append run(1)] show ?case
    by (auto simp: sqlite_healthy_def sqlite_claimable_def sqlite_lease_def append_keeps_open append_opens)
next
  case (2 s w)
  then have sm: "smooth s" and inv: "sqlite_inv s" by (simp_all add: sqlite_healthy_def)
  then have ok: "db_ok (conn_db s)" by (simp add: sqlite_inv_def)
  obtain es s' where run: "sqlite_load_events w s = (Ok es, s')" "smooth s'"
    using sq_totalD [OF total_load [OF ok] sm] by fastforce
  with sq_runsD [OF runs_load_events [OF ok] run(1)] smooth_eqI [OF sm run(2)] show ?case
    by (simp add: sqlite_log_def)
next
  case (3 s now v w i ttl)
  then have sm: "smooth s" and inv: "sqlite_inv s" and free: "open_to v (sqlite_lease w i s)"
    by (simp_all add: sqlite_healthy_def sqlite_claimable_def)
  then have ok: "db_ok (conn_db s)" by (simp add: sqlite_inv_def)
  obtain c s' where run: "sqlite_claim_step w i v ttl now s = (Ok c, s')" "smooth s'"
    using sq_totalD [OF total_claim [OF ok] sm] by fastforce
  with sq.claim_lease [OF inv 3(2), of w i v ttl c s'] sq.claim_law [OF inv 3(2), of w i v ttl "Ok c" s'] free
  show ?case by (auto dest: open_to_expected simp: sqlite_healthy_def sqlite_claimable_def)
next
  case (4 s now)
  then have sm: "smooth s" and ok: "db_ok (conn_db s)"
    by (simp_all add: sqlite_healthy_def sqlite_inv_def)
  obtain xs s' where run: "sqlite_expired_leases now s = (Ok xs, s')" "smooth s'"
    using sq_totalD [OF total_expired [OF ok] sm] by fastforce
  with sq_runsD [OF runs_expired_leases [OF ok] run(1)] smooth_eqI [OF sm run(2)] show ?case by simp
qed

interpretation sqh: resuming_store sqlite_ops sqlite_healthy sqlite_log sqlite_claimable
proof (rule resuming_store.intro [OF sqlite_healthy_store], unfold_locales)
  fix s w i x now r s' v
  assume s: "sqlite_healthy s" and run: "append_event sqlite_ops (StepResumed w i x) now s = (r, s')"
  then obtain s1 where "sqlite_append_event (StepResumed w i x) now s = (Ok (), s1)"
    using sq_totalD [OF total_append [of "conn_db s" "StepResumed w i x" now]]
    by (auto simp: sqlite_healthy_def)
  with run sq_runsD [OF runs_append this] show "sqlite_claimable v w i s'"
    by (auto simp: sqlite_claimable_def sqlite_lease_def append_opens)
qed

section \<open>The stores of the tests\<close>

definition mem_claimable :: "string \<Rightarrow> string \<Rightarrow> usize \<Rightarrow> mem_store \<Rightarrow> bool" where
  "mem_claimable v w i s \<longleftrightarrow> open_to v (mem_lease w i s)"

lemma mem_keeps_open:
  "\<not> ends_step w i e \<Longrightarrow> open_to v (mem_lease w i s) \<Longrightarrow> open_to v (mem_lease w i (mem_project e s))"
  by (cases e) (auto simp: mem_lease_def ends_step_def split: option.splits step_status.splits)

lemma mem_opens: "open_to v (mem_lease w i (mem_project (WorkerRecovered w i) s))"
  by (auto simp: mem_lease_def split: option.splits)

lemma mem_healthy_store: "healthy_store mem_ops mem_inv mem_log mem_claimable"
proof (unfold_locales, goal_cases)
  case (1 s e now)
  then show ?case
    by (auto simp: mem_append_event_def mem_log_appended mem_inv_appended mem_claimable_def
        simp del: mem_project.simps intro!: mem_keeps_open mem_opens)
next
  case (2 s w)
  then show ?case by (simp add: mem_load_events_def mem_log_def)
next
  case (3 s now v w i ttl)
  obtain r s' where run: "mem_claim_step w i v ttl now s = (r, s')" by fastforce
  with mem_claim_law [OF 3(1) run] 3(3) show ?case
    by (auto dest: open_to_expected simp: mem_claimable_def)
qed (simp add: mem_expired_leases_def)

interpretation memh: healthy_store mem_ops mem_inv mem_log mem_claimable
  by (rule mem_healthy_store)

interpretation logh: resuming_store log_ops "\<lambda>_. True" log_of "\<lambda>_ _ _ _. True"
  by unfold_locales
    (auto simp: log_append_event_def log_load_events_def log_claim_step_def log_expired_leases_def
      log_of_def own_event_def)

end
