(* ===== verification/QueueRound.thy ===== *)
theory QueueRound
  imports QueueProperties
begin

text \<open>
  One execution that nothing disturbs: on a queue whose lanes take jobs, a job with an open key is
  accepted at once, received, spawned and run by its lane, its result reaches the handle, and the
  queue is as before but for that result.  Other jobs may be running meanwhile, for ever if need be.
\<close>

definition lane_idle :: "lane \<Rightarrow> bool" where
  "lane_idle l \<longleftrightarrow>
     lane_open l \<and> lane_buf l = [] \<and> lane_held l = None \<and> 0 < lane_free l \<and>
     0 < unat (capacity (lane_config l))"

definition accepting :: "queue \<Rightarrow> bool" where
  "accepting q \<longleftrightarrow>
     pushes q = [] \<and> list_all (\<lambda>u. task_id u < next_task q) (tasks q) \<and>
     length (lanes q) = priority_count \<and> list_all lane_idle (lanes q)"

text \<open>A key that \<open>push\<close> claims anew: unknown, or its last execution failed and was answered.\<close>

definition key_open :: "key \<Rightarrow> queue \<Rightarrow> bool" where
  "key_open k q \<longleftrightarrow>
     (case statemap q k of None \<Rightarrow> True | Some (SFailed r) \<Rightarrow> True | _ \<Rightarrow> False) \<and> waiters q k = None"

text \<open>What the lane and the task with number \<open>t\<close> do with a job whose body ends with \<open>r\<close>.\<close>

definition job_round :: "priority \<Rightarrow> nat \<Rightarrow> job_result \<Rightarrow> qlabel list" where
  "job_round p t r =
     [LRecv (priority_index p), LSpawn (priority_index p), LStart t, LFinish t r, LNotify t, LExit t]"

text \<open>A job whose body starts and does not end, and the end of a body that has started.\<close>

definition job_hang :: "priority \<Rightarrow> nat \<Rightarrow> qlabel list" where
  "job_hang p t = [LRecv (priority_index p), LSpawn (priority_index p), LStart t]"

definition job_end :: "nat \<Rightarrow> job_result \<Rightarrow> qlabel list" where
  "job_end t r = [LFinish t r, LNotify t, LExit t]"

lemma accepting_lane: "accepting q \<Longrightarrow> lane_idle (lanes q ! priority_index p)"
  by (auto simp: accepting_def list_all_length)

lemma list_all_update: "list_all P xs \<Longrightarrow> P x \<Longrightarrow> list_all P (xs[i := x])"
  by (auto simp: list_all_iff dest!: set_update_subset_insert [THEN subsetD])

text \<open>The queue between the send and the execution, and after it.\<close>

definition sent :: "job \<Rightarrow> queue \<Rightarrow> queue" where
  "sent j q =
     update_lane (priority_index (job_priority j)) (lane_buf_update (\<lambda>b. b @ [j]))
       (q\<lparr>statemap := (statemap q)(job_key j \<mapsto> SPending), oneshots := oneshots q @ [Unresolved],
          waiters := (waiters q)(job_key j \<mapsto> [length (oneshots q)])\<rparr>)"

definition after_job :: "job \<Rightarrow> job_result \<Rightarrow> queue \<Rightarrow> queue" where
  "after_job j r q = qrun (job_round (job_priority j) (next_task q) r) (sent j q)"

definition hung :: "job \<Rightarrow> queue \<Rightarrow> queue" where
  "hung j q = qrun (job_hang (job_priority j) (next_task q)) (sent j q)"

lemma push_sent:
  assumes acc: "accepting q" and new: "key_open (job_key j) q"
  shows "\<exists>q'. push_claim j q = (PushClaimed (length (oneshots q)), q') \<and>
    push_send (length (oneshots q)) q' = Some (Ok (Queued (length (oneshots q))), sent j q)"
proof -
  let ?i = "priority_index (job_priority j)"
  let ?q = "snd (push_claim j q)"
  have idle: "lane_idle (lanes q ! ?i)" and i: "?i < length (lanes q)" and empty: "pushes q = []"
    using accepting_lane [OF acc] acc by (simp_all add: accepting_def)
  have claim: "push_claim j q = (PushClaimed (length (oneshots q)),
      q\<lparr>statemap := (statemap q)(job_key j \<mapsto> SPending), oneshots := oneshots q @ [Unresolved],
        waiters := (waiters q)(job_key j \<mapsto> [length (oneshots q)]), pushes := [(length (oneshots q), j)]\<rparr>)"
    using new by (simp add: push_claim_def key_open_def add_waiter_def waiters_of_def empty
        split: option.splits state.splits)
  have "push_send (length (oneshots q)) ?q = Some (Ok (Queued (length (oneshots q))), sent j q)"
    using idle by (simp add: claim push_send_def Let_def lane_idle_def sent_def remove_push_def
        update_lane_def empty)
  then show ?thesis by (simp add: claim)
qed

lemma push_round:
  assumes "accepting q" and "key_open (job_key j) q"
    and world: "g w = q" "\<And>x y. g (p x y) = x" "\<And>x x' y. p x' (p x y) = p x' y"
  shows "push g p env j sc w = (Ready (Ok (Queued (length (oneshots q)))), sc, p (sent j q) w)"
  using push_sent [OF assms(1,2)] by (cases sc) (auto simp: push_def world)

text \<open>The same as two atomic operations, the way another task sees it.\<close>

lemma push_steps:
  assumes "accepting q" and "key_open (job_key j) q"
  shows "qstep (LSend (length (oneshots q))) (qstep (LPush j) q) = sent j q"
  using push_sent [OF assms] by (auto simp: qstep_def)

lemma sent_blocked [simp]: "poll_handle (length (oneshots q)) (sent j q) = Blocked"
  by (simp add: poll_handle_def sent_def update_lane_def)

section \<open>The execution\<close>

lemma find_new_task:
  "list_all (\<lambda>u. task_id u < n) ts \<Longrightarrow> find (\<lambda>u. task_id u = n) (ts @ [u]) = (if task_id u = n then Some u else None)"
  by (induction ts) auto

lemma map_old_tasks:
  "list_all (\<lambda>u. task_id u < n) ts \<Longrightarrow> map (\<lambda>u. if task_id u = n then f u else u) ts = ts"
  by (induction ts) auto

lemma filter_old_tasks:
  "list_all (\<lambda>u. task_id u < n) ts \<Longrightarrow> filter (\<lambda>u. task_id u \<noteq> n) ts = ts"
  by (induction ts) auto

lemma later_tasks: "list_all (\<lambda>u. task_id u < n) ts \<Longrightarrow> list_all (\<lambda>u. task_id u < Suc n) ts"
  by (auto simp: list_all_iff)

lemmas task_defs = find_task_def set_phase_def find_new_task map_old_tasks filter_old_tasks
lemmas task_steps = qstep_def worker_recv_def worker_spawn_def task_start_def task_finish_def
  task_notify_def task_exit_def

lemma hung_eq:
  fixes j :: job
  assumes acc: "accepting q"
  defines "i \<equiv> priority_index (job_priority j)"
  shows "hung j q = q\<lparr>statemap := (statemap q)(job_key j \<mapsto> SProcessing),
      oneshots := oneshots q @ [Unresolved], waiters := (waiters q)(job_key j \<mapsto> [length (oneshots q)]),
      lanes := (lanes q)[i := (lanes q ! i)\<lparr>lane_buf := [], lane_held := None, lane_free := lane_free (lanes q ! i) - 1\<rparr>],
      tasks := tasks q @ [\<lparr>task_id = next_task q, task_lane = i, task_job = j, task_phase = Running\<rparr>],
      next_task := Suc (next_task q)\<rparr>"
proof -
  have idle: "lane_idle (lanes q ! i)" and i: "i < length (lanes q)"
    using accepting_lane [OF acc] acc by (simp_all add: accepting_def i_def)
  show ?thesis
    using idle i acc unfolding accepting_def
    by (intro queue.equality)
      (simp_all add: hung_def job_hang_def sent_def task_steps task_defs update_lane_def lane_idle_def
        i_def [symmetric])
qed

lemma qrun_append: "qrun (as @ bs) q = qrun bs (qrun as q)"
  by (induction as arbitrary: q) simp_all

lemma after_job_hung: "after_job j r q = qrun (job_end (next_task q) r) (hung j q)"
  by (simp add: after_job_def hung_def job_round_def job_hang_def job_end_def flip: qrun_append)

lemma after_job_eq:
  fixes j :: job
  assumes acc: "accepting q"
  defines "i \<equiv> priority_index (job_priority j)"
  shows "after_job j r q = q\<lparr>statemap := (statemap q)(job_key j \<mapsto> state_of_outcome (guard_outcome r)),
      oneshots := oneshots q @ [Resolved (guard_outcome r)], waiters := (waiters q)(job_key j := None),
      lanes := (lanes q)[i := (lanes q ! i)\<lparr>lane_buf := [], lane_held := None\<rparr>],
      next_task := Suc (next_task q)\<rparr>"
proof -
  have idle: "lane_idle (lanes q ! i)" and i: "i < length (lanes q)"
    using accepting_lane [OF acc] acc by (simp_all add: accepting_def i_def)
  show ?thesis
    using idle i acc unfolding accepting_def
    by (intro queue.equality)
      (simp_all add: after_job_hung job_end_def hung_eq [OF acc] task_steps task_defs update_lane_def lane_idle_def Let_def
        waiters_of_def i_def [symmetric])
qed

lemma after_job_simps [simp]:
  assumes "accepting q"
  shows "accepting (after_job j r q)" and "next_task (after_job j r q) = Suc (next_task q)"
    and "poll_handle (length (oneshots q)) (after_job j r q) = Ready (Ok (guard_outcome r))"
    and "statemap (after_job j r q) = (statemap q)(job_key j \<mapsto> state_of_outcome (guard_outcome r))"
    and "key_open k (after_job j r q) =
      (if k = job_key j then (case r of Ok out \<Rightarrow> False | _ \<Rightarrow> True) else key_open k q)"
proof -
  have idle: "lane_idle (lanes q ! priority_index (job_priority j))"
    using accepting_lane [OF assms] .
  show "accepting (after_job j r q)"
    using assms idle later_tasks [of "next_task q" "tasks q"]
    by (simp add: after_job_eq [OF assms] accepting_def) (auto intro!: list_all_update simp: lane_idle_def)
qed (simp_all add: after_job_eq [OF assms] poll_handle_def key_open_def split: result.splits)

text \<open>A body that hangs keeps its permit; the lane takes jobs as long as another is free.\<close>

lemma hung_simps [simp]:
  assumes "accepting q"
  shows "next_task (hung j q) = Suc (next_task q)"
    and "poll_handle (length (oneshots q)) (hung j q) = Blocked"
    and "k \<noteq> job_key j \<Longrightarrow> key_open k (hung j q) = key_open k q"
    and "1 < lane_free (lanes q ! priority_index (job_priority j)) \<Longrightarrow> accepting (hung j q)"
proof -
  have idle: "lane_idle (lanes q ! priority_index (job_priority j))"
    using accepting_lane [OF assms] .
  show "accepting (hung j q)" if "1 < lane_free (lanes q ! priority_index (job_priority j))"
    using assms idle that later_tasks [of "next_task q" "tasks q"]
    by (simp add: hung_eq [OF assms] accepting_def) (auto intro!: list_all_update simp: lane_idle_def)
qed (simp_all add: hung_eq [OF assms] poll_handle_def key_open_def)

lemma lane_free_simps [simp]:
  assumes "accepting q"
  shows "lane_free (lanes (after_job j r q) ! i) = lane_free (lanes q ! i)"
    and "i = priority_index (job_priority j) \<Longrightarrow>
      lane_free (lanes (hung j q) ! i) = lane_free (lanes q ! i) - 1"
  using assms
  by (simp_all add: after_job_eq [OF assms] hung_eq [OF assms] nth_list_update accepting_def)

text \<open>The queue with default lanes accepts jobs.\<close>

lemma demo_queue_eq:
  "demo_queue = \<lparr>statemap = Map.empty, waiters = Map.empty, oneshots = [],
     lanes = map new_lane builder_default, pushes = [], tasks = [], next_task = 0,
     send_error_text = send_error_display demo_tokio\<rparr>"
  by (simp add: demo_queue_def start_def builder_default_def demo_tokio_def default_lane_config_def
      priority_count_def numeral_eq_Suc)

lemma demo_queue_fields [simp]:
  "statemap demo_queue = Map.empty" "next_task demo_queue = 0" "key_open k demo_queue"
  by (simp_all add: demo_queue_eq key_open_def)

lemma accepting_demo: "accepting demo_queue"
  by (simp add: demo_queue_eq accepting_def builder_default_def new_lane_def default_lane_config_def
      lane_idle_def list_all_iff)


lemma demo_lane_free [simp]: "i < priority_count \<Longrightarrow> lane_free (lanes demo_queue ! i) = 5"
  by (simp add: demo_queue_eq builder_default_def new_lane_def default_lane_config_def)

end
