(* ===== verification/WorkflowReference.thy ===== *)
theory WorkflowReference
  imports EngineModel
begin

text \<open>
  What a run of a workflow comes to, as a function of what its step bodies do: no store, no queue, no
  leases and no clock, only the attempts of each step, the events they leave and how the run ends.  It is
  the reference the engine is compared with in \<open>EngineLiveness\<close>.
\<close>

section \<open>Attempts\<close>

text \<open>What a call of a body comes to: it ends, or it does not within the timeout of its step.\<close>

datatype body_result = Ends job_result | Hangs

type_synonym script = "u32 \<Rightarrow> body_result"

definition attempt_outcome :: "step_def \<Rightarrow> body_result \<Rightarrow> outcome" where
  "attempt_outcome st b =
     (case b of
        Ends r \<Rightarrow> guard_outcome r
      | Hangs \<Rightarrow> OFailed (timeout_reason (the (step_timeout st))))"

datatype verdict = Done string | Waits string | Fails string | Retries string

definition verdict_of :: "step_def \<Rightarrow> script \<Rightarrow> u32 \<Rightarrow> verdict" where
  "verdict_of st body a =
     (case attempt_outcome st (body a) of
        OCompleted out \<Rightarrow> Done out
      | OFailed reason \<Rightarrow>
          (case parse_waiting_reason reason of
             Some r \<Rightarrow> Waits r
           | None \<Rightarrow>
               (case parse_non_retryable_reason reason of
                  Some r \<Rightarrow> Fails r
                | None \<Rightarrow>
                    if a + 1 < max_attempts (step_retry_policy st) then Retries reason else Fails reason)))"

text \<open>The attempts a step makes from attempt \<open>a\<close> on.\<close>

function tried :: "step_def \<Rightarrow> script \<Rightarrow> u32 \<Rightarrow> u32 list" where
  "tried st body a = a # (case verdict_of st body a of Retries r \<Rightarrow> tried st body (a + 1) | _ \<Rightarrow> [])"
  by pat_completeness auto

lemma retries_next: "verdict_of st body a = Retries r \<Longrightarrow> a + 1 < max_attempts (step_retry_policy st)"
  by (simp add: verdict_of_def split: outcome.splits option.splits if_splits)

termination tried
  by (relation "measure (\<lambda>(st, body, a). attempts_left (max_attempts (step_retry_policy st)) a)")
    (auto dest!: retries_next intro: attempts_left_decreases)

declare tried.simps [simp del]

fun attempt_events :: "string \<Rightarrow> usize \<Rightarrow> u32 \<Rightarrow> verdict \<Rightarrow> event list" where
  "attempt_events wid i a (Done out) = [StepStarted wid i a, StepCompleted wid i out]"
| "attempt_events wid i a (Waits r) = [StepStarted wid i a, StepWaiting wid i r]"
| "attempt_events wid i a (Fails r) = [StepStarted wid i a, StepFailed wid i r, WorkflowFailed wid r]"
| "attempt_events wid i a (Retries r) =
     [StepStarted wid i a, StepFailed wid i r, RetryScheduled wid i (a + 1)]"

definition step_events :: "string \<Rightarrow> usize \<Rightarrow> step_def \<Rightarrow> script \<Rightarrow> u32 \<Rightarrow> event list" where
  "step_events wid i st body a =
     concat (map (\<lambda>b. attempt_events wid i b (verdict_of st body b)) (tried st body a))"

definition step_verdict :: "step_def \<Rightarrow> script \<Rightarrow> u32 \<Rightarrow> verdict" where
  "step_verdict st body a = verdict_of st body (last (tried st body a))"

lemma tried_not_Nil [simp]: "tried st body a \<noteq> []"
  by (subst tried.simps) simp

lemma tried_first [simp]: "a \<in> set (tried st body a)"
  by (subst tried.simps) simp

lemma tried_ends: "(\<And>r. verdict_of st body a \<noteq> Retries r) \<Longrightarrow> tried st body a = [a]"
  by (subst tried.simps) (auto split: verdict.split)

lemma tried_retries: "verdict_of st body a = Retries r \<Longrightarrow> tried st body a = a # tried st body (a + 1)"
  by (subst tried.simps) simp

lemma step_ends:
  assumes "\<And>r. verdict_of st body a \<noteq> Retries r"
  shows "step_events wid i st body a = attempt_events wid i a (verdict_of st body a)"
    and "step_verdict st body a = verdict_of st body a"
  by (simp_all add: step_events_def step_verdict_def tried_ends [OF assms])

lemma step_retries:
  assumes "verdict_of st body a = Retries r"
  shows "step_events wid i st body a =
      attempt_events wid i a (Retries r) @ step_events wid i st body (a + 1)"
    and "step_verdict st body a = step_verdict st body (a + 1)"
  by (simp_all add: step_events_def step_verdict_def tried_retries [OF assms] assms)

lemma step_verdict_final: "step_verdict st body a \<noteq> Retries r"
proof (induction st body a rule: tried.induct)
  case (1 st body a)
  then show ?case
    by (cases "verdict_of st body a") (simp_all add: step_ends step_retries)
qed

lemma tried_bound:
  "b \<in> set (tried st body a) \<Longrightarrow>
     attempts_left (max_attempts (step_retry_policy st)) b \<le> attempts_left (max_attempts (step_retry_policy st)) a"
proof (induction st body a rule: tried.induct)
  case (1 st body a)
  show ?case
  proof (cases "\<exists>r. verdict_of st body a = Retries r")
    case True
    then obtain r where r: "verdict_of st body a = Retries r" ..
    with 1 attempts_left_decreases [OF retries_next [OF r]] show ?thesis
      by (auto simp: tried_retries [OF r])
  next
    case False
    with 1(2) show ?thesis by (simp add: tried_ends)
  qed
qed

text \<open>No attempt is made twice, although the number of the attempt wraps.\<close>

lemma tried_later:
  assumes "verdict_of st body a = Retries r"
  shows "a \<notin> set (tried st body (a + 1))"
  using tried_bound attempts_left_decreases [OF retries_next [OF assms]] by fastforce

lemma tried_distinct: "distinct (tried st body a)"
proof (induction st body a rule: tried.induct)
  case (1 st body a)
  then show ?case
    by (cases "verdict_of st body a") (simp_all add: tried_ends tried_retries tried_later)
qed

section \<open>Runs\<close>

datatype run_end = RunCompleted | RunOpen | RunFailed string

fun run_value :: "run_end \<Rightarrow> (unit, engine_error) result" where
  "run_value RunCompleted = Ok ()"
| "run_value RunOpen = Ok ()"
| "run_value (RunFailed r) = Err (EngineWorkflowFailed r)"

text \<open>The steps \<open>sts\<close>, the first of them number \<open>k\<close>, which starts at attempt \<open>a\<close>.\<close>

fun reference ::
    "string \<Rightarrow> (usize \<Rightarrow> script) \<Rightarrow> u32 \<Rightarrow> nat \<Rightarrow> step_def list \<Rightarrow> event list \<times> run_end" where
  "reference wid body a k [] = ([WorkflowCompleted wid], RunCompleted)"
| "reference wid body a k (st # sts) =
     (let evs = step_events wid (of_nat k) st (body (of_nat k)) a in
      case step_verdict st (body (of_nat k)) a of
        Done out \<Rightarrow> (case reference wid body 0 (Suc k) sts of (evs', e) \<Rightarrow> (evs @ evs', e))
      | Waits r \<Rightarrow> (evs, RunOpen)
      | Fails r \<Rightarrow> (evs, RunFailed r)
      | Retries r \<Rightarrow> (evs, RunFailed r))"

text \<open>The calls of bodies this takes, and those of them that hang.\<close>

fun over_steps ::
    "(step_def \<Rightarrow> script \<Rightarrow> u32 \<Rightarrow> nat) \<Rightarrow> (usize \<Rightarrow> script) \<Rightarrow> u32 \<Rightarrow> nat \<Rightarrow> step_def list \<Rightarrow> nat" where
  "over_steps f body a k [] = 0"
| "over_steps f body a k (st # sts) =
     f st (body (of_nat k)) a +
       (case step_verdict st (body (of_nat k)) a of Done out \<Rightarrow> over_steps f body 0 (Suc k) sts | _ \<Rightarrow> 0)"

definition step_calls :: "step_def \<Rightarrow> script \<Rightarrow> u32 \<Rightarrow> nat" where
  "step_calls st body a = length (tried st body a)"

definition step_hangs :: "step_def \<Rightarrow> script \<Rightarrow> u32 \<Rightarrow> nat" where
  "step_hangs st body a = length (filter (\<lambda>b. body b = Hangs) (tried st body a))"

lemma counts_end:
  assumes "\<And>r. verdict_of st body a \<noteq> Retries r"
  shows "step_calls st body a = 1" and "step_hangs st body a = (if body a = Hangs then 1 else 0)"
  by (simp_all add: step_calls_def step_hangs_def tried_ends [OF assms])

lemma counts_retry:
  assumes "verdict_of st body a = Retries r"
  shows "step_calls st body a = Suc (step_calls st body (a + 1))"
    and "step_hangs st body a = (if body a = Hangs then 1 else 0) + step_hangs st body (a + 1)"
  by (simp_all add: step_calls_def step_hangs_def tried_retries [OF assms])

lemma attempt_events_own: "list_all (\<lambda>e. event_workflow_id e = wid) (attempt_events wid i a v)"
  by (cases v) simp_all

lemma step_events_own: "list_all (\<lambda>e. event_workflow_id e = wid) (step_events wid i st body a)"
  using attempt_events_own by (fastforce simp: step_events_def list_all_iff)

lemma reference_own:
  "reference wid body a k sts = (evs, e) \<Longrightarrow> list_all (\<lambda>e. event_workflow_id e = wid) evs"
  using step_events_own
  by (induction sts arbitrary: a k evs)
    (auto simp: Let_def split: verdict.splits prod.splits)

section \<open>Recovery\<close>

text \<open>
  A lost step is run again with the steps after it, if the workflow is mounted and has that step;
  otherwise the workflow stays as it is.  The first workflow that fails ends the recovery.
\<close>

definition rest_of :: "(string \<rightharpoonup> running_workflow) \<Rightarrow> string \<Rightarrow> usize \<Rightarrow> step_def list" where
  "rest_of m wid i = (case m wid of None \<Rightarrow> [] | Some r \<Rightarrow> drop (unat i) (running_steps r))"

definition continued ::
    "string \<Rightarrow> (usize \<Rightarrow> script) \<Rightarrow> u32 \<Rightarrow> nat \<Rightarrow> step_def list \<Rightarrow> event list \<times> run_end" where
  "continued wid body a k sts = (if sts = [] then ([], RunOpen) else reference wid body a k sts)"

type_synonym scripts = "string \<Rightarrow> usize \<Rightarrow> script"

definition continued_step ::
    "(string \<rightharpoonup> running_workflow) \<Rightarrow> scripts \<Rightarrow> execution \<Rightarrow> event list \<times> run_end" where
  "continued_step m body x =
     continued (exec_workflow_id x) (body (exec_workflow_id x)) (exec_attempt x) (unat (exec_step_index x))
       (rest_of m (exec_workflow_id x) (exec_step_index x))"

fun recovery ::
    "(string \<rightharpoonup> running_workflow) \<Rightarrow> scripts \<Rightarrow> execution list \<Rightarrow> usize
     \<Rightarrow> event list \<times> (usize, engine_error) result" where
  "recovery m body [] n = ([], Ok n)"
| "recovery m body (x # xs) n =
     (case continued_step m body x of (evs, e) \<Rightarrow>
        (let evs = WorkerRecovered (exec_workflow_id x) (exec_step_index x) # evs in
         case e of
           RunFailed r \<Rightarrow> (evs, Err (EngineWorkflowFailed r))
         | _ \<Rightarrow> (case recovery m body xs (n + 1) of (evs', r) \<Rightarrow> (evs @ evs', r))))"

fun over_recovery ::
    "(step_def \<Rightarrow> script \<Rightarrow> u32 \<Rightarrow> nat) \<Rightarrow> (string \<rightharpoonup> running_workflow) \<Rightarrow> scripts \<Rightarrow> execution list \<Rightarrow> nat" where
  "over_recovery f m body [] = 0"
| "over_recovery f m body (x # xs) =
     over_steps f (body (exec_workflow_id x)) (exec_attempt x) (unat (exec_step_index x))
       (rest_of m (exec_workflow_id x) (exec_step_index x)) +
     (case snd (continued_step m body x) of RunFailed r \<Rightarrow> 0 | _ \<Rightarrow> over_recovery f m body xs)"

lemma continued_step_own:
  "continued_step m body x = (evs, e) \<Longrightarrow> list_all (\<lambda>e. event_workflow_id e = exec_workflow_id x) evs"
  using reference_own by (auto simp: continued_step_def continued_def split: if_splits)

end
