(* ===== verification/EngineDelivery.thy ===== *)
theory EngineDelivery
  imports EngineSystem HealthyStore QueueRound WorkflowReference
begin

text \<open>
  Running a program to its end on a store whose calls succeed and a queue that accepts jobs: the
  program is run against a schedule that begins with the part it uses up, so that programs compose by
  appending their parts.  The locale \<open>healthy_engine\<close> has one rule per action of the engine.
\<close>

section \<open>Yielding a result\<close>

definition yields ::
    "sched \<Rightarrow> ('a, 's) prog \<Rightarrow> 's world \<Rightarrow> (('a, engine_error) result \<Rightarrow> 's world \<Rightarrow> bool) \<Rightarrow> bool" where
  "yields p m w Q \<longleftrightarrow> (\<forall>sc. \<exists>r w'. m (p @ sc) w = (Ready r, sc, w') \<and> Q r w')"

lemma yieldsD: "yields p m w Q \<Longrightarrow> \<exists>r w'. m (p @ sc) w = (Ready r, sc, w') \<and> Q r w'"
  by (simp add: yields_def)

lemma yields_ret: "Q (Ok a) w \<Longrightarrow> yields [] (eret a) w Q"
  by (simp add: yields_def eret_def)

lemma yields_err: "Q (Err e) w \<Longrightarrow> yields [] (eerr e) w Q"
  by (simp add: yields_def eerr_def)

lemma yields_bind:
  assumes m: "yields p m w Q'"
    and f: "\<And>a w'. Q' (Ok a) w' \<Longrightarrow> yields p' (f a) w' Q"
    and e: "\<And>e w'. Q' (Err e) w' \<Longrightarrow> p' = [] \<and> Q (Err e) w'" and "\<And>w'. \<not> Q' Panic w'"
  shows "yields (p @ p') (ebind m f) w Q"
  unfolding yields_def
proof
  fix sc
  obtain r w' where 1: "m (p @ p' @ sc) w = (Ready r, p' @ sc, w')" "Q' r w'"
    using yieldsD [OF m] by blast
  show "\<exists>r w'. ebind m f ((p @ p') @ sc) w = (Ready r, sc, w') \<and> Q r w'"
  proof (cases r)
    case (Ok a)
    with 1 yieldsD [OF f] show ?thesis by (simp add: ebind_def)
  next
    case (Err e)
    with 1 assms(3) [of e w'] show ?thesis by (simp add: ebind_def)
  qed (use 1 assms(4) in simp)
qed

text \<open>With \<open>or_drop\<close>, an error is returned after the workflow was taken out of the ones in flight.\<close>

lemma yields_or_drop:
  assumes m: "yields p m w Q'"
    and f: "\<And>a w'. Q' (Ok a) w' \<Longrightarrow> yields p' (f a) w' Q"
    and "\<And>e w'. Q' (Err e) w' \<Longrightarrow> p' = [[]] \<and> Q (Err e) (w'\<lparr>in_flight := (in_flight w')(wid := None)\<rparr>)"
    and "\<And>w'. \<not> Q' Panic w'"
  shows "yields (p @ p') (ebind (or_drop E wid m) f) w Q"
  unfolding yields_def
proof
  fix sc
  obtain r w' where 1: "m (p @ p' @ sc) w = (Ready r, p' @ sc, w')" "Q' r w'"
    using yieldsD [OF m] by blast
  show "\<exists>r w'. ebind (or_drop E wid m) f ((p @ p') @ sc) w = (Ready r, sc, w') \<and> Q r w'"
  proof (cases r)
    case (Ok a)
    with 1 yieldsD [OF f] show ?thesis by (simp add: ebind_def or_drop_def)
  next
    case (Err e)
    with 1 assms(3) [of e w'] show ?thesis
      by (simp add: ebind_def or_drop_def drop_from_in_flight_def eatom_def eyield_def env_run_def eerr_def)
  qed (use 1 assms(4) in simp)
qed

lemma ebind_assoc: "ebind (ebind m f) g = ebind m (\<lambda>a. ebind (f a) g)"
  by (intro ext) (simp add: ebind_def split: prod.split async.split result.split)

lemma ebind_eret [simp]: "ebind (eret a) f = f a"
  by (intro ext) (simp add: ebind_def eret_def)

lemma ebind_eerr [simp]: "ebind (eerr e) f = eerr e"
  by (intro ext) (simp add: ebind_def eerr_def)

lemma ebind_eret_right: "ebind m eret = m"
  by (intro ext) (simp add: ebind_def eret_def split: prod.split async.split result.split)

lemma yields_step:
  "(\<And>sc. m (p @ sc) w = m' (p' @ sc) w') \<Longrightarrow> yields p' m' w' Q \<Longrightarrow> yields p m w Q"
  by (simp add: yields_def)

lemma yields_mono: "yields p m w Q \<Longrightarrow> (\<And>r w'. Q r w' \<Longrightarrow> Q' r w') \<Longrightarrow> yields p m w Q'"
  unfolding yields_def by blast

lemma yields_atom:
  "f w = (r, w') \<Longrightarrow> Q r w' \<Longrightarrow> yields [[]] (eatom E f) w Q"
  by (simp add: yields_def eatom_def ebind_def eyield_def env_run_def)

lemma yields_lock:
  assumes "yields p m (w\<lparr>terminal_locked := True\<rparr>) (\<lambda>r w'. Q r (w'\<lparr>terminal_locked := False\<rparr>))"
  shows "yields ([] # p) (with_terminal_lock E m) w Q"
  unfolding yields_def
proof
  fix sc
  from yieldsD [OF assms, of sc]
  show "\<exists>r w'. with_terminal_lock E m (([] # p) @ sc) w = (Ready r, sc, w') \<and> Q r w'"
    by (auto simp: with_terminal_lock_def ebind_def eatom_def eyield_def env_run_def)
qed

section \<open>Schedules\<close>

text \<open>What happens while the engine awaits a body: it ends, or the clock passes the deadline.\<close>

definition body_chunk :: "priority \<Rightarrow> nat \<Rightarrow> step_def \<Rightarrow> body_result \<Rightarrow> env_action list" where
  "body_chunk p t st b =
     (case b of
        Ends r \<Rightarrow> map EQueue (job_round p t r)
      | Hangs \<Rightarrow> map EQueue (job_hang p t) @ [ETick (nanos_of (the (step_timeout st)))])"

definition pause_sched :: "duration \<Rightarrow> sched" where
  "pause_sched d = (if nanos_of d = 0 then [] else [[ETick (nanos_of d)]])"

text \<open>The await of one body, seen from the schedule: the queue moves on, and the outcome is the body's.\<close>

definition body_queue :: "job \<Rightarrow> body_result \<Rightarrow> queue \<Rightarrow> queue" where
  "body_queue j b q = (case b of Ends r \<Rightarrow> after_job j r q | Hangs \<Rightarrow> hung j q)"

definition body_ticks :: "step_def \<Rightarrow> body_result \<Rightarrow> nat" where
  "body_ticks st b = (case b of Ends r \<Rightarrow> 0 | Hangs \<Rightarrow> nanos_of (the (step_timeout st)))"

definition timely :: "step_def \<Rightarrow> body_result \<Rightarrow> bool" where
  "timely st b \<longleftrightarrow> (case step_timeout st of None \<Rightarrow> b \<noteq> Hangs | Some d \<Rightarrow> 0 < nanos_of d)"

section \<open>What a run leaves behind\<close>

definition calm :: "('s \<Rightarrow> bool) \<Rightarrow> 's world \<Rightarrow> bool" where
  "calm healthy w \<longleftrightarrow> healthy (store w) \<and> clock_ok (wall w) \<and> accepting (wqueue w)"

definition permits_left :: "priority \<Rightarrow> queue \<Rightarrow> nat" where
  "permits_left p q = lane_free (lanes q ! priority_index p)"

lemma accepting_permits: "accepting q \<Longrightarrow> 0 < permits_left p q"
  using accepting_lane [of q p] by (simp add: lane_idle_def permits_left_def)

text \<open>
  From \<open>w\<close> to \<open>w'\<close> the events \<open>evs\<close> of the workflow were recorded and none of others, \<open>n\<close> jobs were
  run, \<open>h\<close> of which hang; steps that were free are free, but for those in \<open>I\<close> of the workflow, and keys
  outside \<open>K\<close> are as they were.
\<close>

definition moved ::
    "('s \<Rightarrow> bool) \<Rightarrow> (string \<Rightarrow> 's \<Rightarrow> event list) \<Rightarrow> (string \<Rightarrow> usize \<Rightarrow> 's \<Rightarrow> bool) \<Rightarrow> priority \<Rightarrow> string
     \<Rightarrow> event list \<Rightarrow> usize set \<Rightarrow> nat \<Rightarrow> nat \<Rightarrow> key set \<Rightarrow> 's world \<Rightarrow> 's world \<Rightarrow> bool" where
  "moved healthy log free p wid evs I n h K w w' \<longleftrightarrow>
     calm healthy w' \<and> (\<forall>u. log u (store w') = log u (store w) @ (if u = wid then evs else [])) \<and>
     (\<forall>u i. free u i (store w) \<longrightarrow> (u = wid \<longrightarrow> i \<notin> I) \<longrightarrow> free u i (store w')) \<and>
     next_task (wqueue w') = next_task (wqueue w) + n \<and>
     permits_left p (wqueue w') + h = permits_left p (wqueue w) \<and>
     (\<forall>k. k \<notin> K \<longrightarrow> key_open k (wqueue w') = key_open k (wqueue w)) \<and>
     in_flight w' = in_flight w"

lemma moved_weaken:
  "moved hl log free p wid evs I n h K w w' \<Longrightarrow> I \<subseteq> I' \<Longrightarrow> K \<subseteq> K' \<Longrightarrow> moved hl log free p wid evs I' n h K' w w'"
  unfolding moved_def by blast

lemma moved_calm: "moved hl log free p wid evs I n h K w w' \<Longrightarrow> calm hl w'"
  by (simp add: moved_def)

lemma moved_log: "moved hl log free p wid evs I n h K w w' \<Longrightarrow> log wid (store w') = log wid (store w) @ evs"
  by (simp add: moved_def)

lemma moved_locked [simp]:
  "moved hl log free p wid evs I n h K w (w'\<lparr>terminal_locked := b\<rparr>) \<longleftrightarrow> moved hl log free p wid evs I n h K w w'"
  by (simp add: moved_def calm_def)

section \<open>One rule per action\<close>

locale healthy_engine = healthy_store +
  fixes E :: "'a engine"
  assumes eng_ops: "eng_ops E = ops"
begin

abbreviation mv where
  "mv wid \<equiv> moved healthy log (claimable (eng_worker_id E)) (eng_priority E) wid"

lemma mv_start: "calm healthy w \<Longrightarrow> mv wid [] {} 0 0 {} w w"
  by (simp add: moved_def)

lemma bind_append_exact:
  assumes mv: "mv wid evs I n h K w0 w" and "event_workflow_id e = wid"
    and k: "\<And>w'. append_event ops e (wall w) (store w) = (Ok (), store w') \<Longrightarrow>
      mv wid (evs @ [e]) (I \<union> {i. ends_step wid i e}) n h K w0 w' \<Longrightarrow> yields p (k ()) w' Q"
  shows "yields ([] # p) (ebind (store_append E e) k) w Q"
proof -
  from mv have "healthy (store w)" by (simp add: moved_def calm_def)
  from append_healthy [OF this, of e "wall w"] obtain s where
    s: "append_event ops e (wall w) (store w) = (Ok (), s)" "healthy s"
      "\<forall>u. log u s = log u (store w) @ own_event u e"
      "\<forall>v u i. claimable v u i (store w) \<longrightarrow> \<not> ends_step u i e \<longrightarrow> claimable v u i s" by blast
  have free: "claimable (eng_worker_id E) u i s"
    if "claimable (eng_worker_id E) u i (store w0)" "u = wid \<longrightarrow> i \<notin> I \<and> \<not> ends_step wid i e" for u i
  proof -
    have "claimable (eng_worker_id E) u i (store w)" using mv that by (simp add: moved_def)
    moreover have "\<not> ends_step u i e" using that(2) assms(2) by (auto simp: ends_step_def)
    ultimately show ?thesis using s(4) by blast
  qed
  from s have "append_event ops e (wall w) (store w) = (Ok (), store (w\<lparr>store := s\<rparr>))" by simp
  moreover have "mv wid (evs @ [e]) (I \<union> {i. ends_step wid i e}) n h K w0 (w\<lparr>store := s\<rparr>)"
    using mv s(2,3) free assms(2) by (simp add: moved_def calm_def own_event_def)
  ultimately have "append_event ops e (wall w) (store w) = (Ok (), store (w\<lparr>store := s\<rparr>))"
    "mv wid (evs @ [e]) (I \<union> {i. ends_step wid i e}) n h K w0 (w\<lparr>store := s\<rparr>)" by blast+
  from k [OF this] show ?thesis
    by (rule yields_step [rotated]) (simp add: store_append_def store_call_def eatom_def ebind_def eyield_def
        env_run_def eng_ops s(1))
qed

lemma bind_append:
  assumes "mv wid evs I n h K w0 w" and "event_workflow_id e = wid"
    and "\<And>w'. mv wid (evs @ [e]) (I \<union> {i. ends_step wid i e}) n h K w0 w' \<Longrightarrow> yields p (k ()) w' Q"
  shows "yields ([] # p) (ebind (store_append E e) k) w Q"
  by (rule bind_append_exact [OF assms(1,2)], rule assms(3))

lemma bind_note:
  assumes "mv wid evs I n h K w0 w" and "event_workflow_id e = wid" and "\<And>i. \<not> ends_step wid i e"
    and "\<And>w'. mv wid (evs @ [e]) I n h K w0 w' \<Longrightarrow> yields p (k ()) w' Q"
  shows "yields ([] # p) (ebind (store_append E e) k) w Q"
  by (rule bind_append [OF assms(1,2)], rule assms(4)) (simp add: assms(3))

lemma bind_load:
  assumes mv: "mv wid evs I n h K w0 w" and k: "yields p (k (log wid (store w0) @ evs)) w Q"
  shows "yields ([] # p) (ebind (store_load E wid) k) w Q"
proof -
  from mv have "load_events ops wid (store w) = (Ok (log wid (store w0) @ evs), store w)"
    by (simp add: moved_def calm_def load_healthy)
  then show ?thesis
    by (intro yields_step [OF _ k]) (simp add: store_load_def store_call_def eatom_def ebind_def eyield_def
        env_run_def eng_ops)
qed

lemma bind_claim:
  assumes mv: "mv wid evs I n h K w0 w" and free: "claimable (eng_worker_id E) wid i (store w0)" "i \<notin> I"
    and k: "\<And>w'. mv wid evs I n h K w0 w' \<Longrightarrow> yields p (k Claimed) w' Q"
  shows "yields ([] # p) (ebind (store_claim E wid i) k) w Q"
proof -
  from mv free have w: "healthy (store w)" "clock_ok (wall w)"
    "claimable (eng_worker_id E) wid i (store w)" by (simp_all add: moved_def calm_def)
  from claim_healthy [OF this, of "eng_lease_ttl E"] obtain s where
    s: "claim_step ops wid i (eng_worker_id E) (eng_lease_ttl E) (wall w) (store w) = (Ok Claimed, s)"
      "healthy s" "\<forall>u. log u s = log u (store w)"
      "\<forall>u i. claimable (eng_worker_id E) u i (store w) \<longrightarrow> claimable (eng_worker_id E) u i s" by blast
  then have "mv wid evs I n h K w0 (w\<lparr>store := s\<rparr>)" using mv by (simp add: moved_def calm_def)
  from k [OF this] show ?thesis
    by (rule yields_step [rotated]) (simp add: store_claim_def store_call_def eatom_def ebind_def eyield_def
        env_run_def eng_ops s(1))
qed

lemma run_queue: "env_run E (map EQueue ls @ acts) w = env_run E acts (w\<lparr>wqueue := qrun ls (wqueue w)\<rparr>)"
  by (induction ls arbitrary: w) (simp_all add: env_run_def)

lemma await_body:
  assumes q: "accepting q" and w: "wqueue w = sent j q" and t: "timely st b"
  defines "w' \<equiv> w\<lparr>wqueue := body_queue j b q, renewal_task := None,
      clock := clock w + body_ticks st b\<rparr>"
  shows "await_job_renewing_lease E wid i (length (oneshots q)) (step_timeout st)
      (body_chunk (job_priority j) (next_task q) st b # sc) w = (Ready (Ok (attempt_outcome st b)), sc, w')"
proof (cases b)
  case (Ends r)
  then show ?thesis
    using q w t run_queue [of _ "[]"] unfolding await_job_renewing_lease_def Let_def w'_def
    by (cases "step_timeout st"; cases sc)
      (simp_all add: job_poll_def env_run_def body_queue_def body_chunk_def attempt_outcome_def timely_def
        body_ticks_def after_job_def [symmetric])
next
  case Hangs
  with t obtain d where d: "step_timeout st = Some d" "0 < nanos_of d"
    by (auto simp: timely_def split: option.splits)
  have tick: "env_run E [ETick n] v = v\<lparr>clock := clock v + n\<rparr>" for n and v :: "'a world"
    by (simp add: env_run_def)
  show ?thesis
    using d Hangs q w unfolding await_job_renewing_lease_def Let_def w'_def
    by (cases sc) (simp_all add: job_poll_def run_queue tick body_queue_def body_chunk_def attempt_outcome_def
        body_ticks_def hung_def [symmetric])
qed

lemma body_queue_moves:
  assumes mv: "mv wid evs I n h K w0 w" and "job_priority j = eng_priority E"
    and h: "b = Hangs \<longrightarrow> Suc h < permits_left (eng_priority E) (wqueue w0)"
  shows "mv wid evs I (Suc n) (if b = Hangs then Suc h else h) (insert (job_key j) K) w0
    (w\<lparr>wqueue := body_queue j b (wqueue w), renewal_task := rt, clock := c\<rparr>)"
proof -
  from mv have q: "accepting (wqueue w)" by (simp add: moved_def calm_def)
  have "1 < permits_left (eng_priority E) (wqueue w)" if "b = Hangs" using mv h that by (simp add: moved_def)
  then show ?thesis
    using mv assms(2) q by (cases b) (auto simp: moved_def calm_def body_queue_def permits_left_def)
qed

lemma bind_execute:
  assumes mv: "mv wid evs I n h K w0 w"
    and new: "key_open (job_key j) (wqueue w0)" "job_key j \<notin> K"
    and j: "job_priority j = eng_priority E"
    and b: "timely st b" "b = Hangs \<longrightarrow> Suc h < permits_left (eng_priority E) (wqueue w0)"
    and f: "\<And>rx. f (Queued rx) = ebind (await_job_renewing_lease E wid i rx (step_timeout st)) k"
    and k: "\<And>w'. mv wid evs I (Suc n) (if b = Hangs then Suc h else h) (insert (job_key j) K) w0 w' \<Longrightarrow>
      yields p (k (attempt_outcome st b)) w' Q"
  shows "yields ([] # body_chunk (eng_priority E) (next_task (wqueue w0) + n) st b # p) (ebind (epush E j) f) w Q"
proof -
  let ?q = "wqueue w"
  from mv new have q: "accepting ?q" "key_open (job_key j) ?q"
    "next_task ?q = next_task (wqueue w0) + n" by (simp_all add: moved_def calm_def)
  show ?thesis
  proof (rule yields_step [OF _ k [OF body_queue_moves [OF mv j b(2)]]])
    fix sc
    have "push wqueue (\<lambda>q. wqueue_update (\<lambda>_. q)) (env_run E) j sc' w =
        (Ready (Ok (Queued (length (oneshots ?q)))), sc', w\<lparr>wqueue := sent j ?q\<rparr>)" for sc'
      by (rule push_round [OF q(1,2)]) simp_all
    with await_body [OF q(1) _ b(1), of "w\<lparr>wqueue := sent j ?q\<rparr>" j wid i] q(3) j
    show "ebind (epush E j) f (([] # body_chunk (eng_priority E) (next_task (wqueue w0) + n) st b # p) @ sc) w =
      k (attempt_outcome st b) (p @ sc) (w\<lparr>wqueue := body_queue j b ?q, renewal_task := None,
        clock := clock w + body_ticks st b\<rparr>)"
      by (simp add: epush_def ebind_def eyield_def env_run_def f)
  qed
qed

lemma bind_sleep:
  assumes mv: "mv wid evs I n h K w0 w"
    and k: "\<And>w'. mv wid evs I n h K w0 w' \<Longrightarrow> yields p (k ()) w' Q"
  shows "yields (pause_sched d @ p) (ebind (sleep E d) k) w Q"
proof -
  let ?w = "w\<lparr>clock := clock w + nanos_of d\<rparr>"
  have "mv wid evs I n h K w0 ?w" using mv by (simp add: moved_def calm_def)
  moreover have "sleep E d (pause_sched d @ sc) w = (Ready (Ok ()), sc, ?w)" for sc
    by (cases sc) (simp_all add: sleep_def pause_sched_def env_run_def)
  ultimately show ?thesis using k unfolding yields_def by (simp add: ebind_def)
qed

lemma bind_attempt:
  assumes mv: "mv wid evs I n h K w0 w"
    and free: "claimable (eng_worker_id E) wid i (store w0)" "i \<notin> I"
    and new: "key_open (job_key_of wid i a) (wqueue w0)" "job_key_of wid i a \<notin> K"
    and b: "timely st b" "b = Hangs \<longrightarrow> Suc h < permits_left (eng_priority E) (wqueue w0)"
    and k: "\<And>w'. mv wid (evs @ [StepStarted wid i a]) I (Suc n) (if b = Hangs then Suc h else h)
        (insert (job_key_of wid i a) K) w0 w' \<Longrightarrow>
      yields p (ebind (record_outcome E wid i (attempt_outcome st b)) f) w' Q"
  shows "yields ([] # [] # [] # body_chunk (eng_priority E) (next_task (wqueue w0) + n) st b # p)
    (ebind (run_attempt E wid i st body a) f) w Q"
  unfolding run_attempt_def ebind_assoc
  by (rule bind_claim [OF mv free], unfold claim_result.case ebind_assoc,
      rule bind_note, assumption, simp, simp add: ends_step_def,
      rule bind_execute [where k = "\<lambda>oc. ebind (record_outcome E wid i oc) f", OF _ _ _ _ b], assumption)
    (simp_all add: new_job_def new ebind_assoc k)

end

end
