(* ===== verification/EngineLiveness.thy ===== *)
theory EngineLiveness
  imports EngineDelivery
begin

text \<open>
  Calls of the engine on a store whose calls succeed and a queue that accepts jobs do what
  \<open>WorkflowReference\<close> says, however the bodies of the steps end: they return its value, leave its events
  in the log, and nothing else of other workflows.
\<close>

section \<open>Schedules of whole calls\<close>

fun after_attempt :: "step_def \<Rightarrow> u32 \<Rightarrow> verdict \<Rightarrow> sched" where
  "after_attempt st a (Done out) = [[]]"
| "after_attempt st a (Waits r) = [[]]"
| "after_attempt st a (Fails r) = [[], []]"
| "after_attempt st a (Retries r) =
     [[], []] @ pause_sched (backoff_duration (step_retry_policy st) a) @ [[]]"

fun attempts_sched :: "priority \<Rightarrow> nat \<Rightarrow> step_def \<Rightarrow> script \<Rightarrow> u32 list \<Rightarrow> sched" where
  "attempts_sched p t st body [] = []"
| "attempts_sched p t st body (a # as) =
     [[], [], [], body_chunk p t st (body a)] @ after_attempt st a (verdict_of st body a) @
       attempts_sched p (Suc t) st body as"

definition script_sched :: "priority \<Rightarrow> nat \<Rightarrow> step_def \<Rightarrow> script \<Rightarrow> u32 \<Rightarrow> sched" where
  "script_sched p t st body a = attempts_sched p t st body (tried st body a)"

text \<open>The steps from attempt \<open>a\<close> of step \<open>k\<close> on; \<open>first\<close> is what comes before the first of them.\<close>

fun steps_sched ::
    "priority \<Rightarrow> nat \<Rightarrow> (usize \<Rightarrow> script) \<Rightarrow> nat \<Rightarrow> step_def list \<Rightarrow> sched" where
  "steps_sched p t body k [] = [[], [], [], []]"
| "steps_sched p t body k (st # sts) =
     [[]] @ script_sched p t st (body (of_nat k)) 0 @
       (case step_verdict st (body (of_nat k)) 0 of
          Done out \<Rightarrow> steps_sched p (t + step_calls st (body (of_nat k)) 0) body (Suc k) sts
        | Waits r \<Rightarrow> []
        | _ \<Rightarrow> [[]])"

fun continued_sched ::
    "priority \<Rightarrow> nat \<Rightarrow> (usize \<Rightarrow> script) \<Rightarrow> u32 \<Rightarrow> nat \<Rightarrow> step_def list \<Rightarrow> sched" where
  "continued_sched p t body a k [] = []"
| "continued_sched p t body a k (st # sts) =
     script_sched p t st (body (of_nat k)) a @
       (case step_verdict st (body (of_nat k)) a of
          Done out \<Rightarrow> [[]] @ steps_sched p (t + step_calls st (body (of_nat k)) a) body (Suc k) sts
        | Waits r \<Rightarrow> []
        | _ \<Rightarrow> [[]])"

section \<open>When the calls can be made\<close>

text \<open>Every step is free when its turn comes, and the attempts made of it have open keys and meet their deadlines.\<close>

fun can_go ::
    "(usize \<Rightarrow> bool) \<Rightarrow> (key \<Rightarrow> bool) \<Rightarrow> string \<Rightarrow> (usize \<Rightarrow> script) \<Rightarrow> u32 \<Rightarrow> nat \<Rightarrow> step_def list \<Rightarrow> bool" where
  "can_go free fresh wid body a k [] = True"
| "can_go free fresh wid body a k (st # sts) =
     (free (of_nat k) \<and>
      list_all (\<lambda>b. fresh (job_key_of wid (of_nat k) b) \<and> timely st (body (of_nat k) b))
        (tried st (body (of_nat k)) a) \<and>
      can_go free fresh wid body 0 (Suc k) sts)"

lemma can_go_mono:
  "can_go free fresh wid body a k sts \<Longrightarrow> (\<And>i. free i \<Longrightarrow> free' i) \<Longrightarrow>
     (\<And>i b. fresh (job_key_of wid i b) \<Longrightarrow> fresh' (job_key_of wid i b)) \<Longrightarrow>
     can_go free' fresh' wid body a k sts"
  by (induction sts arbitrary: a k) (auto simp: list_all_iff)

fun step_value :: "verdict \<Rightarrow> (step_outcome, engine_error) result" where
  "step_value (Done out) = Ok OutcomeCompleted"
| "step_value (Waits r) = Ok OutcomeWaiting"
| "step_value (Fails r) = Err (EngineWorkflowFailed r)"
| "step_value (Retries r) = Err (EngineWorkflowFailed r)"

text \<open>What is left when the workflow has run to the end \<open>e\<close> of the reference: it is in flight only while it waits.\<close>

definition keys_of :: "string \<Rightarrow> key set" where
  "keys_of wid = {k. \<exists>i b. k = job_key_of wid i b}"

lemma keys_of_in [simp]: "job_key_of wid i b \<in> keys_of wid' \<longleftrightarrow> wid = wid'"
  by (auto simp: keys_of_def job_key_of_inject)

definition ended ::
    "('s \<Rightarrow> bool) \<Rightarrow> (string \<Rightarrow> 's \<Rightarrow> event list) \<Rightarrow> (string \<Rightarrow> usize \<Rightarrow> 's \<Rightarrow> bool) \<Rightarrow> priority \<Rightarrow> string
     \<Rightarrow> event list \<Rightarrow> run_end \<Rightarrow> nat \<Rightarrow> nat \<Rightarrow> 's world \<Rightarrow> 's world \<Rightarrow> bool" where
  "ended healthy log free p wid evs e n h w w' \<longleftrightarrow>
     moved healthy log free p wid evs UNIV n h (keys_of wid) w (w'\<lparr>in_flight := in_flight w\<rparr>) \<and>
     in_flight w' = (if e = RunOpen then in_flight w else (in_flight w)(wid := None))"

lemma moved_ended:
  assumes "moved hl log free p wid evs I n h K w w'" and "K \<subseteq> keys_of wid"
  shows "ended hl log free p wid evs RunOpen n h w w'"
    and "e \<noteq> RunOpen \<Longrightarrow> ended hl log free p wid evs e n h w (w'\<lparr>in_flight := (in_flight w')(wid := None)\<rparr>)"
  using moved_weaken [OF assms(1) subset_UNIV assms(2)] by (simp_all add: ended_def moved_def calm_def)

lemma ended_after:
  "moved hl log free p wid evs {} 0 0 {} w w1 \<Longrightarrow> ended hl log free p wid evs' e n h w1 w' \<Longrightarrow>
     ended hl log free p wid (evs @ evs') e n h w w'"
  by (auto simp: ended_def moved_def calm_def)

text \<open>The workflow is mounted and open, and its steps from attempt \<open>a\<close> of step \<open>i\<close> on can be run.\<close>

definition continuable ::
    "(string \<Rightarrow> 's \<Rightarrow> event list) \<Rightarrow> (string \<Rightarrow> usize \<Rightarrow> 's \<Rightarrow> bool) \<Rightarrow> (usize \<Rightarrow> script) \<Rightarrow> string
     \<Rightarrow> step_def list \<Rightarrow> func list \<Rightarrow> usize \<Rightarrow> u32 \<Rightarrow> 's world \<Rightarrow> bool" where
  "continuable log free body wid steps fns i a w \<longleftrightarrow>
     in_flight w wid = Some \<lparr>running_steps = steps, running_bodies = fns\<rparr> \<and>
     length steps \<le> 2 ^ 64 \<and> length fns = length steps \<and> unat i < length steps \<and>
     \<not> workflow_has_terminal_event (log wid (store w)) \<and>
     can_go (\<lambda>j. j \<noteq> i \<longrightarrow> free wid j (store w)) (\<lambda>k. key_open k (wqueue w)) wid body a (unat i)
       (drop (unat i) steps)"

definition can_readmit ::
    "(string \<Rightarrow> 's \<Rightarrow> event list) \<Rightarrow> (string \<Rightarrow> usize \<Rightarrow> 's \<Rightarrow> bool) \<Rightarrow> scripts \<Rightarrow> execution \<Rightarrow> 's world \<Rightarrow> bool" where
  "can_readmit log free body x w \<longleftrightarrow>
     (case in_flight w (exec_workflow_id x) of
        None \<Rightarrow> True
      | Some r \<Rightarrow> unat (exec_step_index x) < length (running_steps r) \<longrightarrow>
          continuable log free (body (exec_workflow_id x)) (exec_workflow_id x) (running_steps r) (running_bodies r)
            (exec_step_index x) (exec_attempt x) w)"

fun recovery_sched ::
    "priority \<Rightarrow> nat \<Rightarrow> (string \<rightharpoonup> running_workflow) \<Rightarrow> scripts \<Rightarrow> execution list \<Rightarrow> sched" where
  "recovery_sched p t m body [] = []"
| "recovery_sched p t m body (x # xs) =
     (let sts = rest_of m (exec_workflow_id x) (exec_step_index x);
          b = body (exec_workflow_id x); k = unat (exec_step_index x); a = exec_attempt x in
      [[], []] @ continued_sched p t b a k sts @
        (case snd (continued_step m body x) of
           RunFailed r \<Rightarrow> []
         | _ \<Rightarrow> recovery_sched p (t + over_steps step_calls b a k sts) m body xs))"

context healthy_engine begin

abbreviation gone where
  "gone wid \<equiv> ended healthy log (claimable (eng_worker_id E)) (eng_priority E) wid"

section \<open>A step\<close>

text \<open>An attempt that is not followed by another.\<close>

lemma yields_last:
  assumes mv: "mv wid evs I n h K w0 w"
    and v: "verdict_of st body a = v" "\<And>r. v \<noteq> Retries r"
  shows "yields (after_attempt st a v)
    (ebind (record_outcome E wid i (attempt_outcome st (body a))) (\<lambda>r.
       case r of
         AttemptReturn outcome \<Rightarrow> eret outcome
       | AttemptFailed reason \<Rightarrow>
           (if a + 1 < max_attempts (step_retry_policy st) then m reason
            else ebind (store_append E (WorkflowFailed wid reason)) (\<lambda>_. eerr (EngineWorkflowFailed reason))))) w
    (\<lambda>r w'. r = step_value v \<and> mv wid (evs @ tl (attempt_events wid i a v)) (insert i I) n h K w0 w')"
proof (cases v)
  case (Done out)
  with v(1) have "attempt_outcome st (body a) = OCompleted out"
    by (simp add: verdict_of_def split: outcome.splits option.splits if_splits)
  then show ?thesis
    by (simp add: Done record_outcome_def ebind_assoc, intro bind_append [OF mv] yields_ret)
      (auto elim!: moved_weaken simp: ends_step_def)
next
  case (Waits r)
  with v(1) obtain reason where "attempt_outcome st (body a) = OFailed reason" "parse_waiting_reason reason = Some r"
    by (auto simp: verdict_of_def split: outcome.splits option.splits if_splits)
  then show ?thesis
    by (simp add: Waits record_outcome_def ebind_assoc, intro bind_append [OF mv] yields_ret)
      (auto elim!: moved_weaken simp: ends_step_def)
next
  case (Fails r)
  from v(1) obtain reason where fails: "attempt_outcome st (body a) = OFailed reason" "parse_waiting_reason reason = None"
    "parse_non_retryable_reason reason = Some r \<or>
      parse_non_retryable_reason reason = None \<and> reason = r \<and> \<not> a + 1 < max_attempts (step_retry_policy st)"
    by (auto simp: verdict_of_def Fails split: outcome.splits option.splits if_splits)
  have "yields ([] # [] # []) (ebind (store_append E (StepFailed wid i r)) (\<lambda>_.
      ebind (store_append E (WorkflowFailed wid r)) (\<lambda>_. eerr (EngineWorkflowFailed r)))) w
    (\<lambda>r' w'. r' = step_value v \<and> mv wid (evs @ tl (attempt_events wid i a v)) (insert i I) n h K w0 w')"
    by (rule bind_note [OF mv _ _ bind_note]) (auto elim: moved_weaken intro!: yields_err simp: Fails ends_step_def)
  with fails show ?thesis
    by (auto simp: Fails record_outcome_def ebind_assoc)
qed (use v in simp)

lemma yields_run_step:
  assumes "mv wid evs I n h K w0 w"
    and "claimable (eng_worker_id E) wid i (store w0)" and "i \<notin> I"
    and "list_all (\<lambda>b. key_open (job_key_of wid i b) (wqueue w0) \<and> timely st (script b)) (tried st script a)"
    and "\<And>b. b \<in> set (tried st script a) \<Longrightarrow> job_key_of wid i b \<notin> K"
    and "\<not> workflow_is_cancelled (log wid (store w0) @ evs)"
    and "h + step_hangs st script a < permits_left (eng_priority E) (wqueue w0)"
  shows "yields (script_sched (eng_priority E) (next_task (wqueue w0) + n) st script a)
    (run_step E wid i st body a) w
    (\<lambda>r w'. r = step_value (step_verdict st script a) \<and>
       mv wid (evs @ step_events wid i st script a) (insert i I) (n + step_calls st script a)
         (h + step_hangs st script a) (K \<union> range (job_key_of wid i)) w0 w')"
  using assms
proof (induction st script a arbitrary: evs n h K w rule: tried.induct)
  case (1 st script a)
  let ?h = "if script a = Hangs then Suc h else h" and ?K = "insert (job_key_of wid i a) K"
  have keys: "job_key_of wid i a \<notin> K" "key_open (job_key_of wid i a) (wqueue w0)" "timely st (script a)"
    using 1(5) 1(6) [OF tried_first] by (simp_all add: list_all_iff)
  have room: "script a = Hangs \<longrightarrow> Suc h < permits_left (eng_priority E) (wqueue w0)"
    using 1(8) counts_end(2) [of st script a] counts_retry(2) [of st script a]
    by (cases "verdict_of st script a") auto
  show ?case
  proof (cases "\<exists>r. verdict_of st script a = Retries r")
    case False
    then have ends: "\<And>r. verdict_of st script a \<noteq> Retries r" by simp
    show ?thesis
      unfolding script_sched_def tried_ends [OF ends] attempts_sched.simps step_ends [OF ends]
        counts_end [OF ends] run_step.simps [of E wid i st body a] append_Nil2 append.simps
      by (rule bind_attempt [OF 1(2-4) keys(2,1,3) room],
          rule yields_mono [OF yields_last [OF _ refl ends]], assumption)
        (cases "verdict_of st script a", auto elim!: moved_weaken)
  next
    case True
    then obtain r where r: "verdict_of st script a = Retries r" ..
    then have out: "attempt_outcome st (script a) = OFailed r" "parse_waiting_reason r = None"
        "parse_non_retryable_reason r = None" "a + 1 < max_attempts (step_retry_policy st)"
      by (auto simp: verdict_of_def split: outcome.splits option.splits if_splits)
    let ?evs = "evs @ attempt_events wid i a (Retries r)"
    have going: "\<not> workflow_is_cancelled (log wid (store w0) @ ?evs)"
      using 1(7) by (simp add: workflow_is_cancelled_def is_cancelled_def)
    have "yields (script_sched (eng_priority E) (next_task (wqueue w0) + Suc n) st script (a + 1))
        (run_step E wid i st body (a + 1)) w1
        (\<lambda>r' w'. r' = step_value (step_verdict st script a) \<and>
           mv wid (evs @ step_events wid i st script a) (insert i I) (n + step_calls st script a)
             (h + step_hangs st script a) (K \<union> range (job_key_of wid i)) w0 w')"
      if "mv wid ?evs I (Suc n) ?h ?K w0 w1" for w1
    proof (rule yields_mono [OF 1(1) [OF r that 1(3,4) _ _ going]], goal_cases)
      case 1
      then show ?case using "1.prems"(4) by (simp add: tried_retries [OF r])
    next
      case (2 b)
      then show ?case using "1.prems"(5) tried_later [OF r] by (auto simp: tried_retries [OF r] job_key_of_inject)
    next
      case 3
      then show ?case using "1.prems"(7) by (simp add: counts_retry [OF r] split: if_splits)
    next
      case (4 r' w')
      then show ?case
        by (auto elim!: moved_weaken simp: step_retries [OF r] counts_retry [OF r] split: if_splits)
    qed
    then show ?thesis
      unfolding script_sched_def tried_retries [OF r] attempts_sched.simps r
        run_step.simps [of E wid i st body a] append.simps after_attempt.simps append_assoc
      by (intro bind_attempt [OF 1(2-4) keys(2,1,3) room])
        (simp add: out record_outcome_def retry_pause_def ebind_assoc,
         rule bind_note, assumption, simp, simp add: ends_step_def,
         rule bind_note, assumption, simp, simp add: ends_step_def,
         rule bind_sleep, assumption, rule bind_load, assumption, use going in simp)
  qed
qed

section \<open>A workflow\<close>

lemma yields_complete:
  assumes mv: "mv wid evs I n h K w0 w" and K: "K \<subseteq> keys_of wid"
    and going: "\<not> workflow_has_terminal_event (log wid (store w0) @ evs)"
  shows "yields [[], [], [], []] (complete_workflow E wid) w
    (\<lambda>r w'. r = Ok () \<and> gone wid (evs @ [WorkflowCompleted wid]) RunCompleted n h w0 w')"
proof -
  let ?Q = "\<lambda>r w'. r = Ok () \<and> mv wid (evs @ [WorkflowCompleted wid]) I n h K w0 w'"
  have "yields [[]] (store_append E (WorkflowCompleted wid)) (w\<lparr>terminal_locked := True\<rparr>)
      (\<lambda>r w'. ?Q r (w'\<lparr>terminal_locked := False\<rparr>))"
    by (subst ebind_eret_right [symmetric], rule bind_note [of wid evs I n h K w0])
      (auto simp: ends_step_def mv intro!: yields_ret)
  with going have "yields [[], []] (ebind (store_load E wid) (\<lambda>events.
      if workflow_has_terminal_event events then eret () else store_append E (WorkflowCompleted wid)))
      (w\<lparr>terminal_locked := True\<rparr>) (\<lambda>r w'. ?Q r (w'\<lparr>terminal_locked := False\<rparr>))"
    by (intro bind_load [of wid evs I n h K w0]) (simp_all add: mv)
  note yields_bind [OF yields_lock [where E = E and Q = ?Q, OF this], of "[[]]" "\<lambda>_. drop_from_in_flight E wid"
      "\<lambda>r w'. r = Ok () \<and> gone wid (evs @ [WorkflowCompleted wid]) RunCompleted n h w0 w'", simplified]
  then show ?thesis
    unfolding complete_workflow_def drop_from_in_flight_def
    by (auto intro!: yields_atom intro: moved_ended(2) [OF _ K])
qed

text \<open>One step and the rest of its workflow, \<open>m\<close>, which is run when the step is done.\<close>

lemma yields_step_then:
  fixes m :: "step_outcome \<Rightarrow> (unit, 'a) prog"
  assumes mv: "mv wid evs I n h K w0 w" and K: "K \<subseteq> keys_of wid"
    and can: "can_go (\<lambda>j. claimable (eng_worker_id E) wid j (store w0)) (\<lambda>k. key_open k (wqueue w0))
      wid body a k (st # sts)"
    and new: "of_nat k \<notin> I" "\<And>b. job_key_of wid (of_nat k) b \<notin> K"
    and going: "\<not> workflow_is_cancelled (log wid (store w0) @ evs)"
    and room: "h + over_steps step_hangs body a k (st # sts) < permits_left (eng_priority E) (wqueue w0)"
    and waits: "m OutcomeWaiting = eret ()"
    and goes_on: "\<And>w' out. mv wid (evs @ step_events wid (of_nat k) st (body (of_nat k)) a) (insert (of_nat k) I)
        (n + step_calls st (body (of_nat k)) a) (h + step_hangs st (body (of_nat k)) a)
        (K \<union> range (job_key_of wid (of_nat k))) w0 w' \<Longrightarrow>
      step_verdict st (body (of_nat k)) a = Done out \<Longrightarrow>
      yields p (m OutcomeCompleted) w' (\<lambda>r w''. \<exists>evs' e. reference wid body 0 (Suc k) sts = (evs', e) \<and>
        r = run_value e \<and>
        gone wid (evs @ step_events wid (of_nat k) st (body (of_nat k)) a @ evs') e
          (n + over_steps step_calls body a k (st # sts)) (h + over_steps step_hangs body a k (st # sts)) w0 w'')"
  shows "yields (script_sched (eng_priority E) (next_task (wqueue w0) + n) st (body (of_nat k)) a @
      (case step_verdict st (body (of_nat k)) a of Done out \<Rightarrow> p | Waits r \<Rightarrow> [] | _ \<Rightarrow> [[]]))
    (ebind (or_drop E wid (run_step E wid (of_nat k) st fn a)) m) w
    (\<lambda>r w'. \<exists>evs' e. reference wid body a k (st # sts) = (evs', e) \<and> r = run_value e \<and>
      gone wid (evs @ evs') e (n + over_steps step_calls body a k (st # sts))
        (h + over_steps step_hangs body a k (st # sts)) w0 w')"
proof -
  let ?b = "body (of_nat k)" and ?K = "K \<union> range (job_key_of wid (of_nat k))"
  let ?v = "step_verdict st ?b a" and ?evs = "evs @ step_events wid (of_nat k) st ?b a"
  have hangs: "h + step_hangs st ?b a < permits_left (eng_priority E) (wqueue w0)" using room by simp
  have K': "?K \<subseteq> keys_of wid" using K by auto
  note step = yields_run_step [OF mv _ new(1) _ new(2) going hangs, where body = fn]
  show ?thesis
  proof (cases ?v)
    case (Retries r)
    then show ?thesis using step_verdict_final by metis
  next
    case (Done out)
    have "yields (script_sched (eng_priority E) (next_task (wqueue w0) + n) st ?b a @ p)
      (ebind (or_drop E wid (run_step E wid (of_nat k) st fn a)) m) w
      (\<lambda>r w''. \<exists>evs' e. reference wid body 0 (Suc k) sts = (evs', e) \<and> r = run_value e \<and>
        gone wid (?evs @ evs') e (n + over_steps step_calls body a k (st # sts))
          (h + over_steps step_hangs body a k (st # sts)) w0 w'')"
      by (rule yields_or_drop [OF step]) (use can goes_on Done in auto)
    then show ?thesis by (auto elim: yields_mono simp: Done)
  next
    case (Waits r)
    have "yields (script_sched (eng_priority E) (next_task (wqueue w0) + n) st ?b a @ [])
      (ebind (or_drop E wid (run_step E wid (of_nat k) st fn a)) m) w
      (\<lambda>r w''. r = Ok () \<and> gone wid ?evs RunOpen (n + step_calls st ?b a) (h + step_hangs st ?b a) w0 w'')"
      by (rule yields_or_drop [OF step])
        (use can Waits waits in \<open>auto intro!: yields_ret intro: moved_ended(1) [OF _ K']\<close>)
    then show ?thesis by (auto elim: yields_mono simp: Waits)
  next
    case (Fails r)
    have "yields (script_sched (eng_priority E) (next_task (wqueue w0) + n) st ?b a @ [[]])
      (ebind (or_drop E wid (run_step E wid (of_nat k) st fn a)) m) w
      (\<lambda>r' w''. r' = run_value (RunFailed r) \<and>
        gone wid ?evs (RunFailed r) (n + step_calls st ?b a) (h + step_hangs st ?b a) w0 w'')"
      by (rule yields_or_drop [OF step]) (use can Fails in \<open>auto intro: moved_ended(2) [OF _ K']\<close>)
    then show ?thesis by (auto elim: yields_mono simp: Fails)
  qed
qed

lemma step_events_open:
  "\<not> workflow_has_terminal_event (step_events wid i st script a)" if "step_verdict st script a = Done out"
  using that
proof (induction st script a rule: tried.induct)
  case (1 st script a)
  then show ?case
    by (cases "verdict_of st script a")
      (simp_all add: step_ends step_retries workflow_has_terminal_event_def is_terminal_def)
qed

lemma yields_drive:
  assumes "mv wid evs I n h K w0 w"
    and "length steps \<le> 2 ^ 64" and "length bodies = length steps"
    and "sts = drop k steps" and "k \<le> length steps"
    and "can_go (\<lambda>j. claimable (eng_worker_id E) wid j (store w0)) (\<lambda>k. key_open k (wqueue w0)) wid body 0 k sts"
    and "I \<subseteq> of_nat ` {..<k}" and "K \<subseteq> {job_key_of wid (of_nat j) b | j b. j < k}"
    and "\<not> workflow_has_terminal_event (log wid (store w0) @ evs)"
    and "h + over_steps step_hangs body 0 k sts < permits_left (eng_priority E) (wqueue w0)"
  shows "yields (steps_sched (eng_priority E) (next_task (wqueue w0) + n) body k sts)
    (drive_steps E wid steps bodies [k..<length steps]) w
    (\<lambda>r w'. \<exists>evs' e. reference wid body 0 k sts = (evs', e) \<and> r = run_value e \<and>
      gone wid (evs @ evs') e (n + over_steps step_calls body 0 k sts)
        (h + over_steps step_hangs body 0 k sts) w0 w')"
  using assms
proof (induction sts arbitrary: k evs I n h K w)
  case Nil
  from Nil(8) have "K \<subseteq> keys_of wid" by (rule order_trans) auto
  from yields_complete [OF Nil(1) this Nil(9)] Nil(4,5) show ?case by simp
next
  case (Cons st sts)
  let ?fn = "bodies ! k"
  have "drop k steps \<noteq> []" using Cons.prems(4) by (metis list.distinct(1))
  then have k: "k < length steps" by simp
  have st: "steps ! k = st" "sts = drop (Suc k) steps"
    using Cons_nth_drop_Suc [OF k] Cons.prems(4) by (metis list.inject)+
  have fresh: "(of_nat j :: usize) \<noteq> of_nat k" if "j < k" for j
    using that k Cons.prems(2) unat_of_nat_u64 [of j] unat_of_nat_u64 [of k] by fastforce
  have new: "of_nat k \<notin> I" using Cons.prems(7) fresh by (metis imageE lessThan_iff subsetD)
  have new_key: "job_key_of wid (of_nat k) b \<notin> K" for b
  proof -
    have "job_key_of wid (of_nat k) b \<notin> {job_key_of wid (of_nat j) b | j b. j < k}"
      by (auto simp: job_key_of_inject not_sym [OF fresh])
    then show ?thesis using Cons.prems(8) by blast
  qed
  have K: "K \<subseteq> keys_of wid" using Cons.prems(8) by (rule order_trans) auto
  have going: "\<not> workflow_is_cancelled (log wid (store w0) @ evs)"
    using Cons.prems(9) cancelled_is_terminal by blast
  have in_range: "\<not> length bodies \<le> k" using k Cons.prems(3) by simp
  let ?m = "\<lambda>outcome. case outcome of
      OutcomeCompleted \<Rightarrow> drive_steps E wid steps bodies [Suc k..<length steps] | OutcomeWaiting \<Rightarrow> eret ()"
  have "yields (script_sched (eng_priority E) (next_task (wqueue w0) + n) st (body (of_nat k)) 0 @
      (case step_verdict st (body (of_nat k)) 0 of
         Done out \<Rightarrow> steps_sched (eng_priority E) (next_task (wqueue w0) + n + step_calls st (body (of_nat k)) 0)
           body (Suc k) sts
       | Waits r \<Rightarrow> [] | _ \<Rightarrow> [[]]))
    (ebind (or_drop E wid (run_step E wid (of_nat k) st ?fn 0)) ?m) w
    (\<lambda>r w'. \<exists>evs' e. reference wid body 0 k (st # sts) = (evs', e) \<and> r = run_value e \<and>
      gone wid (evs @ evs') e (n + over_steps step_calls body 0 k (st # sts))
        (h + over_steps step_hangs body 0 k (st # sts)) w0 w')"
  proof (rule yields_step_then [OF Cons.prems(1) K Cons.prems(6) new new_key going Cons.prems(10)], goal_cases)
    case (2 w1 out)
    have "\<not> workflow_has_terminal_event
        (log wid (store w0) @ evs @ step_events wid (of_nat k) st (body (of_nat k)) 0)"
      using Cons.prems(9) step_events_open [OF 2(2)] by (simp add: workflow_has_terminal_event_def)
    moreover have "insert (of_nat k) I \<subseteq> of_nat ` {..<Suc k}" using Cons.prems(7) by (auto simp: lessThan_Suc)
    moreover have "K \<union> range (job_key_of wid (of_nat k)) \<subseteq> {job_key_of wid (of_nat j) b | j b. j < Suc k}"
      by (rule Un_least [OF order_trans [OF Cons.prems(8)]]) auto
    ultimately show ?case
      using Cons.IH [OF 2(1) Cons.prems(2,3) st(2)] k Cons.prems(6,10) 2(2) by (simp add: add.assoc)
  qed simp
  then show ?case
    unfolding upt_conv_Cons [OF k] steps_sched.simps drive_steps.simps append.simps
    by (intro bind_load [OF Cons.prems(1)])
      (simp only: if_not_P [OF going] if_not_P [OF in_range] st(1) append_assoc)
qed

section \<open>The calls\<close>

lemma yields_drive_from:
  assumes mv: "mv wid evs I n h K w0 w"
    and "length steps \<le> 2 ^ 64" and "length fns = length steps" and "k \<le> length steps"
    and "can_go (\<lambda>j. claimable (eng_worker_id E) wid j (store w0)) (\<lambda>k. key_open k (wqueue w0)) wid body 0 k
      (drop k steps)"
    and "I \<subseteq> of_nat ` {..<k}" and "K \<subseteq> {job_key_of wid (of_nat j) b | j b. j < k}"
    and "\<not> workflow_has_terminal_event (log wid (store w0) @ evs)"
    and "h + over_steps step_hangs body 0 k (drop k steps) < permits_left (eng_priority E) (wqueue w0)"
    and mounted: "in_flight w0 wid = Some \<lparr>running_steps = steps, running_bodies = fns\<rparr>"
  shows "yields ([] # steps_sched (eng_priority E) (next_task (wqueue w0) + n) body k (drop k steps))
    (ebind (mounted_steps_and_bodies E wid) (\<lambda>(steps, fns). drive_from E wid steps fns k)) w
    (\<lambda>r w'. \<exists>evs' e. reference wid body 0 k (drop k steps) = (evs', e) \<and> r = run_value e \<and>
      gone wid (evs @ evs') e (n + over_steps step_calls body 0 k (drop k steps))
        (h + over_steps step_hangs body 0 k (drop k steps)) w0 w')"
proof -
  have "in_flight w wid = Some \<lparr>running_steps = steps, running_bodies = fns\<rparr>"
    using mv mounted by (simp add: moved_def)
  with yields_drive [OF mv assms(2,3) refl assms(4-9)] show ?thesis
    by (elim yields_step [rotated])
      (simp add: drive_from_def mounted_steps_and_bodies_def eatom_def ebind_def eyield_def env_run_def)
qed

abbreviation mounted where
  "mounted wid steps fns w \<equiv>
     w\<lparr>in_flight := (in_flight w)(wid \<mapsto> \<lparr>running_steps = steps, running_bodies = fns\<rparr>)\<rparr>"

lemma yields_run:
  assumes calm: "calm healthy w"
    and "\<not> workflow_has_terminal_event (log wid (store w))"
    and "length steps \<le> 2 ^ 64" and "length fns = length steps"
    and can: "can_go (\<lambda>j. claimable (eng_worker_id E) wid j (store w)) (\<lambda>k. key_open k (wqueue w)) wid body 0 0 steps"
    and room: "over_steps step_hangs body 0 0 steps < permits_left (eng_priority E) (wqueue w)"
  shows "yields ([[], [], []] @ steps_sched (eng_priority E) (next_task (wqueue w)) body 0 steps)
    (run E \<lparr>workflow_id = wid, workflow_steps = steps\<rparr> fns) w
    (\<lambda>r w'. \<exists>evs e. reference wid body 0 0 steps = (evs, e) \<and> r = run_value e \<and>
      gone wid (WorkflowStarted wid # evs) e (over_steps step_calls body 0 0 steps)
        (over_steps step_hangs body 0 0 steps) (mounted wid steps fns w) w')"
proof -
  let ?w = "mounted wid steps fns w"
  have calm': "calm healthy ?w" using calm by (simp add: calm_def)
  have "yields ([] # [] # steps_sched (eng_priority E) (next_task (wqueue w)) body 0 steps)
    (ebind (store_append E (WorkflowStarted wid)) (\<lambda>_.
     ebind (mounted_steps_and_bodies E wid) (\<lambda>(steps, fns). drive_from E wid steps fns 0))) ?w
    (\<lambda>r w'. \<exists>evs e. reference wid body 0 0 steps = (evs, e) \<and> r = run_value e \<and>
      gone wid (WorkflowStarted wid # evs) e (over_steps step_calls body 0 0 steps)
        (over_steps step_hangs body 0 0 steps) ?w w')"
  proof (rule bind_note [OF mv_start [OF calm']])
    fix w1
    assume 1: "mv wid ([] @ [WorkflowStarted wid]) {} 0 0 {} ?w w1"
    from yields_drive_from [OF 1 assms(3,4) le0] assms(2,5,6)
    show "yields ([] # steps_sched (eng_priority E) (next_task (wqueue w)) body 0 steps)
        (ebind (mounted_steps_and_bodies E wid) (\<lambda>(steps, fns). drive_from E wid steps fns 0)) w1
        (\<lambda>r w'. \<exists>evs e. reference wid body 0 0 steps = (evs, e) \<and> r = run_value e \<and>
          gone wid (WorkflowStarted wid # evs) e (over_steps step_calls body 0 0 steps)
            (over_steps step_hangs body 0 0 steps) ?w w')"
      by (simp add: workflow_has_terminal_event_def is_terminal_def)
  qed (simp_all add: ends_step_def)
  then show ?thesis
    by (rule yields_step [rotated])
      (simp add: run_def register_workflow_def assms(4) eatom_def ebind_def eyield_def env_run_def)
qed

text \<open>The rest of a workflow, from an attempt of one of its steps on.\<close>

lemma yields_continue:
  fixes i :: usize
  defines "k \<equiv> unat i"
  assumes calm: "calm healthy w" and free: "claimable (eng_worker_id E) wid i (store w)"
    and can: "continuable log (claimable (eng_worker_id E)) body wid steps fns i a w"
    and room: "over_steps step_hangs body a k (drop k steps) < permits_left (eng_priority E) (wqueue w)"
  shows "yields (continued_sched (eng_priority E) (next_task (wqueue w)) body a k (drop k steps))
    (run_and_continue E wid i (steps ! k) (fns ! k) a) w
    (\<lambda>r w'. \<exists>evs e. reference wid body a k (drop k steps) = (evs, e) \<and> r = run_value e \<and>
      gone wid evs e (over_steps step_calls body a k (drop k steps))
        (over_steps step_hangs body a k (drop k steps)) w w')"
proof -
  let ?st = "steps ! k" and ?sts = "drop (Suc k) steps"
  from can have mount: "in_flight w wid = Some \<lparr>running_steps = steps, running_bodies = fns\<rparr>"
    and steps: "length steps \<le> 2 ^ 64" "length fns = length steps" and k: "k < length steps"
    and going: "\<not> workflow_has_terminal_event (log wid (store w))"
    by (simp_all add: continuable_def k_def)
  have i: "of_nat k = i" by (simp add: k_def)
  have drop: "drop k steps = ?st # ?sts" using k by (simp add: Cons_nth_drop_Suc)
  have "can_go (\<lambda>j. j \<noteq> i \<longrightarrow> claimable (eng_worker_id E) wid j (store w)) (\<lambda>k. key_open k (wqueue w)) wid body a k
      (drop k steps)"
    using can by (simp add: continuable_def k_def)
  then have go: "can_go (\<lambda>j. claimable (eng_worker_id E) wid j (store w)) (\<lambda>k. key_open k (wqueue w)) wid body a k
      (?st # ?sts)"
    unfolding drop by (rule can_go_mono) (use free in auto)
  let ?p = "[[]] @ steps_sched (eng_priority E) (next_task (wqueue w) + step_calls ?st (body (of_nat k)) a) body (Suc k) ?sts"
  have "yields (script_sched (eng_priority E) (next_task (wqueue w) + 0) ?st (body (of_nat k)) a @
      (case step_verdict ?st (body (of_nat k)) a of Done out \<Rightarrow> ?p | Waits r \<Rightarrow> [] | _ \<Rightarrow> [[]]))
    (ebind (or_drop E wid (run_step E wid (of_nat k) ?st (fns ! k) a)) (\<lambda>outcome. case outcome of
       OutcomeWaiting \<Rightarrow> eret ()
     | OutcomeCompleted \<Rightarrow> ebind (mounted_steps_and_bodies E wid) (\<lambda>(steps, fns). drive_from E wid steps fns (Suc k)))) w
    (\<lambda>r w'. \<exists>evs e. reference wid body a k (?st # ?sts) = (evs, e) \<and> r = run_value e \<and>
      gone wid ([] @ evs) e (0 + over_steps step_calls body a k (?st # ?sts))
        (0 + over_steps step_hangs body a k (?st # ?sts)) w w')"
  proof (rule yields_step_then [OF mv_start [OF calm] _ go], goal_cases)
    case (7 w1 out)
    have "insert (of_nat k) {} \<subseteq> (of_nat :: nat \<Rightarrow> usize) ` {..<Suc k}"
      and "{} \<union> range (job_key_of wid (of_nat k)) \<subseteq> {job_key_of wid (of_nat j) b | j b. j < Suc k}"
      by auto
    from yields_drive_from [OF 7(1) steps _ _ this _ _ mount] k go going step_events_open [OF 7(2)] room 7(2)
    show ?case
      by (simp add: drop i workflow_has_terminal_event_def)
  qed (use going cancelled_is_terminal room in \<open>auto simp: drop\<close>)
  then show ?thesis
    unfolding run_and_continue_def drop continued_sched.simps k_def [symmetric]
    by (simp add: i del: reference.simps over_steps.simps)
qed

text \<open>An event that frees the step comes first; \<open>m\<close> is what follows before the step is run.\<close>

lemma yields_append_continue:
  fixes i :: usize
  defines "k \<equiv> unat i"
  assumes calm: "calm healthy w"
    and e: "event_workflow_id e = wid" "\<And>j. \<not> ends_step wid j e" "\<not> is_terminal e"
    and free: "\<And>s'. append_event ops e (wall w) (store w) = (Ok (), s') \<Longrightarrow> claimable (eng_worker_id E) wid i s'"
    and can: "continuable log (claimable (eng_worker_id E)) body wid steps fns i a w"
    and room: "over_steps step_hangs body a k (drop k steps) < permits_left (eng_priority E) (wqueue w)"
    and m: "\<And>p Q w1. in_flight w1 = in_flight w \<Longrightarrow>
      yields p (run_and_continue E wid i (steps ! k) (fns ! k) a) w1 Q \<Longrightarrow> yields (q @ p) (m ()) w1 Q"
  shows "yields ([] # q @ continued_sched (eng_priority E) (next_task (wqueue w)) body a k (drop k steps))
    (ebind (store_append E e) m) w
    (\<lambda>r w'. \<exists>evs end. reference wid body a k (drop k steps) = (evs, end) \<and> r = run_value end \<and>
      gone wid (e # evs) end (over_steps step_calls body a k (drop k steps))
        (over_steps step_hangs body a k (drop k steps)) w w')"
proof (rule bind_append_exact [OF mv_start [OF calm] e(1)], rule m)
  fix w1
  assume run: "append_event ops e (wall w) (store w) = (Ok (), store w1)"
    and "mv wid ([] @ [e]) ({} \<union> {j. ends_step wid j e}) 0 0 {} w w1"
  then have 1: "mv wid [e] {} 0 0 {} w w1" by (simp add: e(2))
  then show "in_flight w1 = in_flight w" by (simp add: moved_def)
  have "can_go (\<lambda>j. j \<noteq> i \<longrightarrow> claimable (eng_worker_id E) wid j (store w1)) (\<lambda>k. key_open k (wqueue w1)) wid body a
      (unat i) (drop (unat i) steps)"
    using can 1 by (auto simp: continuable_def moved_def elim: can_go_mono)
  with can 1 e(3) have "continuable log (claimable (eng_worker_id E)) body wid steps fns i a w1"
    by (simp add: continuable_def moved_def workflow_has_terminal_event_def)
  from yields_continue [OF moved_calm [OF 1] free [OF run] this] room 1
  have "yields (continued_sched (eng_priority E) (next_task (wqueue w)) body a k (drop k steps))
      (run_and_continue E wid i (steps ! k) (fns ! k) a) w1
      (\<lambda>r w'. \<exists>evs end. reference wid body a k (drop k steps) = (evs, end) \<and> r = run_value end \<and>
        gone wid evs end (over_steps step_calls body a k (drop k steps))
          (over_steps step_hangs body a k (drop k steps)) w1 w')"
    by (simp add: k_def moved_def)
  then show "yields (continued_sched (eng_priority E) (next_task (wqueue w)) body a k (drop k steps))
      (run_and_continue E wid i (steps ! k) (fns ! k) a) w1
      (\<lambda>r w'. \<exists>evs end. reference wid body a k (drop k steps) = (evs, end) \<and> r = run_value end \<and>
        gone wid (e # evs) end (over_steps step_calls body a k (drop k steps))
          (over_steps step_hangs body a k (drop k steps)) w w')"
    by (rule yields_mono) (use ended_after [OF 1] in fastforce)
qed

text \<open>One lost step, and then the others.\<close>

lemma yields_readmit:
  fixes x :: execution
  defines "wid \<equiv> exec_workflow_id x" and "i \<equiv> exec_step_index x" and "a \<equiv> exec_attempt x"
  assumes calm: "calm healthy w"
    and can: "can_readmit log (claimable (eng_worker_id E)) body x w"
    and room: "over_steps step_hangs (body wid) a (unat i) (rest_of (in_flight w) wid i)
      < permits_left (eng_priority E) (wqueue w)"
  shows "yields ([[], []] @ continued_sched (eng_priority E) (next_task (wqueue w)) (body wid) a (unat i)
        (rest_of (in_flight w) wid i))
    (readmit_after_worker_recovery E wid i a) w
    (\<lambda>r w'. \<exists>evs e. continued_step (in_flight w) body x = (evs, e) \<and> r = run_value e \<and>
      gone wid (WorkerRecovered wid i # evs) e
        (over_steps step_calls (body wid) a (unat i) (rest_of (in_flight w) wid i))
        (over_steps step_hangs (body wid) a (unat i) (rest_of (in_flight w) wid i)) w w')"
proof (cases "rest_of (in_flight w) wid i")
  case Nil
  have "yields ([] # [[]]) (readmit_after_worker_recovery E wid i a) w
    (\<lambda>r w'. r = Ok () \<and> mv wid [WorkerRecovered wid i] {} 0 0 {} w w')"
    unfolding readmit_after_worker_recovery_def
  proof (rule bind_note [OF mv_start [OF calm]])
    fix w1
    assume 1: "mv wid ([] @ [WorkerRecovered wid i]) {} 0 0 {} w w1"
    then have "in_flight w1 = in_flight w" by (simp add: moved_def)
    with Nil 1 show "yields [[]] (ebind (eatom E (\<lambda>w. (Ok (in_flight w wid), w))) (\<lambda>running.
        case running of
          None \<Rightarrow> eret ()
        | Some r \<Rightarrow>
            (if length (running_steps r) \<le> unat i then eret ()
             else if length (running_bodies r) \<le> unat i then epanic
             else run_and_continue E wid i (running_steps r ! unat i) (running_bodies r ! unat i) a))) w1
        (\<lambda>r w'. r = Ok () \<and> mv wid [WorkerRecovered wid i] {} 0 0 {} w w')"
      by (auto simp: rest_of_def yields_def eatom_def ebind_def eyield_def env_run_def eret_def split: option.splits)
  qed (simp_all add: ends_step_def)
  then show ?thesis
    by (auto simp: Nil continued_step_def continued_def wid_def [symmetric] i_def [symmetric]
        elim!: yields_mono intro: moved_ended(1))
next
  case (Cons st sts)
  then obtain r where r: "in_flight w wid = Some r" "unat i < length (running_steps r)"
      "rest_of (in_flight w) wid i = drop (unat i) (running_steps r)"
    by (cases "in_flight w wid") (simp_all add: rest_of_def, metis drop_all leI list.distinct(1))
  let ?steps = "running_steps r" and ?fns = "running_bodies r"
  from can r have go: "continuable log (claimable (eng_worker_id E)) (body wid) wid ?steps ?fns i a w"
    by (simp add: can_readmit_def wid_def i_def a_def)
  then have fns: "unat i < length ?fns" by (simp add: continuable_def)
  have "yields ([] # [[]] @ continued_sched (eng_priority E) (next_task (wqueue w)) (body wid) a (unat i)
      (drop (unat i) ?steps)) (readmit_after_worker_recovery E wid i a) w
    (\<lambda>r' w'. \<exists>evs e. reference wid (body wid) a (unat i) (drop (unat i) ?steps) = (evs, e) \<and> r' = run_value e \<and>
      gone wid (WorkerRecovered wid i # evs) e
        (over_steps step_calls (body wid) a (unat i) (drop (unat i) ?steps))
        (over_steps step_hangs (body wid) a (unat i) (drop (unat i) ?steps)) w w')"
    unfolding readmit_after_worker_recovery_def
  proof (rule yields_append_continue [OF calm _ _ _ _ go], goal_cases)
    case (4 s')
    with calm append_healthy [of "store w" "WorkerRecovered wid i" "wall w"] show ?case by (auto simp: calm_def)
  next
    case (6 p Q w1)
    from 6(2) show ?case
      by (rule yields_step [rotated])
        (use r(2) fns in \<open>simp add: 6(1) r(1) eatom_def ebind_def eyield_def env_run_def\<close>)
  qed (use room r(3) in \<open>simp_all add: ends_step_def is_terminal_def\<close>)
  with r(2) show ?thesis
    by (simp add: r(3) continued_step_def continued_def wid_def [symmetric] i_def [symmetric] a_def [symmetric])
qed

text \<open>The workflows that are still to come are as they were.\<close>

lemma ended_readmit:
  assumes gone: "gone wid evs e n h w w1" and other: "exec_workflow_id x \<noteq> wid"
    and can: "can_readmit log (claimable (eng_worker_id E)) body x w"
  shows "can_readmit log (claimable (eng_worker_id E)) body x w1"
    and "in_flight w1 (exec_workflow_id x) = in_flight w (exec_workflow_id x)"
proof -
  let ?u = "exec_workflow_id x"
  have same: "log ?u (store w1) = log ?u (store w)" "in_flight w1 ?u = in_flight w ?u"
      "\<And>j. claimable (eng_worker_id E) ?u j (store w) \<Longrightarrow> claimable (eng_worker_id E) ?u j (store w1)"
      "\<And>j b. key_open (job_key_of ?u j b) (wqueue w1) = key_open (job_key_of ?u j b) (wqueue w)"
    using gone other by (auto simp: ended_def moved_def)
  then show "in_flight w1 ?u = in_flight w ?u" by simp
  from can show "can_readmit log (claimable (eng_worker_id E)) body x w1"
    by (auto simp: can_readmit_def continuable_def same elim!: can_go_mono split: option.splits)
qed

lemma yields_recover_each:
  assumes "calm healthy w" and "distinct (map exec_workflow_id xs)"
    and "list_all (\<lambda>x. can_readmit log (claimable (eng_worker_id E)) body x w) xs"
    and "\<And>x. x \<in> set xs \<Longrightarrow> in_flight w (exec_workflow_id x) = m (exec_workflow_id x)"
    and "over_recovery step_hangs m body xs < permits_left (eng_priority E) (wqueue w)"
  shows "yields (recovery_sched (eng_priority E) (next_task (wqueue w)) m body xs) (recover_each E xs n) w
    (\<lambda>r w'. \<exists>evs. recovery m body xs n = (evs, r) \<and>
      (\<forall>u. log u (store w') = log u (store w) @ filter (\<lambda>e. event_workflow_id e = u) evs))"
  using assms
proof (induction xs arbitrary: w n)
  case Nil
  then show ?case by (auto intro: yields_ret)
next
  case (Cons x xs)
  let ?wid = "exec_workflow_id x" and ?i = "exec_step_index x"
  let ?sts = "rest_of m ?wid ?i" and ?k = "unat ?i"
  let ?calls = "over_steps step_calls (body ?wid) (exec_attempt x) ?k ?sts"
  let ?hangs = "over_steps step_hangs (body ?wid) (exec_attempt x) ?k ?sts"
  have m: "rest_of (in_flight w) ?wid ?i = ?sts" "continued_step (in_flight w) body x = continued_step m body x"
    using Cons.prems(4) [of x] by (simp_all add: rest_of_def continued_step_def)
  obtain evs e where step: "continued_step m body x = (evs, e)" by fastforce
  have own: "filter (\<lambda>e. event_workflow_id e = u) evs = (if u = ?wid then evs else [])" for u
    using continued_step_own [OF step] by (auto simp: list_all_iff filter_empty_conv)
  let ?evs = "WorkerRecovered ?wid ?i # evs"
  have go: "yields ([[], []] @ continued_sched (eng_priority E) (next_task (wqueue w)) (body ?wid) (exec_attempt x) ?k ?sts)
      (readmit_after_worker_recovery E ?wid ?i (exec_attempt x)) w
      (\<lambda>r w1. r = run_value e \<and> gone ?wid ?evs e ?calls ?hangs w w1)"
    by (rule yields_mono [OF yields_readmit [OF Cons.prems(1), of body x, unfolded m step]])
      (use Cons.prems(3,5) in auto)
  have log1: "log u (store w1) = log u (store w) @ filter (\<lambda>e. event_workflow_id e = u) ?evs"
    if "gone ?wid ?evs e ?calls ?hangs w w1" for u w1
    using that by (auto simp: ended_def moved_def own)
  have "yields (([[], []] @ continued_sched (eng_priority E) (next_task (wqueue w)) (body ?wid) (exec_attempt x) ?k ?sts) @
      (case e of RunFailed r \<Rightarrow> [] | _ \<Rightarrow> recovery_sched (eng_priority E) (next_task (wqueue w) + ?calls) m body xs))
    (recover_each E (x # xs) n) w
    (\<lambda>r w'. \<exists>evs. recovery m body (x # xs) n = (evs, r) \<and>
      (\<forall>u. log u (store w') = log u (store w) @ filter (\<lambda>e. event_workflow_id e = u) evs))"
    unfolding recover_each.simps
  proof (rule yields_bind [OF go], goal_cases)
    case (1 a w1)
    then have gone: "gone ?wid ?evs e ?calls ?hangs w w1" by simp
    have going: "\<And>r. e \<noteq> RunFailed r" using 1 by auto
    have distinct: "distinct (map exec_workflow_id xs)" using Cons.prems(2) by simp
    have other: "can_readmit log (claimable (eng_worker_id E)) body y w1 \<and>
        in_flight w1 (exec_workflow_id y) = m (exec_workflow_id y)" if "y \<in> set xs" for y
    proof -
      have "exec_workflow_id y \<noteq> ?wid" using Cons.prems(2) that by (metis distinct.simps(2) imageI list.simps(9) set_map)
      with ended_readmit [OF gone this, of body] Cons.prems(3) Cons.prems(4) [of y] that
      show ?thesis by (simp add: list_all_iff)
    qed
    have calm: "calm healthy w1" and task: "next_task (wqueue w1) = next_task (wqueue w) + ?calls"
      and room: "permits_left (eng_priority E) (wqueue w1) + ?hangs = permits_left (eng_priority E) (wqueue w)"
      using gone by (simp_all add: ended_def moved_def calm_def)
    have "over_recovery step_hangs m body xs < permits_left (eng_priority E) (wqueue w1)"
      using Cons.prems(5) room going step by (cases e) auto
    from Cons.IH [OF calm distinct _ _ this, of "n + 1"] other
    have "yields (recovery_sched (eng_priority E) (next_task (wqueue w) + ?calls) m body xs)
        (recover_each E xs (n + 1)) w1
        (\<lambda>r w'. \<exists>evs. recovery m body xs (n + 1) = (evs, r) \<and>
          (\<forall>u. log u (store w') = log u (store w1) @ filter (\<lambda>e. event_workflow_id e = u) evs))"
      by (simp add: task list_all_iff)
    then have "yields (recovery_sched (eng_priority E) (next_task (wqueue w) + ?calls) m body xs)
        (recover_each E xs (n + 1)) w1
        (\<lambda>r w'. \<exists>evs. recovery m body (x # xs) n = (evs, r) \<and>
          (\<forall>u. log u (store w') = log u (store w) @ filter (\<lambda>e. event_workflow_id e = u) evs))"
      by (rule yields_mono) (use going step log1 [OF gone] in \<open>cases e; auto\<close>)
    with going show ?case by (cases e) auto
  next
    case (2 e' w1)
    then show ?case using log1 step by (cases e) auto
  next
    case (3 w1)
    then show ?case by (cases e) simp_all
  qed
  then show ?case by (simp add: step Let_def)
qed

lemma yields_recover:
  assumes calm: "calm healthy w" and lost: "expired_leases ops (wall w) (store w) = (Ok xs, store w)"
    and "distinct (map exec_workflow_id xs)"
    and "list_all (\<lambda>x. can_readmit log (claimable (eng_worker_id E)) body x w) xs"
    and "over_recovery step_hangs (in_flight w) body xs < permits_left (eng_priority E) (wqueue w)"
  shows "yields ([] # recovery_sched (eng_priority E) (next_task (wqueue w)) (in_flight w) body xs) (recover E) w
    (\<lambda>r w'. \<exists>evs. recovery (in_flight w) body xs 0 = (evs, r) \<and>
      (\<forall>u. log u (store w') = log u (store w) @ filter (\<lambda>e. event_workflow_id e = u) evs))"
  unfolding recover_def
  by (rule yields_step [OF _ yields_recover_each [OF calm assms(3,4) refl assms(5)]])
    (simp add: store_call_def eatom_def ebind_def eyield_def env_run_def eng_ops lost)

end

locale resuming_engine = healthy_engine + resuming_store
begin

lemma yields_resume:
  fixes i :: usize
  defines "k \<equiv> unat i"
  assumes calm: "calm healthy w"
    and waiting: "step_status_from_events (log wid (store w)) i = StWaiting r"
    and a: "current_attempt_from_events (log wid (store w)) i = a"
    and can: "continuable log (claimable (eng_worker_id E)) body wid steps fns i a w"
    and room: "over_steps step_hangs body a k (drop k steps) < permits_left (eng_priority E) (wqueue w)"
  shows "yields ([[], [], []] @ continued_sched (eng_priority E) (next_task (wqueue w)) body a k (drop k steps))
    (resume E wid i inp) w
    (\<lambda>r w'. \<exists>evs e. reference wid body a k (drop k steps) = (evs, e) \<and> r = run_value e \<and>
      gone wid (StepResumed wid i inp # evs) e (over_steps step_calls body a k (drop k steps))
        (over_steps step_hangs body a k (drop k steps)) w w')"
proof -
  have m: "in_flight w wid = Some \<lparr>running_steps = steps, running_bodies = fns\<rparr>"
    and i: "unat i < length steps" "unat i < length fns"
    and open_log: "\<not> workflow_is_cancelled (log wid (store w))"
    using can cancelled_is_terminal by (auto simp: continuable_def)
  have healthy: "healthy (store w)" using calm by (simp add: calm_def)
  have "yields ([] # [] @ continued_sched (eng_priority E) (next_task (wqueue w)) body a (unat i) (drop (unat i) steps))
      (ebind (store_append E (StepResumed wid i inp)) (\<lambda>_.
        run_and_continue E wid i (steps ! unat i) (fns ! unat i) a)) w
      (\<lambda>r w'. \<exists>evs e. reference wid body a (unat i) (drop (unat i) steps) = (evs, e) \<and> r = run_value e \<and>
        gone wid (StepResumed wid i inp # evs) e (over_steps step_calls body a (unat i) (drop (unat i) steps))
          (over_steps step_hangs body a (unat i) (drop (unat i) steps)) w w')"
    by (rule yields_append_continue [OF calm _ _ _ _ can])
      (use room in \<open>auto simp: ends_step_def is_terminal_def k_def intro: resumed_healthy [OF healthy]\<close>)
  then show ?thesis
    unfolding k_def
    by (rule yields_step [rotated])
      (use i open_log in \<open>simp add: resume_def store_load_def store_call_def load_healthy [OF healthy] eng_ops
        waiting a mounted_steps_and_bodies_def m eatom_def ebind_def eyield_def env_run_def\<close>)
qed

end

interpretation sqlite_live: resuming_engine sqlite_ops sqlite_healthy sqlite_log sqlite_claimable
    "engine_with sqlite_ops worker ttl prio" for worker ttl prio
  by unfold_locales (simp add: engine_with_def)

interpretation mem_live: healthy_engine mem_ops mem_inv mem_log mem_claimable
    "engine_with mem_ops worker ttl prio" for worker ttl prio
  by unfold_locales (simp add: engine_with_def)

interpretation log_live: resuming_engine log_ops "\<lambda>_. True" log_of "\<lambda>_ _ _ _. True"
    "engine_with log_ops worker ttl prio" for worker ttl prio
  by unfold_locales (simp add: engine_with_def)

end
