(* ===== verification/PlannedRuns.thy ===== *)
theory PlannedRuns
  imports EngineLiveness
begin

text \<open>
  The runs in which every step succeeds within the attempts it has, written out: the plan of a step is the
  failures of its body and then its output, and a run adds exactly the history of these attempts and completes
  the workflow.  They are the runs of \<open>WorkflowReference\<close> whose scripts play the plans.
\<close>

section \<open>Plans\<close>

text \<open>A step of the plan: the failures of its body, in order, and then its output.\<close>

type_synonym step_plan = "string list \<times> string"

definition attempt_sched :: "priority \<Rightarrow> nat \<Rightarrow> job_result \<Rightarrow> sched" where
  "attempt_sched p t r = [[], [], [], map EQueue (job_round p t r), []]"

fun step_sched :: "priority \<Rightarrow> step_def \<Rightarrow> u32 \<Rightarrow> nat \<Rightarrow> string list \<Rightarrow> string \<Rightarrow> sched" where
  "step_sched p st a t [] out = attempt_sched p t (Ok out)"
| "step_sched p st a t (r # rs) out =
     attempt_sched p t (Err r) @ ([[]] @ pause_sched (backoff_duration (step_retry_policy st) a) @ [[]]) @
       step_sched p st (a + 1) (Suc t) rs out"

fun step_history :: "string \<Rightarrow> usize \<Rightarrow> u32 \<Rightarrow> string list \<Rightarrow> string \<Rightarrow> event list" where
  "step_history wid i a [] out = [StepStarted wid i a, StepCompleted wid i out]"
| "step_history wid i a (r # rs) out =
     [StepStarted wid i a, StepFailed wid i r, RetryScheduled wid i (a + 1)] @
       step_history wid i (a + 1) rs out"

text \<open>The plan can be carried out from attempt \<open>a\<close> on: enough attempts, plain failures, no timeout of length zero.\<close>

definition plan_fits :: "u32 \<Rightarrow> step_def \<Rightarrow> step_plan \<Rightarrow> bool" where
  "plan_fits a st p \<longleftrightarrow>
     unat a + length (fst p) < unat (max_attempts (step_retry_policy st)) \<and>
     list_all (\<lambda>r. parse_waiting_reason r = None \<and> parse_non_retryable_reason r = None) (fst p) \<and>
     (case step_timeout st of None \<Rightarrow> True | Some d \<Rightarrow> 0 < nanos_of d)"

fun plan_sched :: "priority \<Rightarrow> nat \<Rightarrow> step_def list \<Rightarrow> step_plan list \<Rightarrow> sched" where
  "plan_sched p t (st # sts) (pl # pls) =
     [[]] @ step_sched p st 0 t (fst pl) (snd pl) @ plan_sched p (t + Suc (length (fst pl))) sts pls"
| "plan_sched p t sts pls = [[], [], [], []]"

fun plan_history :: "string \<Rightarrow> nat \<Rightarrow> step_plan list \<Rightarrow> event list" where
  "plan_history wid k [] = [WorkflowCompleted wid]"
| "plan_history wid k (pl # pls) =
     step_history wid (of_nat k) 0 (fst pl) (snd pl) @ plan_history wid (Suc k) pls"

text \<open>
  The rest of a run from attempt \<open>a\<close> of step \<open>i\<close> on, as \<open>resume\<close> and recovery carry it out: the
  workflow is mounted and open, and the plan for step \<open>i\<close> and those after it fits.
\<close>

definition continue_sched ::
    "priority \<Rightarrow> nat \<Rightarrow> step_def list \<Rightarrow> usize \<Rightarrow> u32 \<Rightarrow> step_plan \<Rightarrow> step_plan list \<Rightarrow> sched" where
  "continue_sched p t steps i a pl pls =
     step_sched p (steps ! unat i) a t (fst pl) (snd pl) @
       [[]] @ plan_sched p (t + Suc (length (fst pl))) (drop (Suc (unat i)) steps) pls"

definition continue_history :: "string \<Rightarrow> usize \<Rightarrow> u32 \<Rightarrow> step_plan \<Rightarrow> step_plan list \<Rightarrow> event list" where
  "continue_history wid i a pl pls =
     step_history wid i a (fst pl) (snd pl) @ plan_history wid (Suc (unat i)) pls"

definition can_continue ::
    "(string \<Rightarrow> 's \<Rightarrow> event list) \<Rightarrow> (usize \<Rightarrow> 's \<Rightarrow> bool) \<Rightarrow> string \<Rightarrow> step_def list \<Rightarrow> func list
     \<Rightarrow> usize \<Rightarrow> u32 \<Rightarrow> step_plan \<Rightarrow> step_plan list \<Rightarrow> 's world \<Rightarrow> bool" where
  "can_continue log free wid steps bodies i a pl pls w \<longleftrightarrow>
     in_flight w wid = Some \<lparr>running_steps = steps, running_bodies = bodies\<rparr> \<and>
     length steps \<le> 2 ^ 64 \<and> length bodies = length steps \<and> unat i < length steps \<and>
     \<not> workflow_has_terminal_event (log wid (store w)) \<and>
     (\<forall>b. unat a \<le> unat b \<longrightarrow> key_open (job_key_of wid i b) (wqueue w)) \<and>
     (\<forall>j. Suc (unat i) \<le> j \<longrightarrow> j < length steps \<longrightarrow> free (of_nat j) (store w) \<and>
        (\<forall>b. key_open (job_key_of wid (of_nat j) b) (wqueue w))) \<and>
     plan_fits a (steps ! unat i) pl \<and> list_all2 (plan_fits 0) (drop (Suc (unat i)) steps) pls"

section \<open>Scripts that play a plan\<close>

fun plays :: "script \<Rightarrow> u32 \<Rightarrow> string list \<Rightarrow> string \<Rightarrow> bool" where
  "plays s a [] out \<longleftrightarrow> s a = Ends (Ok out)"
| "plays s a (r # rs) out \<longleftrightarrow> s a = Ends (Err r) \<and> plays s (a + 1) rs out"

fun play :: "u32 \<Rightarrow> string list \<Rightarrow> string \<Rightarrow> script" where
  "play a [] out = (\<lambda>_. Ends (Ok out))"
| "play a (r # rs) out = (play (a + 1) rs out)(a := Ends (Err r))"

lemma unat_next:
  fixes a mx :: u32
  assumes lt: "unat a < unat mx"
  shows "unat (a + 1) = Suc (unat a)"
proof -
  have "a < mx" using lt by (simp add: word_less_nat_alt)
  then have "a \<noteq> - 1" using word_n1_ge [of mx] by (metis leD)
  then show ?thesis by (metis add.commute add_eq_0_iff unatSuc)
qed

lemma plan_fits_Nil:
  "plan_fits a st ([], out) \<longleftrightarrow> unat a < unat (max_attempts (step_retry_policy st)) \<and>
     (case step_timeout st of None \<Rightarrow> True | Some d \<Rightarrow> 0 < nanos_of d)"
  by (simp add: plan_fits_def)

lemma plan_fits_Cons:
  "plan_fits a st (r # rs, out) \<longleftrightarrow> a + 1 < max_attempts (step_retry_policy st) \<and> unat (a + 1) = Suc (unat a) \<and>
     parse_waiting_reason r = None \<and> parse_non_retryable_reason r = None \<and> plan_fits (a + 1) st (rs, out)"
  using unat_next [of a "max_attempts (step_retry_policy st)"] by (auto simp: plan_fits_def word_less_nat_alt)

lemma play_later: "unat a < unat b \<Longrightarrow> plan_fits b st (rs, out) \<Longrightarrow>
    plays s b rs out \<Longrightarrow> plays (s(a := x)) b rs out"
  by (induction rs arbitrary: b) (auto simp: plan_fits_Cons)

lemma plays_play: "plan_fits a st (rs, out) \<Longrightarrow> plays (play a rs out) a rs out"
  by (induction rs arbitrary: a) (auto simp: plan_fits_Cons intro!: play_later)

lemma plan_retries:
  "plan_fits a st (r # rs, out) \<Longrightarrow> plays s a (r # rs) out \<Longrightarrow> verdict_of st s a = Retries r"
  by (simp add: verdict_of_def attempt_outcome_def plan_fits_Cons)

lemma plan_timely: "plan_fits a st (r # rs, out) \<Longrightarrow> plays s a (r # rs) out \<Longrightarrow> timely st (s a)"
  by (simp add: plan_fits_def timely_def split: option.splits)

lemma plan_step:
  assumes "plan_fits a st (rs, out)" and "plays s a rs out"
  shows "step_events wid i st s a = step_history wid i a rs out"
    and "step_verdict st s a = Done out"
    and "step_calls st s a = Suc (length rs)" and "step_hangs st s a = 0"
    and "script_sched p t st s a = step_sched p st a t rs out"
    and "list_all (\<lambda>b. unat a \<le> unat b \<and> timely st (s b)) (tried st s a)"
  using assms
proof (induction rs arbitrary: a t)
  case Nil
  case 1 then show ?case by (simp add: step_ends verdict_of_def attempt_outcome_def)
next
  case Nil
  case 2 then show ?case by (simp add: step_ends verdict_of_def attempt_outcome_def)
next
  case Nil
  case 3 then show ?case by (simp add: counts_end verdict_of_def attempt_outcome_def)
next
  case Nil
  case 4 then show ?case by (simp add: counts_end verdict_of_def attempt_outcome_def)
next
  case Nil
  case 5 then show ?case
    by (simp add: script_sched_def tried_ends verdict_of_def attempt_outcome_def body_chunk_def attempt_sched_def)
next
  case Nil
  case 6 then show ?case
    by (simp add: tried_ends verdict_of_def attempt_outcome_def timely_def plan_fits_Nil split: option.splits)
next
  case (Cons r rs)
  case 1
  then show ?case using Cons.IH(1) by (simp add: step_retries(1) [OF plan_retries [OF 1]] plan_fits_Cons)
next
  case (Cons r rs)
  case 2
  then show ?case using Cons.IH(2) by (simp add: step_retries(2) [OF plan_retries [OF 2]] plan_fits_Cons)
next
  case (Cons r rs)
  case 3
  then show ?case using Cons.IH(3) by (simp add: counts_retry(1) [OF plan_retries [OF 3]] plan_fits_Cons)
next
  case (Cons r rs)
  case 4
  then show ?case using Cons.IH(4) by (simp add: counts_retry(2) [OF plan_retries [OF 4]] plan_fits_Cons)
next
  case (Cons r rs)
  case 5
  then show ?case
    using Cons.IH(5) [of "a + 1"] plan_retries [OF 5]
    by (simp add: script_sched_def tried_retries [OF plan_retries [OF 5]] plan_fits_Cons body_chunk_def attempt_sched_def)
next
  case (Cons r rs)
  case 6
  then show ?case
    using Cons.IH(6) [of "a + 1"] plan_timely [OF 6]
    by (auto simp: tried_retries [OF plan_retries [OF 6]] plan_fits_Cons list_all_iff)
qed

text \<open>The steps of a workflow, each with its plan.\<close>

definition plays_all :: "(usize \<Rightarrow> script) \<Rightarrow> nat \<Rightarrow> step_plan list \<Rightarrow> bool" where
  "plays_all body k pls \<longleftrightarrow>
     (\<forall>j<length pls. plays (body (of_nat (k + j))) 0 (fst (pls ! j)) (snd (pls ! j)))"

lemma plays_all_Cons:
  "plays_all body k (pl # pls) \<longleftrightarrow> plays (body (of_nat k)) 0 (fst pl) (snd pl) \<and> plays_all body (Suc k) pls"
  by (simp add: plays_all_def All_less_Suc2 ac_simps)

lemma plan_steps:
  assumes "list_all2 (plan_fits 0) sts pls" and "plays_all body k pls"
  shows "reference wid body 0 k sts = (plan_history wid k pls, RunCompleted) \<and>
    over_steps step_hangs body 0 k sts = 0 \<and>
    steps_sched p t body k sts = plan_sched p t sts pls"
  using assms
proof (induction arbitrary: k t rule: list_all2_induct)
  case (Cons st sts pl pls)
  then have fits: "plan_fits 0 st (fst pl, snd pl)" and plays: "plays (body (of_nat k)) 0 (fst pl) (snd pl)"
    and rest: "plays_all body (Suc k) pls"
    by (simp_all add: plays_all_Cons)
  from Cons.IH [OF rest] show ?case by (simp add: plan_step [OF fits plays])
qed simp

lemma plan_can_go:
  assumes "\<And>j. k \<le> j \<Longrightarrow> j < k + length sts \<Longrightarrow> free (of_nat j) \<and> (\<forall>b. fresh (job_key_of wid (of_nat j) b))"
    and "list_all2 (plan_fits 0) sts pls" and "plays_all body k pls"
  shows "can_go free fresh wid body 0 k sts"
  using assms(2,3,1)
proof (induction arbitrary: k rule: list_all2_induct)
  case (Cons st sts pl pls)
  then have fits: "plan_fits 0 st (fst pl, snd pl)" and plays: "plays (body (of_nat k)) 0 (fst pl) (snd pl)"
    and rest: "plays_all body (Suc k) pls"
    by (simp_all add: plays_all_Cons)
  from Cons.IH [OF rest] Cons.prems(2) plan_step(6) [OF fits plays] show ?case
    by (auto simp: list_all_iff)
qed simp

text \<open>A script for a plan of step \<open>i\<close> from attempt \<open>a\<close> on, and of the steps after it.\<close>

definition plan_body :: "nat \<Rightarrow> step_plan list \<Rightarrow> usize \<Rightarrow> script" where
  "plan_body k pls i = (case pls ! (unat i - k) of (rs, out) \<Rightarrow> play 0 rs out)"

lemma plan_body_plays:
  assumes "list_all2 (plan_fits 0) sts pls" and "k + length sts \<le> 2 ^ 64"
  shows "plays_all (plan_body k pls) k pls"
  unfolding plays_all_def
proof (intro allI impI)
  fix j
  assume j: "j < length pls"
  then have "unat (of_nat (k + j) :: usize) = k + j"
    using assms by (intro unat_of_nat_u64) (auto dest: list_all2_lengthD)
  moreover have "plan_fits 0 (sts ! j) (fst (pls ! j), snd (pls ! j))"
    using assms(1) j by (simp add: list_all2_conv_all_nth)
  ultimately show "plays (plan_body k pls (of_nat (k + j))) 0 (fst (pls ! j)) (snd (pls ! j))"
    using plays_play by (cases "pls ! j") (simp add: plan_body_def)
qed

definition continue_body :: "usize \<Rightarrow> u32 \<Rightarrow> step_plan \<Rightarrow> step_plan list \<Rightarrow> usize \<Rightarrow> script" where
  "continue_body i a pl pls = (plan_body (Suc (unat i)) pls)(i := play a (fst pl) (snd pl))"

lemma plan_continues:
  fixes i :: usize
  assumes can: "can_continue log (free wid) wid steps fns i a pl pls w"
  defines "body \<equiv> continue_body i a pl pls" and "k \<equiv> unat i"
  shows "reference wid body a k (drop k steps) = (continue_history wid i a pl pls, RunCompleted)"
    and "over_steps step_hangs body a k (drop k steps) = 0"
    and "continued_sched p t body a k (drop k steps) = continue_sched p t steps i a pl pls"
    and "continuable log free body wid steps fns i a w"
proof -
  let ?sts = "drop (Suc k) steps"
  from can have fits: "plan_fits a (steps ! k) (fst pl, snd pl)" and rest: "list_all2 (plan_fits 0) ?sts pls"
    and k: "k < length steps" and steps: "length steps \<le> 2 ^ 64"
    by (simp_all add: can_continue_def k_def)
  have drop: "drop k steps = steps ! k # ?sts" using k by (simp add: Cons_nth_drop_Suc)
  have i: "of_nat k = i" by (simp add: k_def)
  have plays: "plays (body i) a (fst pl) (snd pl)"
    using plays_play [OF fits] by (simp add: body_def continue_body_def)
  have "plays_all (plan_body (Suc k) pls) (Suc k) pls"
    using plan_body_plays [OF rest] steps k by simp
  moreover have "body (of_nat (Suc k + j)) = plan_body (Suc k) pls (of_nat (Suc k + j))" if "j < length pls" for j
  proof -
    have "unat (of_nat (Suc k + j) :: usize) = Suc k + j"
      using that steps k rest by (intro unat_of_nat_u64) (auto dest: list_all2_lengthD)
    then have "of_nat (Suc k + j) \<noteq> i" by (metis k_def less_add_Suc1 add_Suc less_irrefl)
    then show ?thesis by (simp add: body_def continue_body_def k_def)
  qed
  ultimately have rest_plays: "plays_all body (Suc k) pls" by (simp add: plays_all_def)
  note steps_facts = plan_steps [OF rest rest_plays] plan_step [OF fits plays]
  show "reference wid body a k (drop k steps) = (continue_history wid i a pl pls, RunCompleted)"
    "over_steps step_hangs body a k (drop k steps) = 0"
    "continued_sched p t body a k (drop k steps) = continue_sched p t steps i a pl pls"
    by (simp_all add: drop i steps_facts continue_history_def continue_sched_def k_def [symmetric])
  have "can_go (\<lambda>j. j \<noteq> i \<longrightarrow> free wid j (store w)) (\<lambda>k. key_open k (wqueue w)) wid body 0 (Suc k) ?sts"
    by (rule plan_can_go [OF _ rest rest_plays]) (use can in \<open>auto simp: can_continue_def k_def\<close>)
  then show "continuable log free body wid steps fns i a w"
    using can plan_step(6) [OF fits plays]
    by (auto simp: continuable_def can_continue_def drop i list_all_iff k_def [symmetric])
qed

end
