(* ===== verification/LeaseRenewal.thy ===== *)
theory LeaseRenewal
  imports EngineSystem HealthyStore EngineTiming
begin

text \<open>
  Renewal keeps the lease: while the engine waits for a job and its renewal task ticks, every poll
  writes the lease anew before the last one runs out, so that no other worker gets the step however
  long the body takes.
\<close>

section \<open>What the store does for it\<close>

locale keeping_store =
  fixes ops :: "'s durable_ops"
    and healthy :: "'s \<Rightarrow> bool"
    and lease :: "string \<Rightarrow> usize \<Rightarrow> 's \<Rightarrow> lease_view"
  assumes renew_kept:
      "healthy s \<Longrightarrow> clock_ok now \<Longrightarrow> lease w i s = Held v t \<Longrightarrow>
         \<exists>s'. renew_lease ops w i v ttl now s = (Ok (), s') \<and> healthy s' \<and>
           lease w i s' = Held v (lease_expiry now ttl)"
    and claim_kept:
      "healthy s \<Longrightarrow> clock_ok now \<Longrightarrow> lease w i s = Held v t \<Longrightarrow> now < t \<Longrightarrow> v' \<noteq> v \<Longrightarrow>
         claim_step ops w' i' v' ttl' now s = (r, s') \<Longrightarrow>
         healthy s' \<and> lease w i s' = Held v t \<and> (w' = w \<longrightarrow> i' = i \<longrightarrow> r = Ok HeldByOther)"
    and append_kept:
      "healthy s \<Longrightarrow> event_workflow_id e \<noteq> w \<Longrightarrow> append_event ops e now s = (ra, s') \<Longrightarrow>
         healthy s' \<and> lease w i s' = lease w i s"

lemma lease_of_appended_other:
  "event_workflow_id e \<noteq> w \<Longrightarrow> lease_of w i (appended e now d) = lease_of w i d"
  by (cases e) (auto simp: lease_of_def appended_def)

interpretation sqk: keeping_store sqlite_ops sqlite_healthy sqlite_lease
proof (unfold_locales, goal_cases)
  case (1 s now w i v t ttl)
  then have sm: "smooth s" and inv: "sqlite_inv s" by (simp_all add: sqlite_healthy_def)
  from 1(3) obtain r where r: "select_step w i (conn_db s) = Some r" "row_status r = ''leased''"
    by (auto simp: sqlite_lease_def lease_of_def split: option.splits if_splits)
  have ok: "db_ok (conn_db s)" using inv by (simp add: sqlite_inv_def)
  obtain h where h: "row_worker_id r = Some h"
    using lease_row_okE [OF select_step_ok [OF ok r(1)] r(2)] by metis
  with 1(3) r have "row_worker_id r = Some v" by (simp add: sqlite_lease_def lease_of_def)
  from sq_totalD [OF total_renew [OF r this] sm, of ttl now]
  obtain s' where run: "sqlite_renew_lease w i v ttl now s = (Ok (), s')" "smooth s'" by auto
  with sq_runsD [OF runs_renew run(1)] sq.renew_law [OF inv 1(2), of w i v ttl "Ok ()" s'] 1(2)
  show ?case by (auto simp: sqlite_healthy_def sqlite_lease_def lease_of_renewed_db)
next
  case (2 s now w i v t v' w' i' ttl' r s')
  then have sm: "smooth s" and inv: "sqlite_inv s" by (simp_all add: sqlite_healthy_def)
  then have ok: "db_ok (conn_db s)" by (simp add: sqlite_inv_def)
  from sq_totalD [OF total_claim [OF ok] sm, of w' i' v' ttl' now] 2(6)
  obtain c where run: "r = Ok c" "smooth s'" by auto
  with sq.claim_lease [OF inv 2(2), of w' i' v' ttl' c s'] sq.claim_law [OF inv 2(2), of w' i' v' ttl' "Ok c" s'] 2
  show ?case by (auto simp: sqlite_healthy_def)
next
  case (3 s e w now r s' i)
  then have sm: "smooth s" and inv: "sqlite_inv s" by (simp_all add: sqlite_healthy_def)
  from sq_totalD [OF total_append sm, of e now] 3(3)
  obtain a where run: "r = Ok a" "smooth s'" by auto
  with sq.append_law [OF inv, of e now r s'] sq_runsD [OF runs_append, of e now s r s'] 3
  show ?case by (auto simp: sqlite_healthy_def sqlite_lease_def lease_of_appended_other)
qed

section \<open>Beats\<close>

text \<open>
  A beat of length \<open>p\<close>: both clocks advance by \<open>p\<close>, other workers and other workflows do what they
  do, and the renewal task is woken.
\<close>

fun beats :: "nat \<Rightarrow> system_time \<Rightarrow> env_action list list \<Rightarrow> sched" where
  "beats p t [] = []"
| "beats p t (acts # rest) =
     ([EWall (t + int p), ETick p] @ acts @ [ERenewTick]) # beats p (t + int p) rest"

text \<open>What other workers do: claim any step, and record events of other workflows.\<close>

fun elsewhere :: "string \<Rightarrow> string \<Rightarrow> env_action \<Rightarrow> bool" where
  "elsewhere v wid (EClaim w' i' v' ttl') \<longleftrightarrow> v' \<noteq> v"
| "elsewhere v wid (EAppend e) \<longleftrightarrow> event_workflow_id e \<noteq> wid"
| "elsewhere v wid (EMount w' r) \<longleftrightarrow> True"
| "elsewhere v wid (EUnmount w') \<longleftrightarrow> True"
| "elsewhere v wid a \<longleftrightarrow> False"

text \<open>The lease is held and lasts longer than \<open>p\<close>; the next tick of the renewal task is due within \<open>p\<close>.\<close>

definition holding ::
    "('s \<Rightarrow> bool) \<Rightarrow> (string \<Rightarrow> usize \<Rightarrow> 's \<Rightarrow> lease_view) \<Rightarrow> string \<Rightarrow> string \<Rightarrow> usize \<Rightarrow> nat \<Rightarrow> 's world \<Rightarrow> bool" where
  "holding healthy lease v wid i p w \<longleftrightarrow>
     healthy (store w) \<and> clock_ok (wall w) \<and>
     (\<exists>t. lease wid i (store w) = Held v t \<and> wall w + int p < t) \<and>
     (\<exists>r. renewal_task w = Some r \<and> ren_period r = p \<and> ren_next r \<le> clock w + p)"

text \<open>Before a poll the lease may be that short, if a message asks for its renewal.\<close>

definition due ::
    "('s \<Rightarrow> bool) \<Rightarrow> (string \<Rightarrow> usize \<Rightarrow> 's \<Rightarrow> lease_view) \<Rightarrow> string \<Rightarrow> string \<Rightarrow> usize \<Rightarrow> nat \<Rightarrow> 's world \<Rightarrow> bool" where
  "due healthy lease v wid i p w \<longleftrightarrow>
     healthy (store w) \<and> clock_ok (wall w) \<and>
     (\<exists>t r. lease wid i (store w) = Held v t \<and> wall w < t \<and>
        renewal_task w = Some r \<and> ren_period r = p \<and> ren_next r \<le> clock w + p \<and>
        (ren_pending r = 0 \<longrightarrow> wall w + int p < t))"

lemma holding_due: "holding h l v wid i p w \<Longrightarrow> due h l v wid i p w"
  unfolding holding_def due_def by fastforce

lemma clock_ok_earlier: "clock_ok b \<Longrightarrow> 0 \<le> a \<Longrightarrow> a \<le> b \<Longrightarrow> clock_ok a"
  using zdiv_mono1 [of a b 1000000000] by (simp add: clock_ok_def system_time_ok_def)

lemma clock_ok_nonneg: "clock_ok t \<Longrightarrow> 0 \<le> t"
  by (simp add: clock_ok_def)

locale keeping_engine = keeping_store +
  fixes E :: "'a engine"
  assumes eng_ops: "eng_ops E = ops"
begin

text \<open>While a lease lasts, nobody else touches it.\<close>

lemma elsewhere_keeps:
  assumes "healthy (store w)" "clock_ok (wall w)" "lease wid i (store w) = Held v t" "wall w < t"
    and "list_all (elsewhere v wid) acts"
  shows "healthy (store (env_run E acts w)) \<and> lease wid i (store (env_run E acts w)) = Held v t \<and>
    wall (env_run E acts w) = wall w \<and> clock (env_run E acts w) = clock w \<and>
    renewal_task (env_run E acts w) = renewal_task w \<and> wqueue (env_run E acts w) = wqueue w"
  using assms
proof (induction acts arbitrary: w)
  case Nil
  then show ?case by (simp add: env_run_def)
next
  case (Cons a acts)
  let ?w = "env_act E a w"
  have "healthy (store ?w) \<and> lease wid i (store ?w) = Held v t \<and> wall ?w = wall w \<and> clock ?w = clock w \<and>
      renewal_task ?w = renewal_task w \<and> wqueue ?w = wqueue w"
  proof (cases a)
    case (EClaim w' i' v' ttl')
    obtain r s' where "claim_step ops w' i' v' ttl' (wall w) (store w) = (r, s')" by fastforce
    with claim_kept [OF Cons.prems(1-4), of v' w' i' ttl' r s'] Cons.prems(3,5) EClaim show ?thesis
      by (simp add: eng_ops)
  next
    case (EAppend e)
    obtain r s' where "append_event ops e (wall w) (store w) = (r, s')" by fastforce
    with append_kept [OF Cons.prems(1), of e wid "wall w" r s' i] Cons.prems EAppend show ?thesis
      by (simp add: eng_ops)
  qed (use Cons.prems in simp_all)
  with Cons.IH [of ?w] Cons.prems show ?case by (simp add: env_run_def)
qed

lemma poll_renews:
  assumes due: "due healthy lease (eng_worker_id E) wid i p w"
    and ttl: "clock_ok (wall w + int (nanos_of (eng_lease_ttl E)))" "p < nanos_of (eng_lease_ttl E)"
    and waiting: "poll_handle rx (wqueue w) = Blocked"
    and early: "case deadline of None \<Rightarrow> True | Some (at, d) \<Rightarrow> clock w < at"
  shows "\<exists>w1. job_poll E wid i rx deadline w = (Blocked, w1) \<and>
    holding healthy lease (eng_worker_id E) wid i p w1 \<and>
    wall w1 = wall w \<and> clock w1 = clock w \<and> wqueue w1 = wqueue w"
proof -
  from due obtain t r where st: "healthy (store w)" "clock_ok (wall w)" "lease wid i (store w) = Held (eng_worker_id E) t"
    and r: "renewal_task w = Some r" "ren_period r = p" "ren_next r \<le> clock w + p"
    and t: "wall w < t" "ren_pending r = 0 \<longrightarrow> wall w + int p < t"
    unfolding due_def by auto
  have not_late: "\<not> (case deadline of Some (at, d) \<Rightarrow> at \<le> clock w | None \<Rightarrow> False)"
    using early by (auto split: option.splits)
  show ?thesis
  proof (cases "ren_pending r = 0")
    case True
    then show ?thesis
      using st r t waiting not_late by (auto simp: job_poll_def holding_def)
  next
    case False
    obtain s' where s': "renew_lease ops wid i (eng_worker_id E) (eng_lease_ttl E) (wall w) (store w) = (Ok (), s')"
        "healthy s'" "lease wid i s' = Held (eng_worker_id E) (lease_expiry (wall w) (eng_lease_ttl E))"
      using renew_kept [OF st] by blast
    have "lease_expiry (wall w) (eng_lease_ttl E) = wall w + int (nanos_of (eng_lease_ttl E))"
      using ttl(1) by (intro lease_expiry_eq) (simp add: clock_ok_def)
    then show ?thesis
      using False st(2) r waiting not_late s' ttl(2)
      by (auto simp: job_poll_def holding_def Let_def eng_ops)
  qed
qed

lemma beat_due:
  assumes "holding healthy lease (eng_worker_id E) wid i p w" and "0 < p" and "clock_ok (wall w + int p)"
    and "list_all (elsewhere (eng_worker_id E) wid) acts"
  defines "w' \<equiv> env_run E ([EWall (wall w + int p), ETick p] @ acts @ [ERenewTick]) w"
  shows "due healthy lease (eng_worker_id E) wid i p w'" and "wall w' = wall w + int p"
    and "clock w' = clock w + p" and "wqueue w' = wqueue w"
proof -
  from assms(1) obtain t r where st: "healthy (store w)" "lease wid i (store w) = Held (eng_worker_id E) t"
    and r: "renewal_task w = Some r" "ren_period r = p" "ren_next r \<le> clock w + p" and t: "wall w + int p < t"
    unfolding holding_def by blast
  let ?w = "w\<lparr>wall := wall w + int p, clock := clock w + p\<rparr>"
  have w': "w' = env_act E ERenewTick (env_run E acts ?w)"
    using assms(3) by (simp add: w'_def env_run_def)
  from elsewhere_keeps [of ?w wid i _ t acts] st assms(3,4) t
  have e: "healthy (store (env_run E acts ?w)) \<and> lease wid i (store (env_run E acts ?w)) = Held (eng_worker_id E) t \<and>
      wall (env_run E acts ?w) = wall w + int p \<and> clock (env_run E acts ?w) = clock w + p \<and>
      renewal_task (env_run E acts ?w) = Some r \<and> wqueue (env_run E acts ?w) = wqueue w"
    using r(1) by simp
  then show "wall w' = wall w + int p" "clock w' = clock w + p" "wqueue w' = wqueue w" by (simp_all add: w')
  have next_tick: "ren_next (renewal_tick (clock w + p) r) \<le> clock w + p + p"
  proof -
    have "(clock w + p - ren_next r) div p * p \<le> clock w + p - ren_next r" by simp
    with r(3) have "ren_next r + (clock w + p - ren_next r) div p * p \<le> clock w + p" by linarith
    then show ?thesis using r by (simp add: renewal_tick_def add_mult_distrib)
  qed
  then show "due healthy lease (eng_worker_id E) wid i p w'"
    using e r t assms(3) by (simp add: due_def w') (simp add: renewal_tick_def)
qed

lemma loop_keeps:
  assumes "due healthy lease (eng_worker_id E) wid i p w"
    and p: "0 < p" "p < nanos_of (eng_lease_ttl E)"
    and "clock_ok (wall w + int (length actss * p) + int (nanos_of (eng_lease_ttl E)))"
    and "poll_handle rx (wqueue w) = Blocked"
    and "case deadline of None \<Rightarrow> True | Some (at, d) \<Rightarrow> clock w + length actss * p < at"
    and "list_all (list_all (elsewhere (eng_worker_id E) wid)) actss"
  shows "\<exists>w'. job_loop E wid i rx deadline (beats p (wall w) actss) w = (Blocked, [], w') \<and>
    holding healthy lease (eng_worker_id E) wid i p w' \<and> wall w' = wall w + int (length actss * p)"
  using assms(1,4-)
proof (induction actss arbitrary: w)
  case Nil
  then obtain w1 where "job_poll E wid i rx deadline w = (Blocked, w1)"
      "holding healthy lease (eng_worker_id E) wid i p w1" "wall w1 = wall w"
    using poll_renews [OF Nil.prems(1) _ p(2) Nil.prems(3), of deadline] by (cases deadline) auto
  then show ?case by simp
next
  case (Cons acts actss)
  have nonneg: "0 \<le> wall w" using Cons.prems(1) by (simp add: due_def clock_ok_nonneg)
  have ok: "clock_ok (wall w + int (nanos_of (eng_lease_ttl E)))" "clock_ok (wall w + int p)"
    using nonneg p(2) by (auto intro!: clock_ok_earlier [OF Cons.prems(2)])
  obtain w1 where 1: "job_poll E wid i rx deadline w = (Blocked, w1)"
      "holding healthy lease (eng_worker_id E) wid i p w1"
      "wall w1 = wall w" "clock w1 = clock w" "wqueue w1 = wqueue w"
    using poll_renews [OF Cons.prems(1) ok(1) p(2) Cons.prems(3), of deadline] Cons.prems(4)
    by (auto split: option.splits)
  let ?w = "env_run E ([EWall (wall w1 + int p), ETick p] @ acts @ [ERenewTick]) w1"
  have 2: "due healthy lease (eng_worker_id E) wid i p ?w" "wall ?w = wall w1 + int p"
      "clock ?w = clock w1 + p" "wqueue ?w = wqueue w1"
    by (rule beat_due [OF 1(2) p(1)]; use ok(2) 1(3) Cons.prems(5) in simp)+
  have "\<exists>w'. job_loop E wid i rx deadline (beats p (wall ?w) actss) ?w = (Blocked, [], w') \<and>
      holding healthy lease (eng_worker_id E) wid i p w' \<and> wall w' = wall ?w + int (length actss * p)"
    using Cons.prems 1(3-5) 2(2-4)
    by (intro Cons.IH [OF 2(1)]) (auto simp: algebra_simps split: option.splits)
  then show ?case using 1 2(2) by (simp add: algebra_simps)
qed

end

interpretation sqlite_keeping: keeping_engine sqlite_ops sqlite_healthy sqlite_lease
    "engine_with sqlite_ops worker ttl prio" for worker ttl prio
  by unfold_locales (simp add: engine_with_def)

end
