(* ===== verification/LivenessProperties.thy ===== *)
theory LivenessProperties
  imports PlannedRuns EngineRuns LeaseRenewal
begin

text \<open>
  That the calls of the engine get to their end on a healthy \<open>SqliteStore\<close> and a queue that accepts jobs: the
  statements over the instances of \<open>EngineLiveness\<close>, each with a concrete run.
\<close>

lemma demo_steps_fit [simp]:
  "plan_fits 0 demo_step ([], out)" "plan_fits 0 demo_step ([''bad''], out)"
  by (simp_all add: plan_fits_def demo_step_def)

lemma demo_store_claimable [simp]: "sqlite_claimable v wid i demo_store"
  by (simp add: sqlite_claimable_def sqlite_lease_def)

lemma demo_store_healthy: "sqlite_healthy demo_store"
  using demo_smooth(1) demo_store_inv by (simp add: sqlite_healthy_def)

text \<open>
  C1: A run of a workflow is what the reference says, however the bodies of its steps end: from any state in which
  the database answers, the queue accepts jobs (whatever else is running on it), the steps are free for the
  worker and their keys not in use, \<open>run\<close> returns the value of the reference run (\<open>Ok\<close> when every step is done or
  one waits, \<open>WorkflowFailed\<close> with the reason when a body fails for good, its attempts are used up, it panics, or it
  hangs past its timeout); the log of the workflow is extended by exactly the start and the events of the
  reference and no other log changes; the workflow is left in flight only while it waits, and the queue still
  accepts jobs, with one permit less for each call of a body that hangs.
\<close>

lemma run_follows_reference:
  assumes "calm sqlite_healthy w" and "\<not> workflow_has_terminal_event (sqlite_log wid (store w))"
    and "length steps \<le> 2 ^ 64" and "length fns = length steps"
    and "can_go (\<lambda>i. sqlite_claimable v wid i (store w)) (\<lambda>k. key_open k (wqueue w)) wid body 0 0 steps"
    and "over_steps step_hangs body 0 0 steps < permits_left prio (wqueue w)"
    and ref: "reference wid body 0 0 steps = (evs, e)"
  shows "\<exists>w'. run (engine_with sqlite_ops v ttl prio) \<lparr>workflow_id = wid, workflow_steps = steps\<rparr> fns
      ([[], [], []] @ steps_sched prio (next_task (wqueue w)) body 0 steps) w = (Ready (run_value e), [], w') \<and>
    (\<forall>u. sqlite_log u (store w') =
       sqlite_log u (store w) @ (if u = wid then WorkflowStarted wid # evs else [])) \<and>
    in_flight w' = (in_flight w)(wid :=
      (if e = RunOpen then Some \<lparr>running_steps = steps, running_bodies = fns\<rparr> else None)) \<and>
    accepting (wqueue w') \<and>
    permits_left prio (wqueue w') = permits_left prio (wqueue w) - over_steps step_hangs body 0 0 steps"
  using yieldsD [OF sqlite_live.yields_run [where w = w and wid = wid and worker = v and ttl = ttl and prio = prio and
        steps = steps and fns = fns and body = body], of "[]"] assms
  by (auto simp: engine_with_def ended_def moved_def calm_def)

text \<open>
  C4: Resuming a waiting step continues the workflow as the reference says, however the bodies end: with
  the step waiting, the workflow mounted and not closed, \<open>resume\<close> runs the step again from the attempt the
  log gives, and then the steps after it, returns the value of the reference, and extends the log of the workflow
  by the input and the events of the reference; no other log changes, and the workflow stays in flight only if a
  step waits again.
\<close>

lemma resume_follows_reference:
  assumes "calm sqlite_healthy w"
    and "step_status_from_events (sqlite_log wid (store w)) i = StWaiting r"
    and "current_attempt_from_events (sqlite_log wid (store w)) i = a"
    and "continuable sqlite_log (sqlite_claimable v) body wid steps fns i a w"
    and "over_steps step_hangs body a (unat i) (drop (unat i) steps) < permits_left prio (wqueue w)"
    and ref: "reference wid body a (unat i) (drop (unat i) steps) = (evs, e)"
  shows "\<exists>w'. resume (engine_with sqlite_ops v ttl prio) wid i inp
      ([[], [], []] @ continued_sched prio (next_task (wqueue w)) body a (unat i) (drop (unat i) steps)) w =
      (Ready (run_value e), [], w') \<and>
    (\<forall>u. sqlite_log u (store w') =
       sqlite_log u (store w) @ (if u = wid then StepResumed wid i inp # evs else [])) \<and>
    in_flight w' = (if e = RunOpen then in_flight w else (in_flight w)(wid := None)) \<and>
    accepting (wqueue w')"
  using yieldsD [OF sqlite_live.yields_resume [where worker = v and ttl = ttl and prio = prio and
        inp = inp and body = body and steps = steps and fns = fns, OF assms(1-3)], of "[]"] assms(4-6)
  by (auto simp: engine_with_def ended_def moved_def calm_def)


section \<open>Planned runs\<close>

text \<open>
  A workflow whose steps succeed within the attempts they have is run to its end: \<open>run\<close> returns \<open>Ok\<close>, and what it
  has added to the log is exactly the start of the workflow, of every step the failed attempts with their retries
  and then the attempt that completed it, in the order of the steps, and the end of the workflow.
\<close>

lemma planned_run_completes:
  assumes "sqlite_healthy s" and "clock_ok now" and "accepting q"
    and "\<And>i. sqlite_claimable v wid i s" and "\<And>i b. key_open (job_key_of wid i b) q"
    and "\<not> workflow_has_terminal_event (sqlite_log wid s)"
    and "length steps \<le> 2 ^ 64" and "length bodies = length steps" and "list_all2 (plan_fits 0) steps plans"
  shows "\<exists>w. run (engine_with sqlite_ops v ttl prio) \<lparr>workflow_id = wid, workflow_steps = steps\<rparr> bodies
      ([[], [], []] @ plan_sched prio (next_task q) steps plans) (engine_new q s now) = (Ready (Ok ()), [], w) \<and>
    sqlite_log wid (store w) = sqlite_log wid s @ WorkflowStarted wid # plan_history wid 0 plans"
proof -
  have plays: "plays_all (plan_body 0 plans) 0 plans" using plan_body_plays [OF assms(9)] assms(7) by simp
  from plan_can_go [OF _ assms(9) plays] assms(4,5)
  have "can_go (\<lambda>i. sqlite_claimable v wid i s) (\<lambda>k. key_open k q) wid (plan_body 0 plans) 0 0 steps" by simp
  with yieldsD [OF sqlite_live.yields_run
      [where w = "engine_new q s now" and wid = wid and worker = v and ttl = ttl and prio = prio and
        steps = steps and fns = bodies and body = "plan_body 0 plans"], of "[]"] assms accepting_permits
  show ?thesis
    by (auto simp: plan_steps [OF assms(9) plays] calm_def engine_with_def ended_def moved_def)
qed

lemma planned_run_completes_witness:
  "\<exists>w. run (engine_with sqlite_ops ''w1'' demo_ttl High)
      \<lparr>workflow_id = ''wf'', workflow_steps = [demo_step, demo_step]\<rparr> [7, 8]
      ([[], [], []] @ plan_sched High 0 [demo_step, demo_step] [([''bad''], ''out''), ([], ''done'')])
      (engine_new demo_queue demo_store 0) = (Ready (Ok ()), [], w) \<and>
    sqlite_log ''wf'' (store w) =
      [WorkflowStarted ''wf'', StepStarted ''wf'' 0 0, StepFailed ''wf'' 0 ''bad'', RetryScheduled ''wf'' 0 1,
       StepStarted ''wf'' 0 1, StepCompleted ''wf'' 0 ''out'', StepStarted ''wf'' 1 0,
       StepCompleted ''wf'' 1 ''done'', WorkflowCompleted ''wf'']"
  using planned_run_completes [of demo_store 0 demo_queue "''w1''" "''wf''" "[demo_step, demo_step]" "[7, 8]"
      "[([''bad''], ''out''), ([], ''done'')]" demo_ttl High] demo_store_healthy accepting_demo
  by (simp add: queue_state_def workflow_has_terminal_event_def)

text \<open>
  A waiting workflow that is resumed is run to its end: on a healthy database and a queue that
  accepts jobs, with the step waiting, the workflow mounted and not closed, and the attempt number the log gives for
  the step, \<open>resume\<close> returns \<open>Ok\<close> and adds the input, the attempts of that step from this number on,
  those of the steps after it, and the end of the workflow.
\<close>

lemma resume_completes:
  assumes "calm sqlite_healthy w"
    and "step_status_from_events (sqlite_log wid (store w)) i = StWaiting r"
    and "can_continue sqlite_log (sqlite_claimable v wid) wid steps bodies i
      (current_attempt_from_events (sqlite_log wid (store w)) i) plan plans w"
  shows "\<exists>w'. resume (engine_with sqlite_ops v ttl prio) wid i inp
      ([[], [], []] @ continue_sched prio (next_task (wqueue w)) steps i
        (current_attempt_from_events (sqlite_log wid (store w)) i) plan plans) w = (Ready (Ok ()), [], w') \<and>
    sqlite_log wid (store w') = sqlite_log wid (store w) @ StepResumed wid i inp #
      continue_history wid i (current_attempt_from_events (sqlite_log wid (store w)) i) plan plans"
proof -
  note cont = plan_continues [where free = "sqlite_claimable v", OF assms(3)]
  have "0 < permits_left prio (wqueue w)" using assms(1) accepting_permits by (simp add: calm_def)
  with yieldsD [OF sqlite_live.yields_resume [where worker = v and ttl = ttl and prio = prio and
        inp = inp, OF assms(1,2) refl], of _ steps bodies "[]"] cont(4)
  show ?thesis by (fastforce simp: cont(1-3) engine_with_def ended_def moved_def)
qed

text \<open>
  Recovery runs the workflow of a lost worker to its end: with the lease of one step run out and
  its workflow mounted and not closed, \<open>recover\<close> returns 1 and adds the recovery, the attempts of that
  step from the recorded attempt on, those of the steps after it, and the end of the workflow.
\<close>

lemma recover_completes:
  assumes "calm sqlite_healthy w"
    and "sqlite_expired_leases (wall w) (store w) = (Ok [x], store w)"
    and "can_continue sqlite_log (sqlite_claimable v (exec_workflow_id x)) (exec_workflow_id x) steps bodies
      (exec_step_index x) (exec_attempt x) plan plans w"
  shows "\<exists>w'. recover (engine_with sqlite_ops v ttl prio)
      ([[], [], []] @ continue_sched prio (next_task (wqueue w)) steps (exec_step_index x) (exec_attempt x) plan plans)
      w = (Ready (Ok 1), [], w') \<and>
    sqlite_log (exec_workflow_id x) (store w') = sqlite_log (exec_workflow_id x) (store w) @
      WorkerRecovered (exec_workflow_id x) (exec_step_index x) #
      continue_history (exec_workflow_id x) (exec_step_index x) (exec_attempt x) plan plans"
proof -
  let ?u = "exec_workflow_id x" and ?i = "exec_step_index x"
  let ?b = "continue_body ?i (exec_attempt x) plan plans"
  note cont = plan_continues [where free = "sqlite_claimable v", OF assms(3)]
  have m: "in_flight w ?u = Some \<lparr>running_steps = steps, running_bodies = bodies\<rparr>" and i: "unat ?i < length steps"
    using assms(3) by (simp_all add: can_continue_def)
  then have rest: "rest_of (in_flight w) ?u ?i = drop (unat ?i) steps" by (simp add: rest_of_def)
  have step: "continued_step (in_flight w) (\<lambda>_. ?b) x =
      (continue_history ?u ?i (exec_attempt x) plan plans, RunCompleted)"
    using i by (simp add: continued_step_def continued_def rest cont(1))
  have "0 < permits_left prio (wqueue w)" using assms(1) accepting_permits by (simp add: calm_def)
  moreover have "can_readmit sqlite_log (sqlite_claimable v) (\<lambda>_. ?b) x w"
    using cont(4) by (simp add: can_readmit_def m)
  moreover have "list_all (\<lambda>e. event_workflow_id e = ?u) (continue_history ?u ?i (exec_attempt x) plan plans)"
    using continued_step_own [OF step] .
  ultimately show ?thesis
    using yieldsD [OF sqlite_live.yields_recover [where worker = v and ttl = ttl and prio = prio and xs = "[x]" and
        body = "\<lambda>_. ?b", OF assms(1)], of "[]"] assms(2)
    by (auto simp: engine_with_def step rest cont(2,3) filter_id_conv list_all_iff)
qed

text \<open>
  C14: A worker that is alive keeps its lease: while it waits for a job that is not done, its renewal task
  woken every third of the time to live, the lease is renewed before it runs out, for any number of
  wake-ups, whatever steps other workers try to claim and whatever is recorded of other workflows in
  between; at the end the lease is still its own and lasts, and another worker's claim is refused.
\<close>

lemma lease_kept_while_awaited:
  assumes "sqlite_healthy (store w)" and "clock_ok (wall w)" and "sqlite_lease wid i (store w) = Held v t"
    and "wf_duration ttl" and "3 \<le> nanos_of ttl" and "wall w + int (nanos_of ttl div 3) < t"
    and "poll_handle rx (wqueue w) = Blocked"
    and "case timeout of None \<Rightarrow> True | Some d \<Rightarrow> length actss * (nanos_of ttl div 3) < nanos_of d"
    and "clock_ok (wall w + int (length actss * (nanos_of ttl div 3)) + int (nanos_of ttl))"
    and "list_all (list_all (elsewhere v wid)) actss" and "v' \<noteq> v"
  shows "\<exists>w'. await_job_renewing_lease (engine_with sqlite_ops v ttl prio) wid i rx timeout
      (beats (nanos_of ttl div 3) (wall w) actss) w = (Blocked, [], w') \<and>
    wall w' = wall w + int (length actss * (nanos_of ttl div 3)) \<and>
    (\<exists>t'. sqlite_lease wid i (store w') = Held v t' \<and> wall w' < t') \<and>
    fst (sqlite_claim_step wid i v' ttl' (wall w') (store w')) = Ok HeldByOther"
proof -
  let ?p = "nanos_of ttl div 3"
  let ?r = "\<lparr>ren_period = ?p, ren_next = clock w, ren_pending = 0\<rparr>"
  have p: "nanos_of (renewal_interval ttl) = ?p"
    using nanos_of_renewal_interval [OF assms(4)] assms(5) by simp
  have pos: "0 < ?p" using assms(5) by (simp add: div_greater_zero_iff)
  have "due sqlite_healthy sqlite_lease v wid i ?p (w\<lparr>renewal_task := Some ?r\<rparr>)"
    using assms(1-3,6) by (auto simp: due_def)
  then obtain w' where w': "job_loop (engine_with sqlite_ops v ttl prio) wid i rx
        (map_option (\<lambda>t. (clock w + nanos_of t, t)) timeout) (beats ?p (wall w) actss)
        (w\<lparr>renewal_task := Some ?r\<rparr>) = (Blocked, [], w')"
      "holding sqlite_healthy sqlite_lease v wid i ?p w'" "wall w' = wall w + int (length actss * ?p)"
    using sqlite_keeping.loop_keeps [where worker = v and ttl = ttl and prio = prio and p = ?p and rx = rx and
        w = "w\<lparr>renewal_task := Some ?r\<rparr>" and actss = actss and wid = wid and i = i and
        deadline = "map_option (\<lambda>t. (clock w + nanos_of t, t)) timeout"] pos assms(5,7-10)
    by (auto simp: engine_with_def split: option.splits)
  from w'(2) obtain t' where held: "sqlite_healthy (store w')" "clock_ok (wall w')"
      "sqlite_lease wid i (store w') = Held v t'" "wall w' < t'"
    unfolding holding_def by fastforce
  obtain r s' where "sqlite_claim_step wid i v' ttl' (wall w') (store w') = (r, s')" by fastforce
  with sqk.claim_kept [OF held assms(11), of wid i ttl' r s'] w' held show ?thesis
    by (auto simp: await_job_renewing_lease_def Let_def p engine_with_def)
qed

section \<open>Concrete runs\<close>

definition waiting_store :: sqlite where
  "waiting_store = snd (sqlite_append_event (StepWaiting ''wf'' 0 ''why'') 1 demo_started)"

definition mounted_on :: "sqlite \<Rightarrow> sqlite world" where
  "mounted_on s = (engine_new demo_queue s 2000000000)
     \<lparr>in_flight := [''wf'' \<mapsto> \<lparr>running_steps = [demo_step, demo_step], running_bodies = [7, 8]\<rparr>]\<rparr>"

lemma mounted_on_fields [simp]:
  "store (mounted_on s) = s" "wqueue (mounted_on s) = demo_queue" "wall (mounted_on s) = 2000000000"
  "in_flight (mounted_on s) =
     [''wf'' \<mapsto> \<lparr>running_steps = [demo_step, demo_step], running_bodies = [7, 8]\<rparr>]"
  by (simp_all add: mounted_on_def)

lemma demo_claimed_healthy: "sqlite_healthy demo_claimed" "sqlite_log ''wf'' demo_claimed = []"
    "sqlite_claimable v ''wf'' 1 demo_claimed"
  using demo_smooth(2) demo_claimed_inv demo_claim
    sq.claim_law [OF demo_store_inv demo_time(1), of "''wf''" 0 "''a''" demo_ttl "Ok Claimed" demo_claimed]
    sq.claim_lease [OF demo_store_inv demo_time(1), of "''wf''" 0 "''a''" demo_ttl Claimed demo_claimed]
  by (simp_all add: sqlite_healthy_def sqlite_claimable_def) (simp add: sqlite_lease_def)

lemma waiting_store_facts:
  "sqlite_healthy waiting_store" "sqlite_claimable v ''wf'' 1 waiting_store"
  "sqlite_log ''wf'' waiting_store = [StepStarted ''wf'' 0 0, StepWaiting ''wf'' 0 ''why'']"
proof -
  have 1: "sqlite_healthy demo_started" "sqlite_claimable v ''wf'' 1 demo_started"
      "sqlite_log ''wf'' demo_started = [StepStarted ''wf'' 0 0]"
    using sqh.append_healthy [OF demo_claimed_healthy(1), of "StepStarted ''wf'' 0 0" 1]
      demo_claimed_healthy(2,3) by (auto simp: demo_started_def ends_step_def)
  with sqh.append_healthy [OF 1(1), of "StepWaiting ''wf'' 0 ''why''" 1]
  show "sqlite_healthy waiting_store" "sqlite_claimable v ''wf'' 1 waiting_store"
    "sqlite_log ''wf'' waiting_store = [StepStarted ''wf'' 0 0, StepWaiting ''wf'' 0 ''why'']"
    by (auto simp: waiting_store_def ends_step_def)
qed

lemma demo_can_continue:
  assumes "sqlite_claimable v ''wf'' 1 s" and "\<not> workflow_has_terminal_event (sqlite_log ''wf'' s)"
  shows "can_continue sqlite_log (sqlite_claimable v ''wf'') ''wf'' [demo_step, demo_step] [7, 8] 0 0
    ([''bad''], ''out'') [([], ''done'')] (mounted_on s)"
  using assms by (auto simp: can_continue_def less_Suc_eq)

lemma resume_completes_witness:
  "\<exists>w'. resume (engine_with sqlite_ops ''w1'' demo_ttl High) ''wf'' 0 ''yes''
      ([[], [], []] @ continue_sched High 0 [demo_step, demo_step] 0 0 ([''bad''], ''out'') [([], ''done'')])
      (mounted_on waiting_store) = (Ready (Ok ()), [], w') \<and>
    sqlite_log ''wf'' (store w') =
      [StepStarted ''wf'' 0 0, StepWaiting ''wf'' 0 ''why'', StepResumed ''wf'' 0 ''yes'',
       StepStarted ''wf'' 0 0, StepFailed ''wf'' 0 ''bad'', RetryScheduled ''wf'' 0 1,
       StepStarted ''wf'' 0 1, StepCompleted ''wf'' 0 ''out'', StepStarted ''wf'' 1 0,
       StepCompleted ''wf'' 1 ''done'', WorkflowCompleted ''wf'']"
proof -
  have "calm sqlite_healthy (mounted_on waiting_store)"
    by (simp add: calm_def waiting_store_facts accepting_demo)
  from resume_completes [OF this, of "''wf''" 0 "''why''" "''w1''" _ _ "([''bad''], ''out'')" "[([], ''done'')]"
      demo_ttl High "''yes''"] demo_can_continue [OF waiting_store_facts(2), of "''w1''"]
  show ?thesis
    by (simp add: waiting_store_facts step_status_from_events_def current_attempt_from_events_def
        workflow_has_terminal_event_def is_terminal_def continue_history_def)
qed

definition lost_execution :: execution where
  "lost_execution = \<lparr>exec_workflow_id = ''wf'', exec_step_index = 0, exec_attempt = 0,
     exec_worker_id = ''a'', exec_lease_expires_at = 1000000000\<rparr>"

lemma demo_row_expires: "row_expires_at (leased_row ''a'' (1, 0) 0) = 1000000000"
proof -
  have "(system_time_from_parts (Some 1) (Some 0) :: (system_time, unit) result) = Ok 1000000000"
    using from_parts_of_parts [of 1000000000] by (simp add: demo_parts clock_ok_def system_time_ok_def)
  then show ?thesis by (simp add: row_expires_at_def leased_row_def)
qed

lemma lost_listed: "sqlite_expired_leases 2000000000 demo_claimed = (Ok [lost_execution], demo_claimed)"
proof -
  have eq: "demo_claimed = demo_store\<lparr>conn_db := leased_db ''wf'' 0 ''a'' demo_ttl 0 (conn_db demo_store)\<rparr>"
    unfolding demo_claimed_def by (simp add: eval_claim)
  have "steps_rows (conn_db demo_claimed) = [((''wf'', 0), leased_row ''a'' (system_time_parts 1000000000) 0)]"
    unfolding eq by (simp add: leased_db_def upsert_step_def demo_store_def migrated_fields
        empty_db_def attempt_of_def select_step_def demo_expiry u64_as_i64_def)
  then show ?thesis
    using eval_expired [OF demo_smooth(2), of 2000000000] demo_claimed_inv demo_row_expires
    by (simp add: sqlite_inv_def lease_expired_def leased_row_def demo_parts execution_of_def lost_execution_def)
qed

lemma recover_completes_witness:
  "\<exists>w'. recover (engine_with sqlite_ops ''w1'' demo_ttl High)
      ([[], [], []] @ continue_sched High 0 [demo_step, demo_step] 0 0 ([''bad''], ''out'') [([], ''done'')])
      (mounted_on demo_claimed) = (Ready (Ok 1), [], w') \<and>
    sqlite_log ''wf'' (store w') =
      [WorkerRecovered ''wf'' 0,
       StepStarted ''wf'' 0 0, StepFailed ''wf'' 0 ''bad'', RetryScheduled ''wf'' 0 1,
       StepStarted ''wf'' 0 1, StepCompleted ''wf'' 0 ''out'', StepStarted ''wf'' 1 0,
       StepCompleted ''wf'' 1 ''done'', WorkflowCompleted ''wf'']"
proof -
  have "calm sqlite_healthy (mounted_on demo_claimed)"
    by (simp add: calm_def demo_claimed_healthy accepting_demo)
  from recover_completes [OF this, of lost_execution "''w1''" _ _ "([''bad''], ''out'')" "[([], ''done'')]"
      demo_ttl High] demo_can_continue [OF demo_claimed_healthy(3), of "''w1''"]
  show ?thesis
    by (simp add: lost_listed demo_claimed_healthy lost_execution_def workflow_has_terminal_event_def
        continue_history_def)
qed

lemma lease_kept_while_awaited_witness:
  "\<exists>w'. await_job_renewing_lease (engine_with sqlite_ops ''a'' demo_ttl High) ''wf'' 0 0 None
      (beats 333333333 0 [[EClaim ''wf'' 0 ''b'' demo_ttl], [], [EAppend (WorkflowStarted ''other'')], [],
        [EClaim ''wf'' 0 ''b'' demo_ttl]]) (engine_new sent_queue demo_claimed 0) = (Blocked, [], w') \<and>
    wall w' = 1666666665 \<and> (\<exists>t'. sqlite_lease ''wf'' 0 (store w') = Held ''a'' t' \<and> wall w' < t') \<and>
    fst (sqlite_claim_step ''wf'' 0 ''b'' demo_ttl (wall w') (store w')) = Ok HeldByOther"
proof -
  have n: "nanos_of demo_ttl = 1000000000" "wf_duration demo_ttl"
    by (simp_all add: demo_ttl_def nanos_of_def wf_duration_def)
  show ?thesis
    using lease_kept_while_awaited [where w = "engine_new sent_queue demo_claimed 0" and wid = "''wf''" and
        i = 0 and v = "''a''" and t = 1000000000 and ttl = demo_ttl and rx = 0 and timeout = None and
        actss = "[[EClaim ''wf'' 0 ''b'' demo_ttl], [], [EAppend (WorkflowStarted ''other'')], [],
          [EClaim ''wf'' 0 ''b'' demo_ttl]]" and v' = "''b''" and prio = High and ttl' = demo_ttl]
    by (simp add: n demo_claimed_healthy demo_claimed_lease queue_evals clock_ok_def system_time_ok_def)
qed

section \<open>Concrete runs that follow the reference\<close>

definition timed_step :: step_def where
  "timed_step =
     \<lparr>step_name = ''t'', step_retry_policy = \<lparr>max_attempts = 3, policy_backoff = Fixed (Duration 0 5)\<rparr>,
      step_timeout = Some demo_ttl\<rparr>"

text \<open>A body that fails, hangs and succeeds, and one that panics every time.\<close>

definition rough_script :: "usize \<Rightarrow> script" where
  "rough_script i b =
     (if i = 0 then (if b = 0 then Ends (Err ''bad'') else if b = 1 then Hangs else Ends (Ok ''out''))
      else Ends Panic)"

text \<open>A body that fails and succeeds, and one that asks for input.\<close>

definition asking_script :: "usize \<Rightarrow> script" where
  "asking_script i b =
     (if i = 0 then (if b = 0 then Ends (Err ''bad'') else Ends (Ok ''out''))
      else Ends (Err (wait_for_input_display ''more'')))"

lemma script_reasons [simp]:
  "parse_waiting_reason ''bad'' = None" "parse_non_retryable_reason ''bad'' = None"
  "parse_waiting_reason ''job panicked'' = None" "parse_non_retryable_reason ''job panicked'' = None"
  by (simp_all add: parse_waiting_reason_def parse_non_retryable_reason_def strip_prefix_def wait_prefix_def
      non_retryable_prefix_def)

lemma step_fields [simp]:
  "max_attempts (step_retry_policy timed_step) = 3" "step_timeout timed_step = Some demo_ttl"
  "max_attempts (step_retry_policy demo_step) = 2" "step_timeout demo_step = None"
  by (simp_all add: timed_step_def demo_step_def)

lemma rough_tried [simp]:
  "tried timed_step (rough_script 0) 0 = [0, 1, 2]" "tried demo_step (rough_script 1) 0 = [0, 1]"
  by (simp_all add: tried.simps [of _ _ 0] tried.simps [of _ _ 1] tried.simps [of _ _ 2] verdict_of_def
      attempt_outcome_def rough_script_def)

lemma asking_tried [simp]:
  "tried demo_step (asking_script 0) 0 = [0, 1]" "tried demo_step (asking_script 1) 0 = [0]"
  by (simp_all add: tried.simps [of _ _ 0] tried.simps [of _ _ 1] verdict_of_def attempt_outcome_def
      asking_script_def)

lemmas reference_eval = step_events_def step_verdict_def step_hangs_def verdict_of_def attempt_outcome_def Let_def

lemma rough_reference:
  "reference ''wf'' rough_script 0 0 [timed_step, demo_step] =
     ([StepStarted ''wf'' 0 0, StepFailed ''wf'' 0 ''bad'', RetryScheduled ''wf'' 0 1,
       StepStarted ''wf'' 0 1, StepFailed ''wf'' 0 (timeout_reason demo_ttl), RetryScheduled ''wf'' 0 2,
       StepStarted ''wf'' 0 2, StepCompleted ''wf'' 0 ''out'',
       StepStarted ''wf'' 1 0, StepFailed ''wf'' 1 ''job panicked'', RetryScheduled ''wf'' 1 1,
       StepStarted ''wf'' 1 1, StepFailed ''wf'' 1 ''job panicked'', WorkflowFailed ''wf'' ''job panicked''],
      RunFailed ''job panicked'')"
  "over_steps step_hangs rough_script 0 0 [timed_step, demo_step] = 1"
  by (simp_all add: reference_eval rough_script_def)

lemma asking_reference:
  "reference ''wf'' asking_script 0 0 [demo_step, demo_step] =
     ([StepStarted ''wf'' 0 0, StepFailed ''wf'' 0 ''bad'', RetryScheduled ''wf'' 0 1,
       StepStarted ''wf'' 0 1, StepCompleted ''wf'' 0 ''out'',
       StepStarted ''wf'' 1 0, StepWaiting ''wf'' 1 ''more''], RunOpen)"
  "over_steps step_hangs asking_script 0 0 [demo_step, demo_step] = 0"
  by (simp_all add: reference_eval asking_script_def)

lemma run_follows_reference_witness:
  "\<exists>w. run (engine_with sqlite_ops ''w1'' demo_ttl High)
      \<lparr>workflow_id = ''wf'', workflow_steps = [timed_step, demo_step]\<rparr> [7, 8]
      ([[], [], []] @ steps_sched High 0 rough_script 0 [timed_step, demo_step])
      (engine_new demo_queue demo_store 0) = (Ready (Err (EngineWorkflowFailed ''job panicked'')), [], w) \<and>
    sqlite_log ''wf'' (store w) =
      [WorkflowStarted ''wf'', StepStarted ''wf'' 0 0, StepFailed ''wf'' 0 ''bad'', RetryScheduled ''wf'' 0 1,
       StepStarted ''wf'' 0 1, StepFailed ''wf'' 0 (timeout_reason demo_ttl), RetryScheduled ''wf'' 0 2,
       StepStarted ''wf'' 0 2, StepCompleted ''wf'' 0 ''out'',
       StepStarted ''wf'' 1 0, StepFailed ''wf'' 1 ''job panicked'', RetryScheduled ''wf'' 1 1,
       StepStarted ''wf'' 1 1, StepFailed ''wf'' 1 ''job panicked'', WorkflowFailed ''wf'' ''job panicked''] \<and>
    in_flight w = Map.empty \<and> permits_left High (wqueue w) = 4"
proof -
  have "calm sqlite_healthy (engine_new demo_queue demo_store 0)"
    by (simp add: calm_def demo_store_healthy accepting_demo clock_ok_def system_time_ok_def)
  moreover have "can_go (\<lambda>i. True) (\<lambda>k. True) ''wf'' rough_script 0 0 [timed_step, demo_step]"
    by (simp add: timely_def rough_script_def demo_ttl_def nanos_of_def)
  ultimately show ?thesis
    using run_follows_reference [OF _ _ _ _ _ _ rough_reference(1), of "engine_new demo_queue demo_store 0" "[7, 8]"
        "''w1''" High demo_ttl]
    by (simp add: rough_reference(2) permits_left_def priority_count_def workflow_has_terminal_event_def
        del: steps_sched.simps can_go.simps over_steps.simps) (elim exE conjE, intro exI conjI, simp_all)
qed

lemma asking_continuable:
  assumes "sqlite_claimable v ''wf'' 1 s" and "\<not> workflow_has_terminal_event (sqlite_log ''wf'' s)"
  shows "continuable sqlite_log (sqlite_claimable v) asking_script ''wf'' [demo_step, demo_step] [7, 8] 0 0 (mounted_on s)"
  using assms by (simp add: continuable_def timely_def asking_script_def)

lemma resume_follows_reference_witness:
  "\<exists>w'. resume (engine_with sqlite_ops ''w1'' demo_ttl High) ''wf'' 0 ''yes''
      ([[], [], []] @ continued_sched High 0 asking_script 0 0 [demo_step, demo_step])
      (mounted_on waiting_store) = (Ready (Ok ()), [], w') \<and>
    sqlite_log ''wf'' (store w') =
      [StepStarted ''wf'' 0 0, StepWaiting ''wf'' 0 ''why'', StepResumed ''wf'' 0 ''yes'',
       StepStarted ''wf'' 0 0, StepFailed ''wf'' 0 ''bad'', RetryScheduled ''wf'' 0 1,
       StepStarted ''wf'' 0 1, StepCompleted ''wf'' 0 ''out'',
       StepStarted ''wf'' 1 0, StepWaiting ''wf'' 1 ''more''] \<and>
    in_flight w' = in_flight (mounted_on waiting_store)"
proof -
  have "calm sqlite_healthy (mounted_on waiting_store)"
    by (simp add: calm_def waiting_store_facts accepting_demo)
  moreover have "\<not> workflow_has_terminal_event (sqlite_log ''wf'' waiting_store)"
    by (simp add: waiting_store_facts workflow_has_terminal_event_def is_terminal_def)
  ultimately show ?thesis
    using resume_follows_reference [of "mounted_on waiting_store" "''wf''" 0 "''why''" 0 "''w1''" asking_script
        "[demo_step, demo_step]" "[7, 8]" High _ _ demo_ttl "''yes''"]
      asking_continuable [OF waiting_store_facts(2), of "''w1''"]
    by (simp add: asking_reference waiting_store_facts step_status_from_events_def current_attempt_from_events_def
        permits_left_def priority_count_def
        del: continued_sched.simps over_steps.simps reference.simps)
      (elim exE conjE, intro exI conjI, simp_all add: waiting_store_facts(3))
qed




end
