(* ===== verification/QueueExample.thy ===== *)
theory QueueExample
  imports QueueRound
begin

text \<open>
  The program of \<open>src/examples/basic.rs\<close>: it configures two lanes, pushes one job and prints what
  \<open>push\<close> returned.
\<close>

definition example_builder :: queue_builder where
  "example_builder =
     builder_lane Low \<lparr>capacity = 128, permits = 4\<rparr>
       (builder_lane High \<lparr>capacity = 32, permits = 1\<rparr> builder_default)"

fun printed :: "(accepted, push_error) result \<Rightarrow> string" where
  "printed (Ok (Queued rx)) = ''queued''"
| "printed (Ok (Cached output)) = ''already ran, cached result: '' @ output"
| "printed (Ok (InFlight rx)) = ''already running, skipped''"
| "printed (Err e) = ''could not queue: '' @ push_error_display e"
| "printed Panic = []"

definition basic_main :: "tokio \<Rightarrow> qlabel list \<Rightarrow> string option" where
  "basic_main tk sched =
     (case start tk example_builder of
        Ok queue \<Rightarrow>
          (case push (\<lambda>q. q) (\<lambda>q _. q) qstep (new_job ''charge-order-4821'' High 0) sched queue of
             (Ready (Ok a), sc, q) \<Rightarrow> Some (printed (Ok a))
           | (Ready (Err e), sc, q) \<Rightarrow> Some (printed (Err e))
           | _ \<Rightarrow> None)
      | _ \<Rightarrow> None)"

lemma example_builder_eq:
  "example_builder =
     [\<lparr>capacity = 128, permits = 4\<rparr>, \<lparr>capacity = 100, permits = 5\<rparr>, \<lparr>capacity = 32, permits = 1\<rparr>]"
  by code_simp

lemma basic_main_queues:
  assumes "\<not> channel_panics tk 32" "\<not> channel_panics tk 100" "\<not> channel_panics tk 128"
    and "\<not> semaphore_panics tk 1" "\<not> semaphore_panics tk 4" "\<not> semaphore_panics tk 5"
  shows "basic_main tk sched = Some ''queued''"
proof -
  obtain q where q: "start tk example_builder = Ok q" "accepting q" "\<And>k. key_open k q"
    using assms
    by (simp add: start_def example_builder_eq priority_count_def accepting_def lane_idle_def new_lane_def key_open_def)
  from push_round [OF q(2), of "new_job ''charge-order-4821'' High 0" "\<lambda>q. q" q "\<lambda>q _. q" qstep] q(1,3)
  show ?thesis by (simp add: basic_main_def)
qed

end
