(* ===== verification/QueueTests.thy ===== *)
theory QueueTests
  imports QueueRound QueueSafety
begin

text \<open>
  The integration tests of \<open>tests/queue_tests.rs\<close>, each a predicate on what the lanes and the job tasks do
  while the test waits, shown to pass on a schedule in which the jobs run.  A schedule only chooses the
  order: what a body returns is fixed by the test, \<open>body f\<close> for the closure number \<open>f\<close>.  A body that
  signals through a channel of the test's own has signalled once it was started.
\<close>

section \<open>What the tests use\<close>

text \<open>The queue of the test, and the closures called so far.\<close>

type_synonym test_run = "queue \<times> func list"

fun with_body :: "(func \<Rightarrow> job_result) \<Rightarrow> qlabel \<Rightarrow> queue \<Rightarrow> qlabel" where
  "with_body body (LFinish t r) q =
     (case find_task t q of Some u \<Rightarrow> LFinish t (body (job_func (task_job u))) | None \<Rightarrow> LFinish t r)"
| "with_body body l q = l"

fun called :: "qlabel \<Rightarrow> queue \<Rightarrow> func list" where
  "called (LStart t) q =
     (case find_task t q of
        Some u \<Rightarrow> if task_phase u = Spawned then [job_func (task_job u)] else []
      | None \<Rightarrow> [])"
| "called l q = []"

fun while_waiting :: "(func \<Rightarrow> job_result) \<Rightarrow> qlabel list \<Rightarrow> test_run \<Rightarrow> test_run" where
  "while_waiting body [] s = s"
| "while_waiting body (l # ls) (q, fs) =
     while_waiting body ls (qstep (with_body body l q) q, fs @ called l q)"

text \<open>\<open>queue.push(job).await\<close> when the lane has room, \<open>None\<close> when the push waits or fails.\<close>

definition push_now :: "job \<Rightarrow> test_run \<Rightarrow> accepted option \<times> test_run" where
  "push_now j s =
     (case queue_push j [] (fst s) of
        (Ready (Ok a), sc, q) \<Rightarrow> (Some a, q, snd s)
      | (_, sc, q) \<Rightarrow> (None, q, snd s))"

fun handle_of :: "accepted option \<Rightarrow> nat option" where
  "handle_of (Some (Queued rx)) = Some rx"
| "handle_of (Some (InFlight rx)) = Some rx"
| "handle_of _ = None"

fun is_queued :: "accepted option \<Rightarrow> bool" where
  "is_queued (Some (Queued rx)) = True"
| "is_queued _ = False"

fun is_in_flight :: "accepted option \<Rightarrow> bool" where
  "is_in_flight (Some (InFlight rx)) = True"
| "is_in_flight _ = False"

definition resolved :: "accepted option \<Rightarrow> outcome \<Rightarrow> test_run \<Rightarrow> bool" where
  "resolved a oc s = (case handle_of a of Some rx \<Rightarrow> poll_handle rx (fst s) = Ready (Ok oc) | None \<Rightarrow> False)"

definition started_queue :: "queue_builder \<Rightarrow> test_run" where
  "started_queue b = (case start demo_tokio b of Ok q \<Rightarrow> (q, []) | _ \<Rightarrow> (demo_queue, []))"

section \<open>Single keys\<close>

definition test_duplicate_key :: bool where
  "test_duplicate_key =
     (let (first, s) = push_now (new_job ''dup-key'' High 1) (started_queue builder_default);
          (second, s) = push_now (new_job ''dup-key'' High 2) s in
      is_queued first \<and> is_in_flight second)"

lemma duplicate_key_passes: "test_duplicate_key"
  by code_simp

definition test_build :: "qlabel list \<Rightarrow> bool" where
  "test_build ls =
     (let (a, s) = push_now (new_job ''key'' High 1) (started_queue builder_default);
          s = while_waiting (\<lambda>_. Ok ''job output'') ls s in
      is_queued a \<and> 1 \<in> set (snd s))"

lemma build_passes: "test_build (job_hang High 0)"
  by code_simp

definition job_returning_err_is_recorded_as_failed :: "qlabel list \<Rightarrow> bool" where
  "job_returning_err_is_recorded_as_failed ls =
     (let (a, s) = push_now (new_job ''will-fail'' High 1) (started_queue builder_default);
          s = while_waiting (\<lambda>_. Err ''upstream returned 500'') ls s;
          (b, s') = push_now (new_job ''will-fail'' High 2) s in
      is_queued a \<and> queue_state ''will-fail'' (fst s) = Some (SFailed ''upstream returned 500'') \<and> is_queued b)"

lemma err_recorded_passes: "job_returning_err_is_recorded_as_failed (job_round High 0 (Ok []))"
  by code_simp

definition panicked_job_key_can_be_retried :: "qlabel list \<Rightarrow> bool" where
  "panicked_job_key_can_be_retried ls =
     (let (a, s) = push_now (new_job ''retry-me'' High 1) (started_queue builder_default);
          s = while_waiting (\<lambda>_. Panic) ls s;
          (b, s') = push_now (new_job ''retry-me'' High 2) s in
      is_queued a \<and> 1 \<in> set (snd s) \<and> is_queued b)"

lemma panicked_key_retried_passes: "panicked_job_key_can_be_retried (job_round High 0 (Ok []))"
  by code_simp

definition completed_key_returns_cached_output_without_rerunning :: "qlabel list \<Rightarrow> qlabel list \<Rightarrow> bool" where
  "completed_key_returns_cached_output_without_rerunning ls1 ls2 =
     (let body = (\<lambda>f. if f = 1 then Ok ''the answer'' else Ok ''should never run'');
          (a, s) = push_now (new_job ''cache-me'' High 1) (started_queue builder_default);
          s = while_waiting body ls1 s;
          (b, s) = push_now (new_job ''cache-me'' High 2) s;
          s = while_waiting body ls2 s in
      is_queued a \<and> b = Some (Cached ''the answer'') \<and> snd s = [1])"

lemma cached_output_passes:
  "completed_key_returns_cached_output_without_rerunning (job_round High 0 (Ok []))
     (job_round High 1 (Ok []))"
  by code_simp

section \<open>Handles\<close>

text \<open>A job is pushed, the handle is polled after \<open>ls\<close>; the four tests differ in the body and its outcome.\<close>

definition handle_resolves :: "key \<Rightarrow> job_result \<Rightarrow> outcome \<Rightarrow> qlabel list \<Rightarrow> bool" where
  "handle_resolves k r oc ls =
     (let (a, s) = push_now (new_job k High 1) (started_queue builder_default);
          s = while_waiting (\<lambda>_. r) ls s in
      is_queued a \<and> resolved a oc s)"

definition handle_resolves_with_the_job_output :: "qlabel list \<Rightarrow> bool" where
  "handle_resolves_with_the_job_output =
     handle_resolves ''with-handle'' (Ok ''the output'') (OCompleted ''the output'')"

definition handle_resolves_when_awaited_after_the_job_already_finished :: "qlabel list \<Rightarrow> bool" where
  "handle_resolves_when_awaited_after_the_job_already_finished =
     handle_resolves ''already-done'' (Ok ''fast'') (OCompleted ''fast'')"

definition handle_reports_failure_when_the_job_returns_err :: "qlabel list \<Rightarrow> bool" where
  "handle_reports_failure_when_the_job_returns_err =
     handle_resolves ''will-error'' (Err ''upstream exploded'') (OFailed ''upstream exploded'')"

definition handle_resolves_when_the_job_panics :: "qlabel list \<Rightarrow> bool" where
  "handle_resolves_when_the_job_panics =
     handle_resolves ''will-panic'' Panic (OFailed ''job panicked'')"

lemma handle_tests_pass:
  "handle_resolves_with_the_job_output (job_round High 0 (Ok []))"
  "handle_resolves_when_awaited_after_the_job_already_finished (job_round High 0 (Ok []))"
  "handle_reports_failure_when_the_job_returns_err (job_round High 0 (Ok []))"
  "handle_resolves_when_the_job_panics (job_round High 0 (Ok []))"
  by code_simp+

text \<open>Dropping a receiver does nothing: the sender's \<open>send\<close> fails and its result is ignored.\<close>

definition dropping_the_handle_does_not_stop_the_job :: "qlabel list \<Rightarrow> bool" where
  "dropping_the_handle_does_not_stop_the_job ls =
     (let (a, s) = push_now (new_job ''detached'' High 1) (started_queue builder_default);
          s = while_waiting (\<lambda>_. Ok ''ran anyway'') ls s in
      is_queued a \<and> 1 \<in> set (snd s) \<and> queue_state ''detached'' (fst s) = Some (SCompleted ''ran anyway''))"

lemma dropped_handle_passes: "dropping_the_handle_does_not_stop_the_job (job_round High 0 (Ok []))"
  by code_simp

definition two_callers_of_one_key_share_a_single_execution_and_both_get_the_output :: "qlabel list \<Rightarrow> bool" where
  "two_callers_of_one_key_share_a_single_execution_and_both_get_the_output ls =
     (let body = (\<lambda>f. if f = 1 then Ok ''shared answer'' else Ok ''should never run'');
          (a, s) = push_now (new_job ''shared-key'' High 1) (started_queue builder_default);
          (b, s) = push_now (new_job ''shared-key'' High 2) s;
          s = while_waiting body ls s in
      is_queued a \<and> is_in_flight b \<and> resolved a (OCompleted ''shared answer'') s \<and>
      resolved b (OCompleted ''shared answer'') s \<and> snd s = [1])"

lemma two_callers_passes:
  "two_callers_of_one_key_share_a_single_execution_and_both_get_the_output (job_round High 0 (Ok []))"
  by code_simp

definition in_flight_handle_reports_failure_of_the_running_job :: "qlabel list \<Rightarrow> bool" where
  "in_flight_handle_reports_failure_of_the_running_job ls =
     (let body = (\<lambda>f. if f = 1 then Err ''upstream exploded'' else Ok []);
          (a, s) = push_now (new_job ''shared-failure'' High 1) (started_queue builder_default);
          (b, s) = push_now (new_job ''shared-failure'' High 2) s;
          s = while_waiting body ls s in
      is_queued a \<and> is_in_flight b \<and> resolved b (OFailed ''upstream exploded'') s)"

lemma in_flight_failure_passes: "in_flight_handle_reports_failure_of_the_running_job (job_round High 0 (Ok []))"
  by code_simp

text \<open>Eight tasks push the same key; \<open>lss\<close> is what happens before each of the pushes, \<open>ls\<close> what happens after.\<close>

fun push_each :: "(func \<Rightarrow> job_result) \<Rightarrow> key \<Rightarrow> qlabel list list \<Rightarrow> func \<Rightarrow> test_run
    \<Rightarrow> accepted option list \<times> test_run" where
  "push_each body k [] f s = ([], s)"
| "push_each body k (ls # lss) f s =
     (let (a, s) = push_now (new_job k High f) (while_waiting body ls s);
          (as, s) = push_each body k lss (Suc f) s in
      (a # as, s))"

definition concurrent_pushes_of_same_key_admit_exactly_one :: "qlabel list list \<Rightarrow> qlabel list \<Rightarrow> bool" where
  "concurrent_pushes_of_same_key_admit_exactly_one lss ls =
     (let body = (\<lambda>_. Ok ''done'');
          (as, s) = push_each body ''racy'' lss 0
            (started_queue (builder_lane High \<lparr>capacity = 10, permits = 5\<rparr> builder_default));
          s = while_waiting body ls s in
      length (filter is_queued as) = 1 \<and> list_all (\<lambda>a. is_queued a \<or> is_in_flight a) as \<and>
      length (filter (\<lambda>a. handle_of a \<noteq> None) as) = 8 \<and>
      list_all (\<lambda>a. resolved a (OCompleted ''done'') s) as \<and> length (snd s) = 1)"

lemma concurrent_pushes_passes:
  "concurrent_pushes_of_same_key_admit_exactly_one
     [[], [LRecv 2], [], [LSpawn 2], [], [LStart 0], [], []] (job_end 0 (Ok []))"
  by code_simp

section \<open>Waiting for the output\<close>

text \<open>\<open>push_and_wait\<close>, with the bodies of the test returning \<open>r\<close>; the value, what is left of the schedule, the run.\<close>

fun push_and_wait_run ::
    "job_result \<Rightarrow> job \<Rightarrow> qlabel list \<Rightarrow> queue \<Rightarrow> (string, wait_error) result async \<times> queue" where
  "push_and_wait_run r j ls q =
     (case push_and_wait j (map (\<lambda>l. case l of LFinish t x \<Rightarrow> LFinish t r | _ \<Rightarrow> l) ls) q of
        (v, sc, q') \<Rightarrow> (v, q'))"

definition push_and_wait_returns_the_output :: "qlabel list \<Rightarrow> bool" where
  "push_and_wait_returns_the_output ls =
     (fst (push_and_wait_run (Ok ''the answer'') (new_job ''wait-for-me'' High 1) ls
        (fst (started_queue builder_default))) = Ready (Ok ''the answer''))"

definition push_and_wait_surfaces_a_job_failure_as_an_error :: "qlabel list \<Rightarrow> bool" where
  "push_and_wait_surfaces_a_job_failure_as_an_error ls =
     (fst (push_and_wait_run (Err ''upstream exploded'') (new_job ''wait-for-failure'' High 1) ls
        (fst (started_queue builder_default))) = Ready (Err (WaitFailed ''upstream exploded'')))"

definition a_successful_push_is_not_undone_by_the_claim_guard :: "qlabel list \<Rightarrow> bool" where
  "a_successful_push_is_not_undone_by_the_claim_guard ls =
     (let (v, q) = push_and_wait_run (Ok ''ran'') (new_job ''not-cancelled'' High 1) ls
        (fst (started_queue builder_default)) in
      v = Ready (Ok ''ran'') \<and> queue_state ''not-cancelled'' q = Some (SCompleted ''ran''))"

lemma waiting_tests_pass:
  "push_and_wait_returns_the_output (job_round High 0 (Ok []))"
  "push_and_wait_surfaces_a_job_failure_as_an_error (job_round High 0 (Ok []))"
  "a_successful_push_is_not_undone_by_the_claim_guard (job_round High 0 (Ok []))"
  by code_simp+

text \<open>The number of bodies started is the number of tasks spawned, \<open>next_task\<close>.\<close>

definition push_and_wait_returns_a_cached_output_without_rerunning :: "qlabel list list \<Rightarrow> bool" where
  "push_and_wait_returns_a_cached_output_without_rerunning lss =
     (let (vs, q) = fold (\<lambda>ls (vs, q).
        let (v, q) = push_and_wait_run (Ok ''computed once'') (new_job ''cached-wait'' High 1) ls q in (v # vs, q))
        lss ([], fst (started_queue builder_default)) in
      length vs = 3 \<and> list_all (\<lambda>v. v = Ready (Ok ''computed once'')) vs \<and> next_task q = 1)"

lemma cached_wait_passes: "push_and_wait_returns_a_cached_output_without_rerunning [job_round High 0 (Ok []), [], []]"
  by code_simp

definition concurrent_push_and_wait_on_one_key_runs_once_and_serves_everyone ::
    "qlabel list list \<Rightarrow> qlabel list \<Rightarrow> bool" where
  "concurrent_push_and_wait_on_one_key_runs_once_and_serves_everyone lss ls =
     (let body = (\<lambda>_. Ok ''one answer'');
          (as, s) = push_each body ''hot-key'' lss 0 (started_queue builder_default);
          s = while_waiting body ls s in
      length as = 8 \<and>
      list_all (\<lambda>a. a = Some (Cached ''one answer'') \<or> resolved a (OCompleted ''one answer'') s) as \<and>
      length (snd s) = 1)"

lemma concurrent_wait_passes:
  "concurrent_push_and_wait_on_one_key_runs_once_and_serves_everyone
     [[], [], [LRecv 2, LSpawn 2], [], [LStart 0], [], [LFinish 0 (Ok [])], []] (job_end 0 (Ok []))"
  by code_simp

section \<open>Lanes\<close>

definition panic_in_one_job_does_not_kill_the_lane :: "qlabel list \<Rightarrow> qlabel list \<Rightarrow> bool" where
  "panic_in_one_job_does_not_kill_the_lane ls1 ls2 =
     (let body = (\<lambda>f. if f = 1 then Panic else Ok []);
          (a, s) = push_now (new_job ''will-panic'' High 1) (started_queue builder_default);
          s = while_waiting body ls1 s;
          (b, s) = push_now (new_job ''survivor'' High 2) s;
          s = while_waiting body ls2 s in
      is_queued a \<and> is_queued b \<and> 2 \<in> set (snd s))"

lemma panic_contained_passes:
  "panic_in_one_job_does_not_kill_the_lane [] (job_round High 0 (Ok []) @ job_hang High 1)"
  "panic_in_one_job_does_not_kill_the_lane (job_round High 0 (Ok [])) (job_hang High 1)"
  by code_simp+

text \<open>The counters of the tests: the bodies of a lane that are running, and the most there were on the way.\<close>

definition running_in :: "nat \<Rightarrow> queue \<Rightarrow> nat" where
  "running_in i q = length (filter (\<lambda>u. task_lane u = i \<and> task_phase u = Running) (tasks q))"

fun watch :: "nat \<Rightarrow> nat \<Rightarrow> qlabel list \<Rightarrow> queue \<Rightarrow> nat \<times> queue" where
  "watch i m [] q = (max m (running_in i q), q)"
| "watch i m (l # ls) q = watch i (max m (running_in i q)) ls (qstep l q)"

text \<open>Jobs of one lane, with their numbers in their keys.\<close>

fun push_many :: "string \<Rightarrow> priority \<Rightarrow> nat list \<Rightarrow> queue \<Rightarrow> bool \<times> queue" where
  "push_many name p [] q = (True, q)"
| "push_many name p (n # ns) q =
     (case push_now (new_job (name @ show_nat n) p 0) (q, []) of
        (a, q', fs) \<Rightarrow> (case push_many name p ns q' of (ok, q'') \<Rightarrow> (is_queued a \<and> ok, q'')))"

definition concurrency_never_exceeds_lane_permits :: "qlabel list \<Rightarrow> bool" where
  "concurrency_never_exceeds_lane_permits ls =
     (case push_many ''job-'' High [0..<10]
        (fst (started_queue (builder_lane High \<lparr>capacity = 50, permits = 5\<rparr> builder_default))) of
        (ok, q) \<Rightarrow>
          (case watch 2 0 ls q of
             (m, q') \<Rightarrow>
               ok \<and> m \<le> 5 \<and>
               list_all (\<lambda>n. queue_state (''job-'' @ show_nat n) q' = Some (SCompleted [])) [0..<10]))"

definition lanes_have_independent_concurrency_limits :: "qlabel list \<Rightarrow> qlabel list \<Rightarrow> bool" where
  "lanes_have_independent_concurrency_limits ls1 ls2 =
     (case push_many ''low-'' Low [0..<10]
        (fst (started_queue (builder_lane High \<lparr>capacity = 50, permits = 4\<rparr>
          (builder_lane Low \<lparr>capacity = 50, permits = 1\<rparr> builder_default)))) of
        (ok1, q) \<Rightarrow>
          (case watch 0 0 ls1 q of
             (m, q1) \<Rightarrow>
               (case push_many ''high-'' High [0..<8] q1 of
                  (ok2, q2) \<Rightarrow>
                    (case watch 2 0 ls2 q2 of
                       (high_max, q3) \<Rightarrow> ok1 \<and> running_in 0 q1 = 1 \<and> ok2 \<and> 1 < high_max \<and> high_max \<le> 4))))"

text \<open>
  The bounds these two tests look for hold in every schedule: a run of them can fail only because
  the jobs did not get to run in the time the test waits.
\<close>

definition sized :: "nat \<Rightarrow> nat \<Rightarrow> queue \<Rightarrow> bool" where
  "sized p i q \<longleftrightarrow>
     queue_wf q \<and> i < length (lanes q) \<and> unat (permits (lane_config (lanes q ! i))) = p"

lemma sized_qstep: "sized p i q \<Longrightarrow> sized p i (qstep l q)"
proof (cases "qexec l q")
  case (Some q')
  assume sized: "sized p i q"
  then have wf: "queue_wf q" by (simp add: sized_def)
  have "map lane_config (lanes q') = map lane_config (lanes q)"
  proof (cases "is_LClose l")
    case True
    with Some show ?thesis
      by (cases l)
        (auto simp: lane_close_def update_lane_def map_update list_update_same_conv split: if_splits)
  next
    case False
    have "map snd (map lane_static (lanes q')) = map snd (map lane_static (lanes q))"
      by (simp only: lanes_static_qexec [OF wf Some False])
    moreover have "snd \<circ> lane_static = lane_config" by (auto simp: lane_static_def)
    ultimately show ?thesis by simp
  qed
  then have "length (lanes q') = length (lanes q)"
    and "i < length (lanes q) \<Longrightarrow> lane_config (lanes q' ! i) = lane_config (lanes q ! i)"
    by (metis length_map, metis length_map nth_map)
  with sized Some queue_wf_qexec [OF wf Some] show ?thesis by (simp add: sized_def qstep_def)
qed (simp add: qstep_def)

lemma running_bounded: "sized p i q \<Longrightarrow> running_in i q \<le> p"
proof -
  assume sized: "sized p i q"
  then have "lane_ok (tasks q) i (lanes q ! i)" by (simp add: sized_def queue_wf_def)
  then have "length (filter (\<lambda>u. task_lane u = i) (tasks q)) \<le> p"
    using sized by (simp add: sized_def lane_ok_def)
  moreover have "running_in i q \<le> length (filter (\<lambda>u. task_lane u = i) (tasks q))"
    unfolding running_in_def by (simp add: length_filter_conv_card card_mono)
      (auto intro!: card_mono)
  ultimately show ?thesis by simp
qed

lemma watch_bounded: "sized p i q \<Longrightarrow> watch k m ls q = (m', q') \<Longrightarrow> sized p i q' \<and> (k = i \<longrightarrow> m \<le> p \<longrightarrow> m' \<le> p)"
proof (induction ls arbitrary: m q)
  case (Cons l ls)
  from Cons.IH [OF sized_qstep [OF Cons.prems(1)]] Cons.prems running_bounded [OF Cons.prems(1)]
  show ?case by auto
qed (auto simp: running_bounded)

lemma push_now_steps:
  "\<exists>ls. fst (snd (push_now j s)) = qrun ls (fst s)"
proof (cases "push_claim j (fst s)")
  case (Pair c q)
  have claim: "q = qrun [LPush j] (fst s)" by (simp add: Pair qstep_def)
  show ?thesis
  proof (cases c)
    case (PushClaimed rx)
    then show ?thesis
    proof (cases "push_send rx q")
      case None
      with PushClaimed Pair claim show ?thesis
        by (auto simp: push_now_def queue_push_def push_def simp del: qrun.simps)
    next
      case (Some x)
      then have "snd x = qrun [LPush j, LSend rx] (fst s)"
        using claim by (simp add: qstep_def)
      with Some PushClaimed Pair show ?thesis
        by (cases x; cases "fst x") (auto simp: push_now_def queue_push_def push_def simp del: qrun.simps)
    qed
  qed (use Pair claim in \<open>auto simp: push_now_def queue_push_def push_def simp del: qrun.simps\<close>)
qed

lemma sized_qrun: "sized p i q \<Longrightarrow> sized p i (qrun ls q)"
  by (induction ls arbitrary: q) (simp_all add: sized_qstep)

lemma sized_push_many: "sized p i q \<Longrightarrow> push_many name pr ns q = (ok, q') \<Longrightarrow> sized p i q'"
proof (induction ns arbitrary: q ok)
  case (Cons n ns)
  obtain a q1 fs where 1: "push_now (new_job (name @ show_nat n) pr 0) (q, []) = (a, q1, fs)"
    by (metis prod.exhaust)
  with push_now_steps [of "new_job (name @ show_nat n) pr 0" "(q, [])"] Cons.prems(1) have "sized p i q1"
    by (auto simp: sized_qrun)
  with Cons.IH Cons.prems(2) 1 show ?case by (auto split: prod.splits)
qed simp

text \<open>The pushes before that are all accepted at once: the lane has room for them and their keys are new.\<close>

lemma push_now_fits:
  assumes "pushes q = []" and "statemap q (job_key j) = None"
    and "lane_open (lanes q ! i)" and "length (lane_buf (lanes q ! i)) < unat (capacity (lane_config (lanes q ! i)))"
    and "i = priority_index (job_priority j)" and "i < length (lanes q)"
  shows "\<exists>q'. push_now j (q, fs) = (Some (Queued (length (oneshots q))), q', fs) \<and> pushes q' = [] \<and>
    statemap q' = (statemap q)(job_key j \<mapsto> SPending) \<and> length (lanes q') = length (lanes q) \<and>
    lanes q' ! i = (lanes q ! i)\<lparr>lane_buf := lane_buf (lanes q ! i) @ [j]\<rparr>"
  using assms
  by (auto simp: push_now_def queue_push_def push_def push_claim_def add_waiter_def push_send_def Let_def
      remove_push_def update_lane_def)

lemma push_many_fits:
  assumes "pushes q = []" and "distinct ns" and "\<And>n. n \<in> set ns \<Longrightarrow> statemap q (name @ show_nat n) = None"
    and "lane_open (lanes q ! priority_index p)" and "priority_index p < length (lanes q)"
    and "length (lane_buf (lanes q ! priority_index p)) + length ns
      \<le> unat (capacity (lane_config (lanes q ! priority_index p)))"
  shows "\<exists>q'. push_many name p ns q = (True, q')"
  using assms
proof (induction ns arbitrary: q)
  case (Cons n ns)
  let ?j = "new_job (name @ show_nat n) p 0"
  have "\<exists>q'. push_now ?j (q, []) = (Some (Queued (length (oneshots q))), q', []) \<and> pushes q' = [] \<and>
      statemap q' = (statemap q)(job_key ?j \<mapsto> SPending) \<and> length (lanes q') = length (lanes q) \<and>
      lanes q' ! priority_index p =
        (lanes q ! priority_index p)\<lparr>lane_buf := lane_buf (lanes q ! priority_index p) @ [?j]\<rparr>"
    by (rule push_now_fits) (use Cons.prems(3) [of n] Cons.prems(1,4-6) in \<open>simp_all add: new_job_def\<close>)
  then obtain q1 where q1: "push_now ?j (q, []) = (Some (Queued (length (oneshots q))), q1, [])" "pushes q1 = []"
      "statemap q1 = (statemap q)(name @ show_nat n \<mapsto> SPending)" "length (lanes q1) = length (lanes q)"
      "lanes q1 ! priority_index p =
         (lanes q ! priority_index p)\<lparr>lane_buf := lane_buf (lanes q ! priority_index p) @ [?j]\<rparr>"
    unfolding new_job_def job.simps by blast
  have "statemap q1 (name @ show_nat m) = None" if "m \<in> set ns" for m
  proof -
    have "show_nat m \<noteq> show_nat n" using that Cons.prems(2) show_nat_inj by fastforce
    then show ?thesis using Cons.prems(3) [of m] that q1(3) by simp
  qed
  from Cons.IH [OF q1(2) _ this] Cons.prems(2,4-6) q1(4,5) obtain q2 where "push_many name p ns q1 = (True, q2)"
    by auto
  with q1(1) show ?case by simp
qed simp

lemma started_queue_eq:
  "started_queue b =
     (\<lparr>statemap = Map.empty, waiters = Map.empty, oneshots = [], lanes = map new_lane b, pushes = [], tasks = [],
       next_task = 0, send_error_text = send_error_display demo_tokio\<rparr>, [])"
  by (simp add: started_queue_def start_def demo_tokio_def list_ex_iff)

lemma test_jobs_fit:
  "\<exists>q. push_many ''job-'' High [0..<10]
    (fst (started_queue (builder_lane High \<lparr>capacity = 50, permits = 5\<rparr> builder_default))) = (True, q)"
  "\<exists>q. push_many ''low-'' Low [0..<10]
    (fst (started_queue (builder_lane High \<lparr>capacity = 50, permits = 4\<rparr>
      (builder_lane Low \<lparr>capacity = 50, permits = 1\<rparr> builder_default)))) = (True, q)"
  by (rule push_many_fits; simp add: started_queue_eq builder_lane_def builder_default_def
      default_lane_config_def priority_count_def numeral_3_eq_3 new_lane_def)+

lemma permits_respected_passes:
  assumes "push_many ''job-'' High [0..<10]
      (fst (started_queue (builder_lane High \<lparr>capacity = 50, permits = 5\<rparr> builder_default))) = (True, q)"
    and "watch 2 0 ls q = (m, q')"
    and "list_all (\<lambda>n. queue_state (''job-'' @ show_nat n) q' = Some (SCompleted [])) [0..<10]"
  shows "concurrency_never_exceeds_lane_permits ls"
proof -
  have "sized 5 2 (fst (started_queue (builder_lane High \<lparr>capacity = 50, permits = 5\<rparr> builder_default)))"
    unfolding sized_def by code_simp
  from watch_bounded [OF sized_push_many [OF this assms(1)] assms(2)] assms show ?thesis
    by (simp add: concurrency_never_exceeds_lane_permits_def)
qed

lemma independent_lanes_passes:
  assumes "push_many ''low-'' Low [0..<10]
      (fst (started_queue (builder_lane High \<lparr>capacity = 50, permits = 4\<rparr>
        (builder_lane Low \<lparr>capacity = 50, permits = 1\<rparr> builder_default)))) = (True, q)"
    and "watch 0 0 ls1 q = (m, q1)" and "0 < running_in 0 q1"
    and "push_many ''high-'' High [0..<8] q1 = (True, q2)"
    and "watch 2 0 ls2 q2 = (high_max, q3)" and "1 < high_max"
  shows "lanes_have_independent_concurrency_limits ls1 ls2"
proof -
  let ?q = "fst (started_queue (builder_lane High \<lparr>capacity = 50, permits = 4\<rparr>
      (builder_lane Low \<lparr>capacity = 50, permits = 1\<rparr> builder_default)))"
  have start: "sized 1 0 ?q" "sized 4 2 ?q" unfolding sized_def by code_simp+
  have low: "running_in 0 q1 \<le> 1"
    using watch_bounded [OF sized_push_many [OF start(1) assms(1)] assms(2)] running_bounded by blast
  have "sized 4 2 q1" using watch_bounded [OF sized_push_many [OF start(2) assms(1)] assms(2)] by simp
  from watch_bounded [OF sized_push_many [OF this assms(4)] assms(5)] low assms show ?thesis
    by (simp add: lanes_have_independent_concurrency_limits_def)
qed

section \<open>Cancelling a push that waits\<close>

definition slow_job :: "key \<Rightarrow> job" where
  "slow_job k = new_job k High 0"

definition narrow_lane :: queue_builder where
  "narrow_lane = builder_lane High \<lparr>capacity = 1, permits = 1\<rparr> builder_default"

text \<open>Three slow jobs fill the lane: one runs, one is held by its worker, one is in its channel; the worker moves in between.\<close>

definition filled :: "qlabel list \<Rightarrow> qlabel list \<Rightarrow> bool \<times> queue" where
  "filled ls1 ls2 =
     (let (a, s) = push_now (slow_job ''filler-0'') (started_queue narrow_lane);
          (b, s) = push_now (slow_job ''filler-1'') (while_waiting (\<lambda>_. Ok ''slow'') ls1 s);
          (c, s) = push_now (slow_job ''filler-2'') (while_waiting (\<lambda>_. Ok ''slow'') ls2 s) in
      (is_queued a \<and> is_queued b \<and> is_queued c, fst s))"

text \<open>The timeout drops the future of the push; its one-shot channel is the last one made.\<close>

definition cancelling_a_blocked_push_releases_the_key ::
    "qlabel list \<Rightarrow> qlabel list \<Rightarrow> qlabel list \<Rightarrow> qlabel list \<Rightarrow> bool" where
  "cancelling_a_blocked_push_releases_the_key ls1 ls2 ls3 ls4 =
     (case filled ls1 ls2 of (ok, q) \<Rightarrow>
        (case queue_push (slow_job ''cancelled-key'') ls3 q of
           (Blocked, sc, q') \<Rightarrow>
             (case push_drop (length (oneshots q)) q' of
                Some q'' \<Rightarrow>
                  ok \<and> is_queued (fst (push_now (slow_job ''cancelled-key'') (while_waiting (\<lambda>_. Ok ''slow'') ls4 (q'', []))))
              | None \<Rightarrow> False)
         | _ \<Rightarrow> False))"

lemma cancelled_push_passes:
  "cancelling_a_blocked_push_releases_the_key (job_hang High 0) [LRecv 2] [LSpawn 2]
     (job_end 0 (Ok ''slow'') @ [LSpawn 2, LStart 1] @ job_end 1 (Ok ''slow'') @ job_round High 2 (Ok ''slow''))"
  by code_simp

definition cancelling_a_blocked_push_resolves_a_joined_caller_with_job_lost ::
    "qlabel list \<Rightarrow> qlabel list \<Rightarrow> qlabel list \<Rightarrow> bool" where
  "cancelling_a_blocked_push_resolves_a_joined_caller_with_job_lost ls1 ls2 ls3 =
     (case filled ls1 ls2 of (ok, q) \<Rightarrow>
        (case queue_push (slow_job ''abandoned'') ls3 q of
           (Blocked, sc, q') \<Rightarrow>
             (case push_now (slow_job ''abandoned'') (q', []) of
                (Some (InFlight rx), q'', fs) \<Rightarrow>
                  (case push_drop (length (oneshots q)) q'' of
                     Some q3 \<Rightarrow> ok \<and> poll_handle rx q3 = Ready (Err JobLost)
                   | None \<Rightarrow> False)
              | _ \<Rightarrow> False)
         | _ \<Rightarrow> False))"

lemma joined_caller_passes:
  "cancelling_a_blocked_push_resolves_a_joined_caller_with_job_lost (job_hang High 0) [LRecv 2] [LSpawn 2]"
  by code_simp

end
