(* ===== verification/TestEval.thy ===== *)
theory TestEval
  imports EngineRuns QueueRound
begin

text \<open>
  Evaluating a call of the engine on a concrete workflow: rewrite rules for complete calls, which the
  simplifier applies from the first action on.  The queue stays symbolic: what is known of it is that
  it accepts jobs, which keys are open, and what the handles answer.
\<close>

section \<open>The queue\<close>

definition is_sent :: "priority \<Rightarrow> queue \<Rightarrow> queue \<Rightarrow> bool" where
  "is_sent p q q' \<longleftrightarrow> (\<exists>j. q' = sent j q \<and> job_priority j = p)"

lemma is_sent [simp]: "job_priority j = p \<Longrightarrow> is_sent p q (sent j q)"
  by (auto simp: is_sent_def)

lemma qrun_round [simp]:
  "job_priority j = p \<Longrightarrow> next_task q = t \<Longrightarrow> qrun (job_round p t r) (sent j q) = after_job j r q"
  by (simp add: after_job_def)

lemma qrun_hang [simp]:
  "job_priority j = p \<Longrightarrow> next_task q = t \<Longrightarrow> qrun (job_hang p t) (sent j q) = hung j q"
  by (simp add: hung_def)

lemma qrun_end [simp]:
  "next_task q = t \<Longrightarrow> qrun (job_end t r) (hung j q) = after_job j r q"
  by (simp add: after_job_hung)

lemma new_job_fields [simp]: "job_key (new_job k p f) = k" "job_priority (new_job k p f) = p"
  by (simp_all add: new_job_def)

lemma eval_epush_new:
  assumes "accepting (wqueue w)" and "key_open (job_key j) (wqueue w)"
  shows "epush E j ([] # sc) w =
    (Ready (Ok (Queued (length (oneshots (wqueue w))))), sc, w\<lparr>wqueue := sent j (wqueue w)\<rparr>)"
  using push_round [OF assms, of wqueue w "\<lambda>q w. w\<lparr>wqueue := q\<rparr>" "env_run E"]
  by (simp add: epush_def ebind_def eyield_def env_run_def)

lemma eval_epush_cached:
  assumes "statemap (wqueue w) (job_key j) = Some (SCompleted out)"
  shows "epush E j ([] # sc) w = (Ready (Ok (Cached out)), sc, w)"
  using assms by (simp add: epush_def ebind_def eyield_def env_run_def push_def push_claim_def)

lemma env_run_queue: "env_run E (map EQueue ls @ acts) w = env_run E acts (w\<lparr>wqueue := qrun ls (wqueue w)\<rparr>)"
  by (induction ls arbitrary: w) (simp_all add: env_run_def)

lemma eval_await:
  assumes "is_sent p q (wqueue w)" and "accepting q" and "next_task q = t"
    and "case timeout of None \<Rightarrow> True | Some d \<Rightarrow> 0 < nanos_of d"
  shows "await_job_renewing_lease E wid i (length (oneshots q)) timeout (map EQueue (job_round p t r) # sc) w =
    (Ready (Ok (guard_outcome r)), sc, w\<lparr>wqueue := qrun (job_round p t r) (wqueue w), renewal_task := None\<rparr>)"
proof -
  from assms(1) obtain j where j: "wqueue w = sent j q" "job_priority j = p" by (auto simp: is_sent_def)
  with assms(2-4) env_run_queue [of E _ "[]"] show ?thesis
    unfolding await_job_renewing_lease_def Let_def
    by (cases timeout; cases sc) (simp_all add: job_poll_def env_run_def)
qed

text \<open>A body that hangs: the deadline passes instead.\<close>

lemma eval_await_timeout:
  assumes "is_sent p q (wqueue w)" and "accepting q" and "next_task q = t"
    and "0 < nanos_of d" and "nanos_of d \<le> n"
  shows "await_job_renewing_lease E wid i (length (oneshots q)) (Some d) ((map EQueue (job_hang p t) @ [ETick n]) # sc) w =
    (Ready (Ok (OFailed (timeout_reason d))), sc,
      w\<lparr>wqueue := qrun (job_hang p t) (wqueue w), clock := clock w + n, renewal_task := None\<rparr>)"
proof -
  from assms(1) obtain j where j: "wqueue w = sent j q" "job_priority j = p" by (auto simp: is_sent_def)
  with assms(2-5) show ?thesis
    unfolding await_job_renewing_lease_def Let_def
    by (cases sc) (simp_all add: job_poll_def env_run_queue)
qed

section \<open>The engine\<close>

lemma env_run_step: "env_run E (a # b # acts) w = env_run E (b # acts) (env_act E a w)"
  by (simp add: env_run_def)


text \<open>\<open>run_step\<close> is unfolded only when it is called.\<close>

lemma run_step_entered:
  "run_step E wid i step body attempt sc w =
     ebind (run_attempt E wid i step body attempt) (\<lambda>r.
       case r of
         AttemptReturn outcome \<Rightarrow> eret outcome
       | AttemptFailed reason \<Rightarrow>
           (if attempt + 1 < max_attempts (step_retry_policy step) then
              ebind (retry_pause E wid i step attempt (attempt + 1)) (\<lambda>cancelled.
                if cancelled then eret OutcomeWaiting
                else run_step E wid i step body (attempt + 1))
            else
              ebind (store_append E (WorkflowFailed wid reason)) (\<lambda>_. eerr (EngineWorkflowFailed reason)))) sc w"
  by (subst run_step.simps) simp

lemma eval_sleep:
  "nanos_of d = n \<Longrightarrow> sleep E d ([ETick n] # sc) w =
     (Ready (Ok ()), (if n = 0 then [ETick n] # sc else sc), w\<lparr>clock := clock w + n\<rparr>)"
  by (cases sc) (simp_all add: sleep_def env_run_def)

lemma ebind_call:
  "ebind m f sc w =
     (case m sc w of
        (Ready (Ok a), sc', w') \<Rightarrow> f a sc' w'
      | (Ready (Err e), sc', w') \<Rightarrow> (Ready (Err e), sc', w')
      | (Ready Panic, sc', w') \<Rightarrow> (Ready Panic, sc', w')
      | (Blocked, sc', w') \<Rightarrow> (Blocked, sc', w'))"
  by (simp add: ebind_def)

lemma job_key_of_inject_simp [simp]:
  "job_key_of wid i a = job_key_of wid' i' a' \<longleftrightarrow> wid = wid' \<and> i = i' \<and> a = a'"
  by (rule job_key_of_inject)

lemmas call_eval =
  ebind_call run_step_entered eret_def eerr_def eval_atom eval_lock eval_epush_new eval_epush_cached eval_await
  eval_await_timeout eval_sleep store_call_def store_append_def store_load_def store_claim_def drop_from_in_flight_def
  mounted_steps_and_bodies_def or_drop_def run_attempt_def record_outcome_def retry_pause_def
  register_workflow_def run_def drive_from_def complete_workflow_def cancel_def resume_def run_and_continue_def
  workflow_has_terminal_event_def workflow_is_cancelled_def is_terminal_def is_cancelled_def Let_def
  step_status_from_events_def current_attempt_from_events_def

end
