(* ===== verification/EngineTests.thy ===== *)
theory EngineTests
  imports TestEval
begin

text \<open>
  The unit tests of \<open>src/engine.rs\<close> over the store they define, as predicates on a schedule: the body
  of a step is the function from the number of its call to the result (\<open>None\<close> when it hangs), the
  schedule is built from it, and the predicate makes the calls of the test and checks its assertions.
  A counter a test keeps of the calls of a body is read off the queue: the tasks it has spawned, and the
  state of the key of a step that must not have run.  Each test passes on a schedule in which nothing else
  interferes, which shows the definitions of \<open>EngineModel\<close> at work on the cases the authors chose.
\<close>

section \<open>Helpers of the tests\<close>

fun is_workflow_completed :: "event \<Rightarrow> bool" where
  "is_workflow_completed (WorkflowCompleted w) = True"
| "is_workflow_completed e = False"

fun is_workflow_failed :: "event \<Rightarrow> bool" where
  "is_workflow_failed (WorkflowFailed w r) = True"
| "is_workflow_failed e = False"

fun is_step_failed :: "event \<Rightarrow> bool" where
  "is_step_failed (StepFailed w i r) = True"
| "is_step_failed e = False"

fun is_retry_scheduled :: "event \<Rightarrow> bool" where
  "is_retry_scheduled (RetryScheduled w i a) = True"
| "is_retry_scheduled e = False"

fun is_step_completed :: "event \<Rightarrow> bool" where
  "is_step_completed (StepCompleted w i out) = True"
| "is_step_completed e = False"

fun is_waiting_at :: "usize \<Rightarrow> event \<Rightarrow> bool" where
  "is_waiting_at i (StepWaiting w j r) \<longleftrightarrow> j = i"
| "is_waiting_at i e \<longleftrightarrow> False"

definition workflow_completed :: "event list \<Rightarrow> bool" where
  "workflow_completed events = list_ex is_workflow_completed events"

definition filter_step_lifecycle :: "event list \<Rightarrow> event list" where
  "filter_step_lifecycle events =
     filter (\<lambda>e. is_step_failed e \<or> is_retry_scheduled e \<or> is_step_completed e) events"

definition count_workflow_completed :: "event list \<Rightarrow> nat" where
  "count_workflow_completed events = length (filter is_workflow_completed events)"

definition count_workflow_cancelled :: "event list \<Rightarrow> nat" where
  "count_workflow_cancelled events = length (filter is_cancelled events)"

definition test_engine :: "log_store engine" where
  "test_engine = engine_with log_ops ''worker-1'' (Duration 60 0) High"

definition test_world :: "log_store world" where
  "test_world = engine_new demo_queue [] 0"

text \<open>A test is a program of calls and checks; an \<open>expect\<close> or an \<open>assert!\<close> that fails is a panic.\<close>

definition echeck :: "('s world \<Rightarrow> bool) \<Rightarrow> (unit, 's) prog" where
  "echeck P sc w = (if P w then eret () sc w else epanic sc w)"

definition expect_err :: "(engine_error \<Rightarrow> bool) \<Rightarrow> ('a, 's) prog \<Rightarrow> (unit, 's) prog" where
  "expect_err P m sc w =
     (case m sc w of
        (Ready (Err e), sc', w') \<Rightarrow> (if P e then eret () sc' w' else epanic sc' w')
      | (Ready r, sc', w') \<Rightarrow> epanic sc' w'
      | (Blocked, sc', w') \<Rightarrow> (Blocked, sc', w'))"

definition passes :: "(unit, 's) prog \<Rightarrow> sched \<Rightarrow> 's world \<Rightarrow> bool" where
  "passes m sc w = (case m sc w of (Ready (Ok a), sc', w') \<Rightarrow> True | _ \<Rightarrow> False)"

fun is_workflow_failed_error :: "engine_error \<Rightarrow> bool" where
  "is_workflow_failed_error (EngineWorkflowFailed r) = True"
| "is_workflow_failed_error e = False"

fun is_backend_error :: "engine_error \<Rightarrow> bool" where
  "is_backend_error (EngineStore (Backend m)) = True"
| "is_backend_error e = False"

type_synonym body = "nat \<Rightarrow> job_result option"

definition retry_policy_of :: "u32 \<Rightarrow> u64 \<Rightarrow> retry_policy" where
  "retry_policy_of attempts millis =
     \<lparr>max_attempts = attempts, policy_backoff = Fixed (duration_from_millis millis)\<rparr>"

definition no_retry :: retry_policy where
  "no_retry = retry_policy_of 1 1"

definition step_of :: "string \<Rightarrow> retry_policy \<Rightarrow> duration option \<Rightarrow> step_def" where
  "step_of name policy timeout =
     \<lparr>step_name = name, step_retry_policy = policy, step_timeout = timeout\<rparr>"

section \<open>Schedules\<close>

text \<open>Task \<open>t\<close> runs a body that ends with \<open>r\<close>, or hangs until the clock has advanced by \<open>n\<close>.\<close>

definition call_sched :: "nat \<Rightarrow> nat \<Rightarrow> job_result option \<Rightarrow> sched" where
  "call_sched n t r =
     [[], [], [], (case r of Some r \<Rightarrow> map EQueue (job_round High t r) | None \<Rightarrow> map EQueue (job_hang High t) @ [ETick n]), []]"

definition start_sched :: sched where
  "start_sched = [[], [], [], []]"

definition retry_sched :: "nat \<Rightarrow> sched" where
  "retry_sched n = [[], [ETick n], []]"

definition end_sched :: sched where
  "end_sched = [[], [], [], []]"

lemmas test_eval =
  call_eval echeck_def expect_err_def passes_def test_world_def test_engine_def engine_with_def engine_new_def
  log_ops_def log_append_event_def log_load_events_def log_claim_step_def
  call_sched_def start_sched_def retry_sched_def end_sched_def retry_policy_of_def no_retry_def step_of_def
  duration_from_millis_def nanos_of_def backoff_duration_def accepting_demo priority_count_def
  workflow_completed_def filter_step_lifecycle_def count_workflow_completed_def count_workflow_cancelled_def

lemma plain_failures [simp]:
  "parse_waiting_reason ''first try failed'' = None" "parse_non_retryable_reason ''first try failed'' = None"
  "parse_waiting_reason ''boom'' = None" "parse_non_retryable_reason ''boom'' = None"
  "parse_waiting_reason ''transient failure'' = None" "parse_non_retryable_reason ''transient failure'' = None"
  by code_simp+

section \<open>Retries\<close>

definition retry_after_failure_then_completes :: "(body \<Rightarrow> sched) \<Rightarrow> bool" where
  "retry_after_failure_then_completes sched =
     (let body = (\<lambda>n. Some (if n = 0 then Err ''first try failed'' else Ok ''ok''));
          wflow = \<lparr>workflow_id = ''wf-retry'', workflow_steps = [step_of ''only'' (retry_policy_of 2 1) None]\<rparr>
      in passes
        (ebind (run test_engine wflow [0]) (\<lambda>_.
         ebind (store_load test_engine ''wf-retry'') (\<lambda>events.
         echeck (\<lambda>_. workflow_completed events \<and>
           (let lifecycle = filter_step_lifecycle events in
             length lifecycle = 3 \<and> is_step_failed (lifecycle ! 0) \<and>
             is_retry_scheduled (lifecycle ! 1) \<and> is_step_completed (lifecycle ! 2)))))) (sched body) test_world)"

lemma retry_after_failure_then_completes_passes:
  "retry_after_failure_then_completes (\<lambda>body.
     start_sched @ call_sched 0 0 (body 0) @ retry_sched 1000000 @ call_sched 0 1 (body 1) @ end_sched @ [[]])"
  by (simp add: retry_after_failure_then_completes_def test_eval)


definition non_retryable_failure_fails_workflow_without_scheduling_retry :: "(body \<Rightarrow> sched) \<Rightarrow> bool" where
  "non_retryable_failure_fails_workflow_without_scheduling_retry sched =
     (let body = (\<lambda>n. Some (Err (non_retryable_display ''bad request'')));
          wflow = \<lparr>workflow_id = ''wf-non-retryable'',
                   workflow_steps = [step_of ''only'' (retry_policy_of 5 1) None]\<rparr>
      in passes
        (ebind (expect_err is_workflow_failed_error (run test_engine wflow [0])) (\<lambda>_.
         ebind (store_load test_engine ''wf-non-retryable'') (\<lambda>events.
         echeck (\<lambda>_. list_ex is_workflow_failed events \<and> \<not> list_ex is_retry_scheduled events))))
        (sched body) test_world)"

lemma non_retryable_failure_fails_workflow_without_scheduling_retry_passes:
  "non_retryable_failure_fails_workflow_without_scheduling_retry
     (\<lambda>body. start_sched @ call_sched 0 0 (body 0) @ [[], [], []])"
  by (simp add: non_retryable_failure_fails_workflow_without_scheduling_retry_def test_eval)

definition step_timeout_retries_then_workflow_fails_when_attempts_exhausted :: "(body \<Rightarrow> sched) \<Rightarrow> bool" where
  "step_timeout_retries_then_workflow_fails_when_attempts_exhausted sched =
     (let body = (\<lambda>n. None);
          wflow = \<lparr>workflow_id = ''wf-timeout-fail'', workflow_steps =
            [step_of ''hang'' (retry_policy_of 2 1) (Some (duration_from_millis 20))]\<rparr>
      in passes
        (ebind (expect_err is_workflow_failed_error (run test_engine wflow [0])) (\<lambda>_.
         ebind (store_load test_engine ''wf-timeout-fail'') (\<lambda>events.
         echeck (\<lambda>_. \<not> workflow_completed events \<and> list_ex is_workflow_failed events \<and>
           length (filter is_retry_scheduled events) = 1))))
        (sched body) test_world)"

lemma step_timeout_retries_then_workflow_fails_when_attempts_exhausted_passes:
  "step_timeout_retries_then_workflow_fails_when_attempts_exhausted (\<lambda>body.
     start_sched @ call_sched 20000000 0 (body 0) @ retry_sched 1000000 @ call_sched 20000000 1 (body 1) @ [[], [], []])"
  by (simp add: step_timeout_retries_then_workflow_fails_when_attempts_exhausted_def test_eval)

definition step_timeout_on_first_attempt_then_succeeds_on_retry :: "(body \<Rightarrow> sched) \<Rightarrow> bool" where
  "step_timeout_on_first_attempt_then_succeeds_on_retry sched =
     (let body = (\<lambda>n. if n = 0 then None else Some (Ok ''ok''));
          wflow = \<lparr>workflow_id = ''wf-timeout-retry-ok'', workflow_steps =
            [step_of ''recover'' (retry_policy_of 2 1) (Some (duration_from_millis 20))]\<rparr>
      in passes
        (ebind (run test_engine wflow [0]) (\<lambda>_.
         ebind (store_load test_engine ''wf-timeout-retry-ok'') (\<lambda>events.
         echeck (\<lambda>_. workflow_completed events \<and>
           (let lifecycle = filter_step_lifecycle events in
             length lifecycle = 3 \<and> is_step_failed (lifecycle ! 0) \<and>
             is_retry_scheduled (lifecycle ! 1) \<and> is_step_completed (lifecycle ! 2)))))) (sched body) test_world)"

lemma step_timeout_on_first_attempt_then_succeeds_on_retry_passes:
  "step_timeout_on_first_attempt_then_succeeds_on_retry (\<lambda>body.
     start_sched @ call_sched 20000000 0 (body 0) @ retry_sched 1000000 @ call_sched 20000000 1 (body 1) @ end_sched @ [[]])"
  by (simp add: step_timeout_on_first_attempt_then_succeeds_on_retry_def test_eval)


section \<open>Waiting\<close>

text \<open>
  The counter \<open>step2_ran\<close>: the steps before it have been called as often as there are tasks so far, and
  the key of the last step is unknown before the call of \<open>resume\<close> and has its output after it.
\<close>

definition waiting_step_pauses_workflow_until_resumed_then_continues ::
    "(body \<Rightarrow> body \<Rightarrow> body \<Rightarrow> sched) \<Rightarrow> bool" where
  "waiting_step_pauses_workflow_until_resumed_then_continues sched =
     (let step0 = (\<lambda>n. Some (Ok ''first''));
          step1 = (\<lambda>n. Some (if n = 0 then Err (wait_for_input_display ''need approval'') else Ok ''approved''));
          step2 = (\<lambda>n. Some (Ok ''done''));
          wflow = \<lparr>workflow_id = ''wf-wait'', workflow_steps =
            [step_of ''first'' no_retry None, step_of ''approval'' no_retry None, step_of ''last'' no_retry None]\<rparr>
      in passes
        (ebind (run test_engine wflow [0, 1, 2]) (\<lambda>_.
         ebind (echeck (\<lambda>w. next_task (wqueue w) = 2 \<and>
           queue_state (job_key_of ''wf-wait'' 2 0) (wqueue w) = None)) (\<lambda>_.
         ebind (store_load test_engine ''wf-wait'') (\<lambda>events.
         ebind (echeck (\<lambda>_. list_ex (is_waiting_at 1) events \<and> \<not> workflow_completed events)) (\<lambda>_.
         ebind (resume test_engine ''wf-wait'' 1 ''approved by human'') (\<lambda>_.
         ebind (echeck (\<lambda>w. next_task (wqueue w) = 4 \<and>
           queue_state (job_key_of ''wf-wait'' 2 0) (wqueue w) = Some (SCompleted ''done''))) (\<lambda>_.
         ebind (store_load test_engine ''wf-wait'') (\<lambda>events.
         echeck (\<lambda>_. workflow_completed events)))))))))
        (sched step0 step1 step2) test_world)"

lemma waiting_step_pauses_workflow_until_resumed_then_continues_passes:
  "waiting_step_pauses_workflow_until_resumed_then_continues (\<lambda>step0 step1 step2.
     (start_sched @ call_sched 0 0 (step0 0) @ [[]] @ call_sched 0 1 (step1 0)) @ [[]] @
     ([[], [], []] @ call_sched 0 2 (step1 1) @ [[]] @ [[]] @ call_sched 0 3 (step2 0) @ end_sched) @ [[]])"
  by (simp add: waiting_step_pauses_workflow_until_resumed_then_continues_def test_eval queue_state_def)


section \<open>Cancellation\<close>

definition cancel_never_run_workflow_appends_one_cancelled_event :: "(body \<Rightarrow> sched) \<Rightarrow> bool" where
  "cancel_never_run_workflow_appends_one_cancelled_event sched =
     (let body = (\<lambda>n. Some (Ok ''x''));
          wflow = \<lparr>workflow_id = ''wf-cancel-fresh'', workflow_steps = [step_of ''only'' no_retry None]\<rparr>
      in passes
        (ebind (register_workflow test_engine wflow [0]) (\<lambda>_.
         ebind (cancel test_engine ''wf-cancel-fresh'' ''user requested'') (\<lambda>_.
         ebind (store_load test_engine ''wf-cancel-fresh'') (\<lambda>events.
         echeck (\<lambda>_. count_workflow_cancelled events = 1))))) (sched body) test_world)"

lemma cancel_never_run_workflow_appends_one_cancelled_event_passes:
  "cancel_never_run_workflow_appends_one_cancelled_event (\<lambda>body. [])"
  by (simp add: cancel_never_run_workflow_appends_one_cancelled_event_def test_eval)

definition cancel_while_waiting_blocks_resume :: "(body \<Rightarrow> body \<Rightarrow> sched) \<Rightarrow> bool" where
  "cancel_while_waiting_blocks_resume sched =
     (let step0 = (\<lambda>n. Some (Ok ''first''));
          step1 = (\<lambda>n. Some (Err (wait_for_input_display ''need approval'')));
          wflow = \<lparr>workflow_id = ''wf-cancel-wait'', workflow_steps =
            [step_of ''first'' no_retry None, step_of ''approval'' no_retry None]\<rparr>
      in passes
        (ebind (run test_engine wflow [0, 1]) (\<lambda>_.
         ebind (cancel test_engine ''wf-cancel-wait'' ''no longer needed'') (\<lambda>_.
         expect_err is_backend_error (resume test_engine ''wf-cancel-wait'' 1 ''too late''))))
        (sched step0 step1) test_world)"

lemma cancel_while_waiting_blocks_resume_passes:
  "cancel_while_waiting_blocks_resume (\<lambda>step0 step1.
     start_sched @ call_sched 0 0 (step0 0) @ [[]] @ call_sched 0 1 (step1 0))"
  by (simp add: cancel_while_waiting_blocks_resume_def test_eval)

definition cancel_twice_appends_one_cancelled_event :: "(body \<Rightarrow> sched) \<Rightarrow> bool" where
  "cancel_twice_appends_one_cancelled_event sched =
     (let body = (\<lambda>n. Some (Ok ''x''));
          wflow = \<lparr>workflow_id = ''wf-cancel-twice'', workflow_steps = [step_of ''only'' no_retry None]\<rparr>
      in passes
        (ebind (register_workflow test_engine wflow [0]) (\<lambda>_.
         ebind (cancel test_engine ''wf-cancel-twice'' ''once'') (\<lambda>_.
         ebind (cancel test_engine ''wf-cancel-twice'' ''again'') (\<lambda>_.
         ebind (store_load test_engine ''wf-cancel-twice'') (\<lambda>events.
         echeck (\<lambda>_. count_workflow_cancelled events = 1)))))) (sched body) test_world)"

lemma cancel_twice_appends_one_cancelled_event_passes: "cancel_twice_appends_one_cancelled_event (\<lambda>body. [])"
  by (simp add: cancel_twice_appends_one_cancelled_event_def test_eval)

definition cancel_completed_workflow_does_not_add_cancelled_event :: "(body \<Rightarrow> sched) \<Rightarrow> bool" where
  "cancel_completed_workflow_does_not_add_cancelled_event sched =
     (let body = (\<lambda>n. Some (Ok ''done''));
          wflow = \<lparr>workflow_id = ''wf-cancel-done'', workflow_steps = [step_of ''only'' no_retry None]\<rparr>
      in passes
        (ebind (run test_engine wflow [0]) (\<lambda>_.
         ebind (cancel test_engine ''wf-cancel-done'' ''too late'') (\<lambda>_.
         ebind (store_load test_engine ''wf-cancel-done'') (\<lambda>events.
         echeck (\<lambda>_. count_workflow_cancelled events = 0 \<and> count_workflow_completed events = 1)))))
        (sched body) test_world)"

lemma cancel_completed_workflow_does_not_add_cancelled_event_passes:
  "cancel_completed_workflow_does_not_add_cancelled_event (\<lambda>body.
     start_sched @ call_sched 0 0 (body 0))"
  by (simp add: cancel_completed_workflow_does_not_add_cancelled_event_def test_eval)

text \<open>
  A call of \<open>cancel\<close> in another task, on a store that does not fail: its critical section, and the
  workflow leaves the ones in flight.
\<close>

definition other_cancel :: "string \<Rightarrow> string \<Rightarrow> env_action list" where
  "other_cancel wid reason = [ETerminal (WorkflowCancelled wid reason), EUnmount wid]"

definition cancel_between_steps_stops_before_next_step_and_no_completion ::
    "(body \<Rightarrow> body \<Rightarrow> env_action list \<Rightarrow> sched) \<Rightarrow> bool" where
  "cancel_between_steps_stops_before_next_step_and_no_completion sched =
     (let step0 = (\<lambda>n. Some (Ok ''first'')); step1 = (\<lambda>n. Some (Ok ''second''));
          wflow = \<lparr>workflow_id = ''wf-cancel-mid'', workflow_steps =
            [step_of ''first'' no_retry None, step_of ''second'' no_retry None]\<rparr>
      in passes
        (ebind (run test_engine wflow [0, 1]) (\<lambda>_.
         ebind (echeck (\<lambda>w. next_task (wqueue w) = 1 \<and>
           queue_state (job_key_of ''wf-cancel-mid'' 1 0) (wqueue w) = None)) (\<lambda>_.
         ebind (store_load test_engine ''wf-cancel-mid'') (\<lambda>events.
         echeck (\<lambda>_. count_workflow_cancelled events = 1 \<and> count_workflow_completed events = 0)))))
        (sched step0 step1 (other_cancel ''wf-cancel-mid'' ''stop'')) test_world)"

lemma cancel_between_steps_stops_before_next_step_and_no_completion_passes:
  "cancel_between_steps_stops_before_next_step_and_no_completion (\<lambda>step0 step1 stop.
     start_sched @ [[], [], [], map EQueue (job_round High 0 (the (step0 0))), stop, []])"
  by (simp add: cancel_between_steps_stops_before_next_step_and_no_completion_def test_eval other_cancel_def
      queue_state_def env_run_def terminal_section_def locked_event_def)

definition cancel_during_retry_backoff_stops_before_next_attempt ::
    "(body \<Rightarrow> env_action list \<Rightarrow> sched) \<Rightarrow> bool" where
  "cancel_during_retry_backoff_stops_before_next_attempt sched =
     (let step = (\<lambda>n. Some (Err ''transient failure''));
          wflow = \<lparr>workflow_id = ''wf-cancel-during-backoff'', workflow_steps =
            [step_of ''flaky'' (retry_policy_of 3 300) None]\<rparr>
      in passes
        (ebind (run test_engine wflow [0]) (\<lambda>_.
         ebind (echeck (\<lambda>w. next_task (wqueue w) = 1)) (\<lambda>_.
         ebind (store_load test_engine ''wf-cancel-during-backoff'') (\<lambda>events.
         echeck (\<lambda>_. count_workflow_cancelled events = 1 \<and> count_workflow_completed events = 0 \<and>
           \<not> list_ex is_workflow_failed events)))))
        (sched step (other_cancel ''wf-cancel-during-backoff'' ''stop mid-backoff'')) test_world)"

lemma cancel_during_retry_backoff_stops_before_next_attempt_passes:
  "cancel_during_retry_backoff_stops_before_next_attempt (\<lambda>step stop.
     start_sched @ call_sched 0 0 (step 0) @ [[], ETick 100000000 # stop, [ETick 200000000], []])"
  by (simp add: cancel_during_retry_backoff_stops_before_next_attempt_def test_eval other_cancel_def
      env_run_def terminal_section_def locked_event_def sleep_def del: eval_sleep)

section \<open>Cleaning up\<close>

text \<open>The body, whose drop the test observes, is retained as long as the workflow is in flight.\<close>

definition resume_failure_cleans_up_in_flight_workflow :: "(body \<Rightarrow> sched) \<Rightarrow> bool" where
  "resume_failure_cleans_up_in_flight_workflow sched =
     (let body = (\<lambda>n. Some (Err (if n = 0 then wait_for_input_display ''needs approval'' else ''boom'')));
          wflow = \<lparr>workflow_id = ''wf-resume-cleanup'', workflow_steps = [step_of ''only'' no_retry None]\<rparr>;
          dropped = (\<lambda>w. \<not> (case in_flight w ''wf-resume-cleanup'' of
            Some r \<Rightarrow> 0 \<in> set (running_bodies r) | None \<Rightarrow> False))
      in passes
        (ebind (run test_engine wflow [0]) (\<lambda>_.
         ebind (echeck (\<lambda>w. \<not> dropped w)) (\<lambda>_.
         ebind (expect_err is_workflow_failed_error
           (resume test_engine ''wf-resume-cleanup'' 0 ''approved'')) (\<lambda>_.
         echeck dropped)))) (sched body) test_world)"

lemma resume_failure_cleans_up_in_flight_workflow_passes:
  "resume_failure_cleans_up_in_flight_workflow (\<lambda>body.
     start_sched @ call_sched 0 0 (body 0) @ [[], [], []] @ call_sched 0 1 (body 1))"
  by (simp add: resume_failure_cleans_up_in_flight_workflow_def test_eval)

end
