(* ===== verification/ConcurrentRunTest.thy ===== *)
theory ConcurrentRunTest
  imports EngineTests
begin

text \<open>
  The test of \<open>src/engine.rs\<close> that runs the same workflow twice at the same time.  A call is a program
  against a schedule of what the other call does, so the two calls are evaluated one after the other on
  the same interleaving, each seeing the other as actions of another task; that they end in the same
  world, up to what the first leaves the second to do, ties the two views together.
\<close>

section \<open>The queue\<close>

definition job_a :: job where
  "job_a = new_job (job_key_of ''wf-concurrent-fresh'' 0 0) High 0"

definition job_b :: job where
  "job_b = new_job (job_key_of ''wf-concurrent-fresh'' 0 0) High 1"

definition both_queue :: queue where
  "both_queue = snd (push_claim job_b (sent job_a demo_queue))"

definition both_done :: queue where
  "both_done = qrun (job_round High 0 (Ok ''done'')) both_queue"

lemma both_evals:
  "poll_handle 0 (sent job_a demo_queue) = Blocked"
  "poll_handle 0 both_queue = Blocked" "poll_handle (Suc 0) both_queue = Blocked"
  "poll_handle 0 both_done = Ready (Ok (OCompleted ''done''))"
  "poll_handle (Suc 0) both_done = Ready (Ok (OCompleted ''done''))"
  "next_task both_done = Suc 0"
  by code_simp+

lemma both_claim: "push_claim job_b (sent job_a demo_queue) = (PushReturn (InFlight 1), both_queue)"
proof -
  have "fst (push_claim job_b (sent job_a demo_queue)) = PushReturn (InFlight 1)" by code_simp
  then show ?thesis unfolding both_queue_def by (metis prod.collapse)
qed


lemma demo_oneshots [simp]: "oneshots demo_queue = []"
  by (simp add: demo_queue_eq)

lemma both_first: "qstep (LSend 0) (qstep (LPush job_a) demo_queue) = sent job_a demo_queue"
  using push_steps [OF accepting_demo, of job_a] by simp

lemma both_jobs [simp]:
  "job_key job_a = job_key_of ''wf-concurrent-fresh'' 0 0" "job_func job_a = 0"
  "job_key job_b = job_key_of ''wf-concurrent-fresh'' 0 0" "job_func job_b = 1"
  by (simp_all add: job_a_def job_b_def new_job_def)

lemma both_joined: "qstep (LPush job_b) (sent job_a demo_queue) = both_queue"
  by (simp add: qstep_def both_claim)

lemma both_pushed:
  "wqueue w = sent job_a demo_queue \<Longrightarrow>
     epush E job_b ([] # sc) w = (Ready (Ok (InFlight 1)), sc, w\<lparr>wqueue := both_queue\<rparr>)"
  by (simp add: eval_epush push_def both_claim)

section \<open>The test\<close>

text \<open>
  What one call does before it awaits the job, as seen by the other: it registers its bodies, records the
  start of the workflow, claims the step, records the attempt and pushes its job; and what it does
  when the job has ended.
\<close>

definition call_begins :: "step_def list \<Rightarrow> job \<Rightarrow> env_action list" where
  "call_begins steps j =
     [EMount ''wf-concurrent-fresh'' \<lparr>running_steps = steps, running_bodies = [job_func j]\<rparr>,
      EAppend (WorkflowStarted ''wf-concurrent-fresh''),
      EClaim ''wf-concurrent-fresh'' 0 ''worker-1'' (Duration 60 0),
      EAppend (StepStarted ''wf-concurrent-fresh'' 0 0), EQueue (LPush j)]"

definition call_ends :: "string \<Rightarrow> env_action list" where
  "call_ends out =
     [EAppend (StepCompleted ''wf-concurrent-fresh'' 0 out), ETerminal (WorkflowCompleted ''wf-concurrent-fresh''),
      EUnmount ''wf-concurrent-fresh'']"

definition concurrent_run_on_fresh_workflow_executes_step_once ::
    "(step_def list \<Rightarrow> body \<Rightarrow> sched) \<Rightarrow> (step_def list \<Rightarrow> body \<Rightarrow> sched) \<Rightarrow> env_action list \<Rightarrow> bool" where
  "concurrent_run_on_fresh_workflow_executes_step_once seen_by_a seen_by_b after_a =
     (let body = (\<lambda>n. Some (Ok ''done''));
          steps = [step_of ''only'' no_retry None];
          wflow = \<lparr>workflow_id = ''wf-concurrent-fresh'', workflow_steps = steps\<rparr>;
          result_a = run test_engine wflow [0] (seen_by_a steps body) test_world;
          result_b = run test_engine wflow [1] (seen_by_b steps body) test_world
      in case (result_a, result_b) of
           ((Ready (Ok _), sc, w), (Ready (Ok _), sc', w')) \<Rightarrow>
             env_run test_engine after_a w = w' \<and> next_task (wqueue w') = 1
         | _ \<Rightarrow> False)"

lemma concurrent_run_on_fresh_workflow_executes_step_once_passes:
  "concurrent_run_on_fresh_workflow_executes_step_once
     (\<lambda>steps body. start_sched @ [[], [], [], call_begins steps job_b, map EQueue (job_round High 0 (the (body 0)))])
     (\<lambda>steps body. [call_begins steps job_a @ [EQueue (LSend 0)], [], [], []] @
       [[], [], [], map EQueue (job_round High 0 (the (body 0))), call_ends ''done''])
     (call_ends ''done'')"
  by (simp add: concurrent_run_on_fresh_workflow_executes_step_once_def test_eval job_a_def [symmetric]
      call_begins_def call_ends_def env_run_step eval_queue await_job_renewing_lease_def job_poll_def both_evals both_first
      both_joined both_done_def [symmetric] both_pushed [unfolded job_b_def One_nat_def] terminal_section_def locked_event_def
      del: eval_await eval_await_timeout)

section \<open>The race of a cancellation with the completion\<close>

text \<open>
  The test starts 300 workflows of one step and cancels each from another task.  The predicate is about one of
  them: whatever \<open>run\<close> returns, at most one of its events closes the workflow.  \<open>race_at n\<close> is the
  interleaving in which the cancellation, a critical section of the terminal lock, happens before action \<open>n\<close> of
  the run; action 5 is the await of the body, before or after which it may happen.
\<close>

definition concurrent_cancel_and_completion_yield_one_terminal_event :: "(body \<Rightarrow> env_action list \<Rightarrow> sched) \<Rightarrow> bool" where
  "concurrent_cancel_and_completion_yield_one_terminal_event sched =
     (let body = (\<lambda>n. Some (Ok ''done''));
          wflow = \<lparr>workflow_id = ''wf-race'', workflow_steps = [step_of ''only'' no_retry None]\<rparr>
      in case run test_engine wflow [0] (sched body (other_cancel ''wf-race'' ''racing cancel'')) test_world of
           (r, sc, w) \<Rightarrow> length (filter is_terminal (log_of ''wf-race'' (store w))) \<le> 1)"

definition race_at :: "nat \<Rightarrow> bool \<Rightarrow> body \<Rightarrow> env_action list \<Rightarrow> sched" where
  "race_at n early body stop =
     (let base = start_sched @ [[], [], [], map EQueue (job_round High 0 (the (body 0))), [], [], [], [], [], []] in
      base[n := (if early then stop @ base ! n else base ! n @ stop)])"

lemmas race_eval = concurrent_cancel_and_completion_yield_one_terminal_event_def race_at_def test_eval
  env_run_step other_cancel_def terminal_section_def locked_event_def log_of_def

lemma eval_epush_after:
  assumes "env_run E (a # as) w = w'" and "accepting (wqueue w')" and "key_open (job_key j) (wqueue w')"
  shows "epush E j ((a # as) # sc) w =
    (Ready (Ok (Queued (length (oneshots (wqueue w'))))), sc, w'\<lparr>wqueue := sent j (wqueue w')\<rparr>)"
  using eval_epush_new [OF assms(2,3), of E sc] assms(1) by (simp add: epush_def ebind_def eyield_def env_run_def)

lemma env_run_cancel:
  "env_run E (ETerminal e # acts) w = env_run E acts (env_act E (ETerminal e) w)"
  "env_run E (EUnmount wid # acts) w = env_run E acts (env_act E (EUnmount wid) w)"
  "env_run E (map EQueue ls) w = w\<lparr>wqueue := qrun ls (wqueue w)\<rparr>"
  using env_run_queue [of E ls "[]" w] by (simp_all add: env_run_def)

lemma race_before_body:
  "list_all (\<lambda>n. concurrent_cancel_and_completion_yield_one_terminal_event (race_at n False)) [0, 1, 2, 3, 4, 5, 6]"
  by (simp add: race_eval eval_epush_after del: demo_oneshots)

lemma race_after_body:
  "list_all (\<lambda>n. concurrent_cancel_and_completion_yield_one_terminal_event (race_at n False)) [8, 9, 10, 11, 12]"
  by (simp add: race_eval del: demo_oneshots)

lemma race_at_body:
  "concurrent_cancel_and_completion_yield_one_terminal_event (race_at 7 True)"
  "concurrent_cancel_and_completion_yield_one_terminal_event (race_at 7 False)"
  by (simp_all add: race_eval await_job_renewing_lease_def job_poll_def env_run_queue env_run_cancel del: eval_await eval_await_timeout demo_oneshots)

end
