(* ===== verification/RecoveryTests.thy ===== *)
theory RecoveryTests
  imports EngineTests
begin

text \<open>
  The unit tests of \<open>src/recovery.rs\<close> over the store they define, in the form of \<open>EngineTests\<close>, at
  the time \<open>now\<close>.
\<close>

definition recovery_engine :: "mem_store engine" where
  "recovery_engine = engine_with mem_ops ''worker-1'' (Duration 60 0) High"

definition recovery_world :: "string \<Rightarrow> system_time \<Rightarrow> mem_store world" where
  "recovery_world wid now = engine_new demo_queue (seed_expired_lease wid 0 0 ''dead-worker'' now mem_new) now"

fun is_recovered_at :: "usize \<Rightarrow> event \<Rightarrow> bool" where
  "is_recovered_at i (WorkerRecovered w j) \<longleftrightarrow> j = i"
| "is_recovered_at i e \<longleftrightarrow> False"

fun leased_until :: "system_time \<Rightarrow> step_status \<Rightarrow> bool" where
  "leased_until now (StLeased v expires_at) \<longleftrightarrow> expires_at \<le> now"
| "leased_until now st \<longleftrightarrow> False"

definition recover_clears_expired_lease_and_logs_worker_recovered ::
    "system_time \<Rightarrow> (body \<Rightarrow> sched) \<Rightarrow> bool" where
  "recover_clears_expired_lease_and_logs_worker_recovered now sched =
     (let body = (\<lambda>n. Some (Ok ''done''));
          wflow = \<lparr>workflow_id = ''wf-recover'', workflow_steps = [step_of ''only'' no_retry None]\<rparr>
      in passes
        (ebind (register_workflow recovery_engine wflow [0]) (\<lambda>_.
         ebind (recover recovery_engine) (\<lambda>count.
         ebind (echeck (\<lambda>_. count = 1)) (\<lambda>_.
         ebind (echeck (\<lambda>w. case mem_step_status ''wf-recover'' 0 (store w) of
            None \<Rightarrow> False | Some status \<Rightarrow> \<not> leased_until (wall w) status)) (\<lambda>_.
         ebind (store_load recovery_engine ''wf-recover'') (\<lambda>events.
         echeck (\<lambda>_. list_ex (is_recovered_at 0) events)))))))
        (sched body) (recovery_world ''wf-recover'' now))"

lemmas recovery_eval =
  test_eval recovery_engine_def recovery_world_def seed_expired_lease_def mem_ops_def mem_append_event_def
  mem_load_events_def mem_claim_step_def mem_expired_leases_def mem_put_def mem_step_def mem_step_status_def
  mem_new_def system_time_ok_def recover_def readmit_after_worker_recovery_def

lemma recover_clears_expired_lease_and_logs_worker_recovered_passes:
  "recover_clears_expired_lease_and_logs_worker_recovered 120000000000
     (\<lambda>body. [[], [], [], []] @ call_sched 0 0 (body 0) @ end_sched @ [[]])"
  by (simp add: recover_clears_expired_lease_and_logs_worker_recovered_def recovery_eval)

definition recover_continues_through_steps_after_the_recovered_one ::
    "system_time \<Rightarrow> (body \<Rightarrow> body \<Rightarrow> sched) \<Rightarrow> bool" where
  "recover_continues_through_steps_after_the_recovered_one now sched =
     (let step0 = (\<lambda>n. Some (Ok ''recovered'')); step1 = (\<lambda>n. Some (Ok ''second''));
          wflow = \<lparr>workflow_id = ''wf-recover-continue'', workflow_steps =
            [step_of ''first'' no_retry None, step_of ''second'' no_retry None]\<rparr>
      in passes
        (ebind (register_workflow recovery_engine wflow [0, 1]) (\<lambda>_.
         ebind (recover recovery_engine) (\<lambda>_.
         ebind (echeck (\<lambda>w. next_task (wqueue w) = 2 \<and>
           queue_state (job_key_of ''wf-recover-continue'' 1 0) (wqueue w) = Some (SCompleted ''second''))) (\<lambda>_.
         ebind (store_load recovery_engine ''wf-recover-continue'') (\<lambda>events.
         echeck (\<lambda>_. list_ex is_workflow_completed events))))))
        (sched step0 step1) (recovery_world ''wf-recover-continue'' now))"

lemma recover_continues_through_steps_after_the_recovered_one_passes:
  "recover_continues_through_steps_after_the_recovered_one 120000000000 (\<lambda>step0 step1.
     [[], [], [], []] @ call_sched 0 0 (step0 0) @ [[], []] @ call_sched 0 1 (step1 0) @ end_sched @ [[]])"
  by (simp add: recover_continues_through_steps_after_the_recovered_one_def recovery_eval queue_state_def)

end
