(* ===== verification/SqliteTests.thy ===== *)
theory SqliteTests
  imports EngineTests
begin

text \<open>
  The unit tests of \<open>src/store/sqlite.rs\<close>: each opens a database of its own and makes its calls at the
  clock readings given; an \<open>expect\<close> or an \<open>assert!\<close> that fails is a panic.
\<close>

definition scheck :: "bool \<Rightarrow> (unit, store_error) sq" where
  "scheck P s = (if P then (Ok (), s) else (Panic, s))"

definition sqlite_passes :: "(unit, store_error) sq \<Rightarrow> bool" where
  "sqlite_passes test =
     (case sq_bind sqlite_new (\<lambda>_. test) \<lparr>conn_db = empty_db, poisoned = False, fates = []\<rparr> of
        (Ok a, s) \<Rightarrow> True | _ \<Rightarrow> False)"

lemma sqlite_passes_eq:
  "sqlite_passes test \<longleftrightarrow> (case test demo_store of (Ok a, s) \<Rightarrow> True | _ \<Rightarrow> False)"
proof -
  have "sqlite_new \<lparr>conn_db = empty_db, poisoned = False, fates = []\<rparr> = (Ok (), demo_store)"
    unfolding demo_store_def by code_simp
  then show ?thesis by (simp add: sqlite_passes_def sq_bind_def)
qed

lemma eval_load_ts:
  assumes "smooth s" and ok: "db_ok (conn_db s)"
  shows "load_events_with_timestamps w s = (Ok (timed_log w (conn_db s)), s)"
proof -
  obtain xs s' where run: "load_events_with_timestamps w s = (Ok xs, s')" "smooth s'"
    using sq_totalD [OF total_load_ts [OF ok] assms(1)] by fastforce
  with sq_runsD [OF runs_load_events_with_timestamps [OF ok] run(1)] smooth_eqI [OF assms(1) run(2)]
  show ?thesis by simp
qed

lemma timed_log_appended:
  "timed_log w (appended e now d) = timed_log w d @ (if event_workflow_id e = w then [(e, ts_millis_of now)] else [])"
  by (simp add: timed_log_def appended_def) (simp add: insert_event_def)

lemma timed_log_demo [simp]: "timed_log w (conn_db demo_store) = []"
  using demo_store_simps(4) [of w] by (simp add: timed_log_def event_log_def)

lemma eval_claim_held:
  assumes "smooth s" and ok: "db_ok (conn_db s)" and now: "clock_ok now"
    and "lease_of w i (conn_db s) = Held h t" and "h \<noteq> v" and "now < t"
  shows "sqlite_claim_step w i v ttl now s = (Ok HeldByOther, s)"
proof -
  obtain c s' where run: "sqlite_claim_step w i v ttl now s = (Ok c, s')" "smooth s'"
    using sq_totalD [OF total_claim [OF ok] assms(1)] by fastforce
  with sq_runsD [OF runs_claim [OF ok now] run(1)] smooth_eqI [OF assms(1) run(2)] assms(4-6)
  show ?thesis by simp
qed

lemmas sqlite_eval =
  sqlite_passes_eq sq_bind_def [abs_def] scheck_def eval_append eval_load eval_load_ts eval_claim eval_claim_held eval_expired
  db_ok_appended db_ok_leased_db timed_log_appended lease_of_leased_db Let_def
  clock_ok_def system_time_ok_def lease_expiry_def system_time_checked_add_def nanos_of_def

definition append_events_then_load_in_order :: "system_time list \<Rightarrow> bool" where
  "append_events_then_load_in_order now =
     (let wf = ''wf-order'';
          events = [WorkflowStarted wf, StepStarted wf 0 0, StepCompleted wf 0 ''done'']
      in sqlite_passes
        (sq_bind (sqlite_append_event (events ! 0) (now ! 0)) (\<lambda>_.
         sq_bind (sqlite_append_event (events ! 1) (now ! 1)) (\<lambda>_.
         sq_bind (sqlite_append_event (events ! 2) (now ! 2)) (\<lambda>_.
         sq_bind (sqlite_load_events wf) (\<lambda>loaded.
         scheck (length loaded = length events \<and>
           list_all (\<lambda>(got, want). encode_event got = encode_event want \<and> got = want)
             (zip loaded events))))))))"

lemma append_events_then_load_in_order_passes: "append_events_then_load_in_order now"
  by (simp add: append_events_then_load_in_order_def sqlite_eval)

text \<open>The column holds whole milliseconds, for 292 million years.\<close>

lemma ts_millis_of_eq:
  assumes t: "0 \<le> t" "system_time_ok t" and small: "t div 1000000 < 2 ^ 63"
  shows "ts_millis_of t = t div 1000000"
proof -
  obtain d where d: "since_epoch t = Some d" "nanos_of d = nat t"
    using since_epoch_nanos [OF t] by blast
  have "unat (as_secs d) * 1000000000 + n = n + unat (as_secs d) * 1000 * 1000000" for n by simp
  then have "as_millis d = nanos_of d div 1000000"
    unfolding as_millis_def nanos_of_def by (simp only: div_mult_self1)
  then have "int (as_millis d) = t div 1000000"
    using t(1) d(2) by (simp add: zdiv_int)
  moreover from calculation small t(1) have "sint (of_nat (as_millis d) :: u64) = int (as_millis d)"
    by (simp add: signed_of_nat signed_take_bit_int_eq_self)
  ultimately show ?thesis using d(1) by (simp add: ts_millis_of_def u64_as_i64_def)
qed

definition append_events_timestamps_non_decreasing :: "system_time list \<Rightarrow> bool" where
  "append_events_timestamps_non_decreasing now =
     (let wf = ''wf-ts'' in sqlite_passes
        (sq_bind (sqlite_append_event (WorkflowStarted wf) (now ! 0)) (\<lambda>_.
         sq_bind (sqlite_append_event (StepStarted wf 0 0) (now ! 1)) (\<lambda>_.
         sq_bind (load_events_with_timestamps wf) (\<lambda>with_ts.
         scheck (length with_ts = 2 \<and>
           (let ts0 = snd (with_ts ! 0); ts1 = snd (with_ts ! 1) in ts0 \<noteq> 0 \<and> ts1 \<noteq> 0 \<and> ts0 \<le> ts1)))))))"

lemma append_events_timestamps_non_decreasing_passes:
  "append_events_timestamps_non_decreasing [1000000, 6000000]"
  by (simp add: append_events_timestamps_non_decreasing_def sqlite_eval) (simp add: ts_millis_of_eq system_time_ok_def)

definition claim_step_claimed_then_held_by_other :: "system_time list \<Rightarrow> bool" where
  "claim_step_claimed_then_held_by_other now =
     (let wf = ''wf-claim''; ttl = Duration 300 0 in sqlite_passes
        (sq_bind (sqlite_claim_step wf 0 ''worker-a'' ttl (now ! 0)) (\<lambda>first.
         sq_bind (scheck (first = Claimed)) (\<lambda>_.
         sq_bind (sqlite_claim_step wf 0 ''worker-b'' ttl (now ! 1)) (\<lambda>second.
         scheck (second = HeldByOther))))))"

lemma claim_step_claimed_then_held_by_other_passes: "claim_step_claimed_then_held_by_other [0, 299999999999]"
  by (simp add: claim_step_claimed_then_held_by_other_def sqlite_eval)

definition step_started_event_does_not_erase_lease :: "system_time list \<Rightarrow> bool" where
  "step_started_event_does_not_erase_lease now =
     (let wf = ''wf-lease-survives-start'' in sqlite_passes
        (sq_bind (sqlite_claim_step wf 0 ''worker-a'' (Duration 0 0) (now ! 0)) (\<lambda>claimed.
         sq_bind (scheck (claimed = Claimed)) (\<lambda>_.
         sq_bind (sqlite_append_event (StepStarted wf 0 0) (now ! 1)) (\<lambda>_.
         sq_bind (sqlite_expired_leases (now ! 2)) (\<lambda>expired.
         scheck (length expired = 1 \<and> exec_workflow_id (expired ! 0) = wf \<and>
           exec_step_index (expired ! 0) = 0 \<and> exec_worker_id (expired ! 0) = ''worker-a'')))))))"

lemma step_started_event_does_not_erase_lease_passes: "step_started_event_does_not_erase_lease [5, 6, 7]"
  by (simp add: step_started_event_does_not_erase_lease_def sqlite_eval)
    (simp add: appended_def insert_event_def leased_db_def upsert_step_def demo_store_def migrated_fields
      empty_db_def attempt_of_def select_step_def u64_as_i64_def i64_as_u64_def system_time_parts_eq
      lease_expired_def leased_row_def execution_of_def lease_expiry_def system_time_checked_add_def
      nanos_of_def system_time_ok_def)

end
