(* ===== verification/SqliteEngineTests.thy ===== *)
theory SqliteEngineTests
  imports SqliteTests
begin

text \<open>
  The tests of \<open>src/engine.rs\<close> that run the engine on a \<open>SqliteStore\<close>, in the form of \<open>EngineTests\<close>.
\<close>

definition sqlite_engine :: "sqlite engine" where
  "sqlite_engine = engine_with sqlite_ops ''worker-1'' (Duration 60 0) High"

definition sqlite_engine_with_lease :: "string \<Rightarrow> duration \<Rightarrow> sqlite engine" where
  "sqlite_engine_with_lease worker_id lease_ttl = engine_with sqlite_ops worker_id lease_ttl High"

definition sqlite_world :: "sqlite \<Rightarrow> sqlite world" where
  "sqlite_world s = engine_new demo_queue s 0"

definition completed_workflow_cannot_accumulate_duplicate_completion_events ::
    "(body \<Rightarrow> body \<Rightarrow> sched) \<Rightarrow> bool" where
  "completed_workflow_cannot_accumulate_duplicate_completion_events sched =
     (let step0 = (\<lambda>n. Some (Ok ''a'')); step1 = (\<lambda>n. Some (Ok ''b''));
          wflow = \<lparr>workflow_id = ''wf-once-complete'', workflow_steps =
            [step_of ''a'' no_retry None, step_of ''b'' no_retry None]\<rparr>
      in passes
        (ebind (run sqlite_engine wflow [0, 1]) (\<lambda>_.
         ebind (store_load sqlite_engine ''wf-once-complete'') (\<lambda>events.
         ebind (echeck (\<lambda>_. count_workflow_completed events = 1)) (\<lambda>_.
         ebind (run sqlite_engine wflow [2, 3]) (\<lambda>_.
         ebind (store_load sqlite_engine ''wf-once-complete'') (\<lambda>events.
         echeck (\<lambda>_. count_workflow_completed events = 1)))))))
        (sched step0 step1) (sqlite_world demo_store))"

definition done_output :: "string \<Rightarrow> usize \<Rightarrow> db \<Rightarrow> string" where
  "done_output w i d =
     (case select_step w i d of
        Some r \<Rightarrow> (case row_output r of Some out \<Rightarrow> out | None \<Rightarrow> []) | None \<Rightarrow> [])"

lemma eval_claim_done:
  assumes "smooth s" and "lease_of w i (conn_db s) = Done"
  shows "sqlite_claim_step w i v ttl now s = (Ok (AlreadyCompleted (done_output w i (conn_db s))), s)"
proof -
  from assms(2) obtain r where r: "select_step w i (conn_db s) = Some r" "row_status r = ''completed''"
    by (auto simp: lease_of_def split: option.splits if_splits)
  obtain d p fs where "s = \<lparr>conn_db = d, poisoned = p, fates = fs\<rparr>" by (cases s)
  with assms(1) r show ?thesis
    by (simp add: smooth_def sqlite_claim_step_def claim_step_tx_def load_step_row_def lock_conn_def transaction_def
        backend_def query_def rusqlite_def sq_bind_def sq_return_def Let_def done_output_def)
qed

lemma eval_claim_waiting:
  assumes "smooth s" and "db_ok (conn_db s)" and "clock_ok now" and "lease_of w i (conn_db s) = Suspended"
  shows "sqlite_claim_step w i v ttl now s = (Ok AlreadyWaiting, s)"
proof -
  obtain c s' where run: "sqlite_claim_step w i v ttl now s = (Ok c, s')" "smooth s'"
    using sq_totalD [OF total_claim [OF assms(2)] assms(1)] by fastforce
  with sq_runsD [OF runs_claim [OF assms(2,3)] run(1)] smooth_eqI [OF assms(1) run(2)] assms(4)
  show ?thesis by simp
qed

lemma lease_of_ended [simp]:
  "lease_of w i (appended (StepCompleted w' i' out) now d) = (if w = w' \<and> i = i' then Done else lease_of w i d)"
  "lease_of w i (appended (StepWaiting w' i' r) now d) = (if w = w' \<and> i = i' then Suspended else lease_of w i d)"
  "lease_of w i (appended (StepResumed w' i' x) now d) = (if w = w' \<and> i = i' then Unclaimed else lease_of w i d)"
  "lease_of w i (appended (WorkflowCompleted w') now d) = lease_of w i d"
  by (simp_all add: lease_of_def appended_def) (simp_all add: plain_row_def)

lemmas sqlite_engine_eval =
  test_eval sqlite_engine_def sqlite_engine_with_lease_def sqlite_world_def eval_append eval_load eval_claim eval_claim_done eval_claim_waiting
  db_ok_appended db_ok_leased_db lease_of_leased_db own_event_def

lemma completed_workflow_cannot_accumulate_duplicate_completion_events_passes:
  "completed_workflow_cannot_accumulate_duplicate_completion_events (\<lambda>step0 step1.
     (start_sched @ call_sched 0 0 (step0 0) @ [[]] @ call_sched 0 1 (step1 0) @ end_sched) @ [[]] @
     [[], [], []])"
  by (simp add: completed_workflow_cannot_accumulate_duplicate_completion_events_def sqlite_engine_eval)


text \<open>
  Both lists of bodies share the counter of the approval step, so its calls are numbered through; it
  has been called as often as there are tasks besides the one of the first step.
\<close>

definition waiting_step_cannot_be_re_run_into_duplicate_side_effect :: "(body \<Rightarrow> body \<Rightarrow> sched) \<Rightarrow> bool" where
  "waiting_step_cannot_be_re_run_into_duplicate_side_effect sched =
     (let step0 = (\<lambda>n. Some (Ok ''first''));
          step1 = (\<lambda>n. Some (if n = 0 then Err (wait_for_input_display ''needs approval'') else Ok ''approved''));
          wflow = \<lparr>workflow_id = ''wf-wait-rerun'', workflow_steps =
            [step_of ''first'' no_retry None, step_of ''approval'' no_retry None]\<rparr>;
          approval_runs = (\<lambda>w. next_task (wqueue w) - 1)
      in passes
        (ebind (run sqlite_engine wflow [0, 1]) (\<lambda>_.
         ebind (echeck (\<lambda>w. approval_runs w = 1)) (\<lambda>_.
         ebind (store_load sqlite_engine ''wf-wait-rerun'') (\<lambda>events.
         ebind (echeck (\<lambda>_. list_ex (is_waiting_at 1) events \<and> count_workflow_completed events = 0)) (\<lambda>_.
         ebind (run sqlite_engine wflow [2, 3]) (\<lambda>_.
         ebind (echeck (\<lambda>w. approval_runs w = 1)) (\<lambda>_.
         ebind (resume sqlite_engine ''wf-wait-rerun'' 1 ''approved'') (\<lambda>_.
         ebind (echeck (\<lambda>w. approval_runs w = 2)) (\<lambda>_.
         ebind (store_load sqlite_engine ''wf-wait-rerun'') (\<lambda>events.
         echeck (\<lambda>_. count_workflow_completed events = 1)))))))))))
        (sched step0 step1) (sqlite_world demo_store))"

lemma waiting_step_cannot_be_re_run_into_duplicate_side_effect_passes:
  "waiting_step_cannot_be_re_run_into_duplicate_side_effect (\<lambda>step0 step1.
     (start_sched @ call_sched 0 0 (step0 0) @ [[]] @ call_sched 0 1 (step1 0)) @ [[]] @
     (start_sched @ [[], [], []]) @ ([[], [], []] @ call_sched 0 2 (step1 1)))"
  by (simp add: waiting_step_cannot_be_re_run_into_duplicate_side_effect_def sqlite_engine_eval)

text \<open>The restart: the file is opened again, with a new queue and nothing in flight.\<close>

definition resume_input_survives_simulated_restart_from_sqlite_log :: "(body \<Rightarrow> body \<Rightarrow> sched) \<Rightarrow> bool" where
  "resume_input_survives_simulated_restart_from_sqlite_log sched =
     (let step0 = (\<lambda>n. Some (Ok ''first''));
          step1 = (\<lambda>n. Some (if n = 0 then Err (wait_for_input_display ''need approval'') else Ok ''approved''));
          wflow = \<lparr>workflow_id = ''wf-resume-input-restart'', workflow_steps =
            [step_of ''first'' no_retry None, step_of ''approval'' no_retry None]\<rparr>;
          resume_text = ''approved by human after restart''
      in case ebind (run sqlite_engine wflow [0, 1]) (\<lambda>_.
              resume sqlite_engine ''wf-resume-input-restart'' 1 resume_text)
              (sched step0 step1) (sqlite_world demo_store) of
           (Ready (Ok _), sc, w) \<Rightarrow>
             (case sqlite_new \<lparr>conn_db = conn_db (store w), poisoned = False, fates = []\<rparr> of
                (Ok _, reopened) \<Rightarrow>
                  (case resume_input sqlite_engine ''wf-resume-input-restart'' 1 [] (sqlite_world reopened) of
                     (Ready (Ok x), _) \<Rightarrow> x = Some resume_text
                   | _ \<Rightarrow> False)
              | _ \<Rightarrow> False)
         | _ \<Rightarrow> False)"

lemma total_new: "sq_total d sqlite_new (\<lambda>_ _. True)"
proof -
  have find: "sq_total d' (find_column c names) (\<lambda>_ d''. d'' = d')" for c names d'
    by (induction names) (auto intro!: total_rules)
  show ?thesis
    unfolding sqlite_new_def ensure_events_ts_millis_column_def
    by (intro total_bind_backend_query total_bind_backend_execute total_bind [OF find])
      (auto intro!: total_rules)
qed

lemma smooth_opened [simp]: "smooth \<lparr>conn_db = d, poisoned = False, fates = []\<rparr>"
  by (simp add: smooth_def)

lemma eval_reopen:
  "sqlite_new \<lparr>conn_db = d, poisoned = False, fates = []\<rparr> =
     (Ok (), \<lparr>conn_db = migrated d, poisoned = False, fates = []\<rparr>)" (is "sqlite_new ?s = _")
proof -
  obtain u s' where run: "sqlite_new ?s = (Ok u, s')" "smooth s'"
    using sq_totalD [OF total_new smooth_opened] by fastforce
  with sq_runsD [OF runs_new run(1)] smooth_eqI [OF smooth_opened run(2)] show ?thesis by simp
qed

lemma resume_input_survives_simulated_restart_from_sqlite_log_passes:
  "resume_input_survives_simulated_restart_from_sqlite_log (\<lambda>step0 step1.
     (start_sched @ call_sched 0 0 (step0 0) @ [[]] @ call_sched 0 1 (step1 0)) @
     ([[], [], []] @ call_sched 0 2 (step1 1)))"
  by (simp add: resume_input_survives_simulated_restart_from_sqlite_log_def sqlite_engine_eval eval_reopen
      resume_input_def migrated_fields last_resume_input_def)


section \<open>Leases\<close>

definition renewed :: "string \<Rightarrow> usize \<Rightarrow> duration \<Rightarrow> system_time \<Rightarrow> db \<Rightarrow> db" where
  "renewed w i ttl now d = renewed_db w i ttl now (the (select_step w i d)) d"

lemma held_row:
  assumes "db_ok d" and "lease_of w i d = Held v t"
  shows "\<exists>r. select_step w i d = Some r \<and> row_status r = ''leased'' \<and> row_worker_id r = Some v"
proof -
  from assms(2) obtain r where r: "select_step w i d = Some r" "row_status r = ''leased''"
      "(case row_worker_id r of Some h \<Rightarrow> h | None \<Rightarrow> []) = v"
    by (auto simp: lease_of_def split: option.splits if_splits)
  then show ?thesis using lease_row_okE [OF select_step_ok [OF assms(1) r(1)] r(2)] by fastforce
qed

lemma renewed_simps:
  assumes "db_ok d" and "lease_of w i d = Held v t" and "clock_ok now"
  shows "db_ok (renewed w i ttl now d)" and "event_log w' (renewed w i ttl now d) = event_log w' d"
    and "lease_of w' i' (renewed w i ttl now d) =
      (if w' = w \<and> i' = i then Held v (lease_expiry now ttl) else lease_of w' i' d)"
  using held_row [OF assms(1,2)] assms(1,3)
  by (auto simp: renewed_def db_ok_renewed_db lease_of_renewed_db)

lemma eval_renew:
  assumes "smooth s" and "db_ok (conn_db s)" and "lease_of w i (conn_db s) = Held v t"
  shows "sqlite_renew_lease w i v ttl now s = (Ok (), s\<lparr>conn_db := renewed w i ttl now (conn_db s)\<rparr>)"
proof -
  from held_row [OF assms(2,3)] obtain r where
    r: "select_step w i (conn_db s) = Some r" "row_status r = ''leased''" "row_worker_id r = Some v" by blast
  obtain s' where run: "sqlite_renew_lease w i v ttl now s = (Ok (), s')" "smooth s'"
    using sq_totalD [OF total_renew [OF r] assms(1)] by fastforce
  with sq_runsD [OF runs_renew run(1)] smooth_eqI [OF assms(1) run(2)] r(1)
  show ?thesis by (auto simp: renewed_def)
qed

text \<open>
  The timer of the renewal task wakes late, after 40 and after 80 ms; it is due every 16.7 ms.
\<close>

definition slow_sched :: sched where
  "slow_sched = start_sched @ [[], [], [], map EQueue (job_hang High 0)] @
     [[EWall 40000000, ETick 40000000, ERenewTick], [EWall 80000000, ETick 40000000, ERenewTick]]"

text \<open>
  A lease of 50 ms on a step of 200 ms: \<open>before\<close> is what happens until the other worker tries to take the
  step, and \<open>after\<close> what happens from then on.
\<close>

definition live_worker_renews_lease_so_other_worker_cannot_claim ::
    "(body \<Rightarrow> sched) \<Rightarrow> (body \<Rightarrow> sched) \<Rightarrow> bool" where
  "live_worker_renews_lease_so_other_worker_cannot_claim before after =
     (let E = sqlite_engine_with_lease ''worker-live'' (duration_from_millis 50);
          body = (\<lambda>n. Some (Ok ''done''));
          wflow = \<lparr>workflow_id = ''wf-lease-renew'', workflow_steps = [step_of ''slow'' no_retry None]\<rparr>;
          steal = EClaim ''wf-lease-renew'' 0 ''worker-other'' (Duration 60 0)
      in (case run E wflow [0] (before body) (sqlite_world demo_store) of
            (Blocked, sc, w) \<Rightarrow>
              fst (sqlite_claim_step ''wf-lease-renew'' 0 ''worker-other'' (Duration 60 0) (wall w) (store w)) =
                Ok HeldByOther
          | _ \<Rightarrow> False) \<and>
         passes (run E wflow [0]) (before body @ [steal] # after body) (sqlite_world demo_store))"

lemma live_worker_renews_lease_so_other_worker_cannot_claim_passes:
  "live_worker_renews_lease_so_other_worker_cannot_claim (\<lambda>body. slow_sched)
     (\<lambda>body. [map EQueue (job_end 0 (the (body 0))), []] @ end_sched)"
  by (simp add: live_worker_renews_lease_so_other_worker_cannot_claim_def slow_sched_def sqlite_engine_eval
      eval_renew renewed_simps eval_claim_held await_job_renewing_lease_def job_poll_def env_run_step eval_queue renewal_tick_def
      renewal_interval_def duration_div_def duration_is_zero_def lease_expiry_def system_time_checked_add_def
      system_time_ok_def clock_ok_def del: eval_await eval_await_timeout)

end
